(* ===== verification/Keccak.thy ===== *)
theory Keccak
  imports Prelude
begin

text \<open>
  Keccak-256 of \<open>src/crypto/keccak256.hpp\<close>. The permutation works in place on 25 lanes with the
  rho-pi cycle trick; loops over an array are folds over its indices. It is compared with the
  specification of the permutation (FIPS 202 section 3.2: the five step mappings on a
  5-by-5 array of lanes, rotation offsets and round constants computed as the standard defines
  them), and the absorb loop with the sponge construction over the padded message.
\<close>

subsection \<open>The permutation as written\<close>

definition RC :: "u64 list" where
  "RC =
    [0x0000000000000001, 0x0000000000008082, 0x800000000000808A, 0x8000000080008000,
     0x000000000000808B, 0x0000000080000001, 0x8000000080008081, 0x8000000000008009,
     0x000000000000008A, 0x0000000000000088, 0x0000000080008009, 0x000000008000000A,
     0x000000008000808B, 0x800000000000008B, 0x8000000000008089, 0x8000000000008003,
     0x8000000000008002, 0x8000000000000080, 0x000000000000800A, 0x800000008000000A,
     0x8000000080008081, 0x8000000000008080, 0x0000000080000001, 0x8000000080008008]"

definition PI_LANES :: "nat list" where
  "PI_LANES = [10, 7, 11, 17, 18, 3, 5, 16, 8, 21, 24, 4, 15, 23, 19, 13, 12, 2, 20, 14, 22, 9, 6, 1]"

definition RHO :: "nat list" where
  "RHO = [1, 3, 6, 10, 15, 21, 28, 36, 45, 55, 2, 14, 27, 41, 56, 8, 25, 43, 62, 18, 39, 61, 20, 44]"

definition shift_rot :: "u64 \<Rightarrow> nat \<Rightarrow> u64" where
  "shift_rot w n = push_bit n w OR drop_bit (64 - n) w"

definition theta_loop :: "u64 list \<Rightarrow> u64 list" where
  "theta_loop A =
     (let C = map (\<lambda>x. A ! x XOR A ! (x + 5) XOR A ! (x + 10) XOR A ! (x + 15) XOR A ! (x + 20)) [0..<5]
      in fold (\<lambda>x A. let d = C ! ((x + 4) mod 5) XOR shift_rot (C ! ((x + 1) mod 5)) 1
                      in fold (\<lambda>y A. A[x + 5 * y := A ! (x + 5 * y) XOR d]) [0..<5] A) [0..<5] A)"

definition rho_pi_loop :: "u64 list \<Rightarrow> u64 list" where
  "rho_pi_loop A =
     fst (fold (\<lambda>i (A, T). let j = PI_LANES ! i in (A[j := shift_rot T (RHO ! i)], A ! j))
            [0..<24] (A, A ! 1))"

definition chi_loop :: "u64 list \<Rightarrow> u64 list" where
  "chi_loop A =
     fold (\<lambda>y A. let B = map (\<lambda>x. A ! (x + 5 * y)) [0..<5]
                  in fold (\<lambda>x A. A[x + 5 * y := B ! x XOR (NOT (B ! ((x + 1) mod 5)) AND B ! ((x + 2) mod 5))])
                       [0..<5] A) [0..<5] A"

definition keccak_round :: "nat \<Rightarrow> u64 list \<Rightarrow> u64 list" where
  "keccak_round r A =
     (let A = chi_loop (rho_pi_loop (theta_loop A)) in A[0 := A ! 0 XOR RC ! r])"

definition keccak_f1600 :: "u64 list \<Rightarrow> u64 list" where
  "keccak_f1600 A = fold keccak_round [0..<24] A"

subsection \<open>The hash as written\<close>

definition RATE :: nat where "RATE = 136"

text \<open>\<open>memcpy\<close> of 8 bytes into a lane and back, on a little-endian host.\<close>

fun le_lane :: "bytes \<Rightarrow> u64" where
  "le_lane [] = 0"
| "le_lane (b # bs) = ucast b OR push_bit 8 (le_lane bs)"

definition load_lane :: "bytes \<Rightarrow> nat \<Rightarrow> u64" where
  "load_lane bs off = le_lane (take 8 (drop off bs))"

definition store_lane :: "u64 \<Rightarrow> bytes" where
  "store_lane w = map (\<lambda>i. ucast (drop_bit (8 * i) w)) [0..<8]"

definition xor_block :: "bytes \<Rightarrow> nat \<Rightarrow> u64 list \<Rightarrow> u64 list" where
  "xor_block bs off A =
     fold (\<lambda>i A. A[i := A ! i XOR load_lane bs (off + i * 8)]) [0..<RATE div 8] A"

function absorb_full :: "bytes \<Rightarrow> nat \<Rightarrow> u64 list \<Rightarrow> u64 list \<times> nat" where
  "absorb_full bs off A =
     (if off + RATE \<le> length bs
      then absorb_full bs (off + RATE) (keccak_f1600 (xor_block bs off A))
      else (A, off))"
  by auto
termination
  by (relation "measure (\<lambda>(bs, off, A). length bs - off)") (auto simp: RATE_def)

declare absorb_full.simps [simp del]

definition final_block :: "bytes \<Rightarrow> bytes" where
  "final_block rest =
     (let buf = (rest @ replicate (RATE - length rest) 0)[length rest := 1]
      in buf[RATE - 1 := buf ! (RATE - 1) XOR 0x80])"

definition keccak256 :: "bytes \<Rightarrow> bytes" where
  "keccak256 bs =
     (let (A, off) = absorb_full bs 0 (replicate 25 0);
          A = keccak_f1600 (xor_block (final_block (drop off bs)) 0 A)
      in take 32 (concat (map store_lane A)))"

subsection \<open>Lengths\<close>

lemma length_fold_update:
  "(\<And>i A. length (f i A) = length A) \<Longrightarrow> length (fold f xs A) = length A"
  by (induction xs arbitrary: A) simp_all

lemma length_theta_loop [simp]: "length (theta_loop A) = length A"
  by (simp add: theta_loop_def Let_def length_fold_update)

lemma length_chi_loop [simp]: "length (chi_loop A) = length A"
  by (simp add: chi_loop_def Let_def length_fold_update)

lemma length_rho_pi_loop [simp]: "length (rho_pi_loop A) = length A"
proof -
  have "length (fst (fold (\<lambda>i (A, T). let j = PI_LANES ! i in (A[j := shift_rot T (RHO ! i)], A ! j)) is (A, T)))
      = length A" for "is" and A :: "u64 list" and T
    by (induction "is" arbitrary: A T) (simp_all add: Let_def)
  then show ?thesis by (simp add: rho_pi_loop_def)
qed

lemma length_keccak_f1600 [simp]: "length (keccak_f1600 A) = length A"
  by (simp add: keccak_f1600_def keccak_round_def Let_def length_fold_update)

lemma length_xor_block [simp]: "length (xor_block bs off A) = length A"
  by (simp add: xor_block_def length_fold_update)

lemma length_absorb_full: "length (fst (absorb_full bs off A)) = length A"
  by (induction bs off A rule: absorb_full.induct) (subst absorb_full.simps, simp)

lemma length_store_lane [simp]: "length (store_lane w) = 8"
  by (simp add: store_lane_def)

lemma length_keccak256 [simp]: "length (keccak256 bs) = 32"
proof -
  have "length (concat (map store_lane A)) = 8 * length A" for A
    by (induction A) simp_all
  then show ?thesis
    using length_absorb_full [of bs 0 "replicate 25 0"]
    by (simp add: keccak256_def case_prod_beta Let_def)
qed

subsection \<open>The specification of the permutation\<close>

type_synonym lanes = "nat \<Rightarrow> nat \<Rightarrow> u64"

definition spec_theta :: "lanes \<Rightarrow> lanes" where
  "spec_theta a x y =
     (let C = (\<lambda>x. a x 0 XOR a x 1 XOR a x 2 XOR a x 3 XOR a x 4)
      in a x y XOR C ((x + 4) mod 5) XOR word_rotl 1 (C ((x + 1) mod 5)))"

text \<open>The rotation offsets: lane \<open>(1, 0)\<close> and its successors under \<open>(x, y) \<mapsto> (y, 2x + 3y)\<close>
  are rotated by the triangular numbers.\<close>

fun rho_lane :: "nat \<Rightarrow> nat \<times> nat" where
  "rho_lane 0 = (1, 0)"
| "rho_lane (Suc t) = (case rho_lane t of (x, y) \<Rightarrow> (y, (2 * x + 3 * y) mod 5))"

definition rho_offset :: "nat \<Rightarrow> nat \<Rightarrow> nat" where
  "rho_offset x y =
     (case find (\<lambda>t. rho_lane t = (x, y)) [0..<24] of
        None \<Rightarrow> 0 | Some t \<Rightarrow> ((t + 1) * (t + 2) div 2) mod 64)"

definition spec_rho :: "lanes \<Rightarrow> lanes" where
  "spec_rho a x y = word_rotl (rho_offset x y) (a x y)"

definition spec_pi :: "lanes \<Rightarrow> lanes" where
  "spec_pi a x y = a ((x + 3 * y) mod 5) x"

definition spec_chi :: "lanes \<Rightarrow> lanes" where
  "spec_chi a x y = a x y XOR (NOT (a ((x + 1) mod 5) y) AND a ((x + 2) mod 5) y)"

text \<open>The round constants: the output bits of the linear feedback shift register of the standard.\<close>

definition lfsr_step :: "bool list \<Rightarrow> bool list" where
  "lfsr_step R =
     (let R = False # R
      in take 8 (R[0 := R ! 0 \<noteq> R ! 8, 4 := R ! 4 \<noteq> R ! 8, 5 := R ! 5 \<noteq> R ! 8, 6 := R ! 6 \<noteq> R ! 8]))"

definition rc_bit :: "nat \<Rightarrow> bool" where
  "rc_bit t = ((lfsr_step ^^ (t mod 255)) [True, False, False, False, False, False, False, False]) ! 0"

definition spec_RC :: "nat \<Rightarrow> u64" where
  "spec_RC r = foldr (\<lambda>j w. (if rc_bit (j + 7 * r) then push_bit (2 ^ j - 1) 1 else 0) OR w) [0..<7] 0"

definition spec_iota :: "nat \<Rightarrow> lanes \<Rightarrow> lanes" where
  "spec_iota r a x y = (if x = 0 \<and> y = 0 then a x y XOR spec_RC r else a x y)"

definition spec_round :: "nat \<Rightarrow> lanes \<Rightarrow> lanes" where
  "spec_round r a = spec_iota r (spec_chi (spec_pi (spec_rho (spec_theta a))))"

definition lanes_list :: "lanes \<Rightarrow> u64 list" where
  "lanes_list a = map (\<lambda>i. a (i mod 5) (i div 5)) [0..<25]"

definition list_lanes :: "u64 list \<Rightarrow> lanes" where
  "list_lanes A x y = A ! (x + 5 * y)"

subsection \<open>Each loop computes its step mapping\<close>

lemma upt5: "[0..<5] = [0,1,2,3,4::nat]" by (simp add: upt_rec)

lemma upt7: "[0..<7] = [0,1,2,3,4,5,6::nat]" by (simp add: upt_rec)

lemma upt24: "[0..<24] = [0,1,2,3,4,5,6,7,8,9,10,11,12,13,14,15,16,17,18,19,20,21,22,23::nat]" by (simp add: upt_rec)

lemma upt25: "[0..<25] = [0,1,2,3,4,5,6,7,8,9,10,11,12,13,14,15,16,17,18,19,20,21,22,23,24::nat]" by (simp add: upt_rec)

lemmas upts = upt5 upt7 upt24 upt25

lemma shift_rot: "n < 64 \<Longrightarrow> shift_rot w n = word_rotl n w"
proof (rule bit_word_eqI)
  fix i assume n: "n < 64" and "i < LENGTH(64)"
  then have i: "i < 64" by simp
  have rot: "bit (word_rotl n w) i \<longleftrightarrow> bit w ((i + (64 - n)) mod 64)"
    using i n by (simp add: bit_word_rotl_iff)
  show "bit (shift_rot w n) i \<longleftrightarrow> bit (word_rotl n w) i"
  proof (cases "n \<le> i")
    case True
    have "i + (64 - n) = 64 + (i - n)" using True n by simp
    then have "(i + (64 - n)) mod 64 = i - n" using i by (simp only: mod_add_self1) simp
    moreover have "\<not> bit w (64 - n + i)" using True by (intro impossible_bit) simp
    ultimately show ?thesis using i n True
      by (simp add: rot shift_rot_def bit_or_iff bit_push_bit_iff bit_drop_bit_eq)
  next
    case False
    then have "(i + (64 - n)) mod 64 = 64 - n + i" using i n by simp
    then show ?thesis using i n False
      by (simp add: rot shift_rot_def bit_or_iff bit_push_bit_iff bit_drop_bit_eq)
  qed
qed

fun lfsr_run :: "nat \<Rightarrow> bool list \<Rightarrow> bool list" where
  "lfsr_run 0 R = []"
| "lfsr_run (Suc n) R = R ! 0 # lfsr_run n (lfsr_step R)"

lemma lfsr_run: "t < n \<Longrightarrow> lfsr_run n R ! t = ((lfsr_step ^^ t) R) ! 0"
  by (induction n arbitrary: t R) (auto simp: nth_Cons funpow_swap1 split: nat.split)

lemma rc_bits:
  "lfsr_run 168 [True, False, False, False, False, False, False, False] =
     [True, False, False, False, False, False, False, False, True, False, True, True, False,
      False, False, True, True, True, True, False, True, False, False, False, False, True, True,
      True, True, True, True, True, True, False, False, True, False, False, False, False, True,
      False, True, False, False, True, True, True, True, True, False, True, False, True, False,
      True, False, True, True, True, False, False, False, False, False, True, True, False,
      False, False, True, False, True, False, True, True, False, False, True, True, False,
      False, True, False, True, True, True, True, True, True, False, True, True, True, True,
      False, False, True, True, False, True, True, True, False, True, True, True, False, False,
      True, False, True, False, True, False, False, True, False, True, False, False, False,
      True, False, False, True, False, True, True, False, True, False, False, False, True, True,
      False, False, True, True, True, False, False, True, True, True, True, False, False, False,
      True, True, False, True, True, False, False, False, False, True, False, False, False,
      True, False, True, True, True]"
  by (simp add: numeral_eq_Suc lfsr_step_def)

lemma rc_bit_run:
  "t < 168 \<Longrightarrow> rc_bit t = lfsr_run 168 [True, False, False, False, False, False, False, False] ! t"
  by (simp add: rc_bit_def lfsr_run)

lemma RC_spec: "map spec_RC [0..<24] = RC"
  by (simp add: upts spec_RC_def rc_bit_run rc_bits RC_def)

lemma theta_lanes: "lanes_list (spec_theta a) = theta_loop (lanes_list a)"
  by (simp add: lanes_list_def theta_loop_def spec_theta_def Let_def upts shift_rot xor.assoc numeral_2_eq_2 [symmetric])

lemma rho_lane_numeral: "rho_lane (numeral k) = (case rho_lane (pred_numeral k) of (x, y) \<Rightarrow> (y, (2 * x + 3 * y) mod 5))"
  by (simp only: numeral_eq_Suc rho_lane.simps)

lemma rho_lanes: "map rho_lane [0..<24] =
   [(1,0),(0,2),(2,1),(1,2),(2,3),(3,3),(3,0),(0,1),(1,3),(3,1),(1,4),(4,4),(4,0),(0,3),(3,4),(4,3),(3,2),(2,2),(2,0),(0,4),(4,2),(2,4),(4,1),(1,1)]"
  by (simp add: upts rho_lane_numeral)

lemma rho_offsets: "map (\<lambda>i. rho_offset (i mod 5) (i div 5)) [0..<25] = [0,1,62,28,27,36,44,6,55,20,3,10,43,25,39,41,45,15,21,8,18,2,61,56,14]"
  using rho_lanes by (simp add: upts rho_offset_def)

lemma word_rotl_0: "word_rotl 0 w = w" by (rule bit_word_eqI) (simp add: bit_word_rotl_iff)

lemma rho_pi_lanes: "lanes_list (spec_pi (spec_rho a)) = rho_pi_loop (lanes_list a)"
  using rho_offsets
  by (simp add: word_rotl_0 lanes_list_def rho_pi_loop_def spec_pi_def spec_rho_def Let_def upts shift_rot PI_LANES_def RHO_def  numeral_2_eq_2 [symmetric])

lemma chi_lanes: "lanes_list (spec_chi a) = chi_loop (lanes_list a)"
  by (simp add: lanes_list_def chi_loop_def spec_chi_def Let_def upts numeral_2_eq_2 [symmetric])

lemma upt17: "[0..<17] = [0,1,2,3,4,5,6,7,8,9,10,11,12,13,14,15,16::nat]"
  by (simp add: upt_rec)

lemma RC_nth: "r < 24 \<Longrightarrow> RC ! r = spec_RC r"
  by (simp flip: RC_spec)

lemma iota_lanes: "r < 24 \<Longrightarrow> (lanes_list a)[0 := lanes_list a ! 0 XOR RC ! r] = lanes_list (spec_iota r a)"
  by (simp add: lanes_list_def upts spec_iota_def RC_nth)

lemma round_lanes: "r < 24 \<Longrightarrow> keccak_round r (lanes_list a) = lanes_list (spec_round r a)"
  by (simp add: keccak_round_def spec_round_def Let_def iota_lanes
      flip: theta_lanes rho_pi_lanes chi_lanes)

definition spec_f1600 :: "lanes \<Rightarrow> lanes" where
  "spec_f1600 a = fold spec_round [0..<24] a"

lemma f1600_lanes: "keccak_f1600 (lanes_list a) = lanes_list (spec_f1600 a)"
proof -
  have "n \<le> 24 \<Longrightarrow> fold keccak_round [0..<n] (lanes_list a) = lanes_list (fold spec_round [0..<n] a)" for n
    by (induction n) (simp_all add: round_lanes)
  then show ?thesis by (simp add: keccak_f1600_def spec_f1600_def)
qed

lemma lanes_list_of: "length A = 25 \<Longrightarrow> lanes_list (list_lanes A) = A"
  by (rule nth_equalityI) (simp_all add: lanes_list_def list_lanes_def)

text \<open>
  C13. The in-place permutation is Keccak-f[1600]: on every 25-lane state it computes the 24
  rounds of the standard's five step mappings, with the rotation offsets and round constants the
  standard derives (a wrong table entry or lane order in the code would break this).
\<close>

theorem keccak_f1600_correct:
  assumes "length A = 25"
  shows "keccak_f1600 A = lanes_list (spec_f1600 (list_lanes A))"
  using f1600_lanes [of "list_lanes A"] assms by (simp add: lanes_list_of)

theorem keccak_f1600_correct_witness:
  "keccak_f1600 (replicate 25 0) = lanes_list (spec_f1600 (list_lanes (replicate 25 0)))"
  by (rule keccak_f1600_correct) simp

subsection \<open>The sponge construction\<close>

definition pad :: "bytes \<Rightarrow> bytes" where
  "pad m =
     (let q = RATE - length m mod RATE
      in m @ (if q = 1 then [0x81] else [1] @ replicate (q - 2) 0 @ [0x80]))"

fun blocks :: "bytes \<Rightarrow> bytes list" where
  "blocks [] = []"
| "blocks (b # bs) = take RATE (b # bs) # blocks (drop (RATE - 1) bs)"

definition spec_absorb :: "bytes \<Rightarrow> lanes \<Rightarrow> lanes" where
  "spec_absorb blk a =
     spec_f1600 (\<lambda>x y. a x y XOR
       (if x + 5 * y < 17 then le_lane (take 8 (drop (8 * (x + 5 * y)) blk)) else 0))"

definition spec_keccak256 :: "bytes \<Rightarrow> bytes" where
  "spec_keccak256 m =
     take 32 (concat (map store_lane (lanes_list (fold spec_absorb (blocks (pad m)) (\<lambda>x y. 0)))))"

lemma xor_block_lanes:
  "xor_block blk 0 (lanes_list a) = lanes_list (\<lambda>x y. a x y XOR
     (if x + 5 * y < 17 then le_lane (take 8 (drop (8 * (x + 5 * y)) blk)) else 0))"
  by (simp add: xor_block_def RATE_def upt17 lanes_list_def upt25 load_lane_def)

lemma load_lane_take: "i < 17 \<Longrightarrow> load_lane bs (off + i * 8) = load_lane (take RATE (drop off bs)) (i * 8)"
  by (simp add: load_lane_def RATE_def drop_take add.commute min_def)

lemma xor_block_take: "xor_block bs off A = xor_block (take RATE (drop off bs)) 0 A"
  unfolding xor_block_def
  by (intro fold_cong refl) (simp add: RATE_def load_lane_take [unfolded RATE_def])

lemma absorb_lanes: "keccak_f1600 (xor_block bs off (lanes_list a)) = lanes_list (spec_absorb (take RATE (drop off bs)) a)"
  by (simp only: xor_block_take [of bs off] xor_block_lanes f1600_lanes spec_absorb_def)

lemma blocks_nonempty: "bs \<noteq> [] \<Longrightarrow> blocks bs = take RATE bs # blocks (drop RATE bs)"
  by (cases bs) (simp_all add: RATE_def drop_Cons')

lemma pad_nonempty [simp]: "pad m \<noteq> []"
  by (simp add: pad_def Let_def)

lemma pad_full: "RATE \<le> length m \<Longrightarrow> take RATE (pad m) = take RATE m \<and> drop RATE (pad m) = pad (drop RATE m)"
  by (simp add: pad_def Let_def le_mod_geq)

lemma pad_short:
  assumes l: "length m < RATE"
  shows "pad m = final_block m"
proof (cases "length m = RATE - 1")
  case True
  then show ?thesis by (simp add: pad_def final_block_def RATE_def list_update_append nth_append)
next
  case False
  define k where "k = RATE - length m - 2"
  have k: "RATE - length m = Suc (Suc k)" "RATE - 1 = length m + Suc k"
    using l False by (simp_all add: k_def RATE_def)
  have "replicate k (0 :: u8) @ [0] = 0 # replicate k 0"
    by (simp add: replicate_append_same)
  then show ?thesis using l k
    by (simp add: pad_def final_block_def Let_def list_update_append nth_append nth_Cons
        flip: replicate_append_same)
qed

lemma absorb_full_blocks:
  "off \<le> length bs \<Longrightarrow>
     (case absorb_full bs off (lanes_list a) of (A, off') \<Rightarrow>
        keccak_f1600 (xor_block (final_block (drop off' bs)) 0 A))
     = lanes_list (fold spec_absorb (blocks (pad (drop off bs))) a)"
proof (induction "length bs - off" arbitrary: off a rule: less_induct)
  case less
  show ?case
  proof (cases "off + RATE \<le> length bs")
    case True
    then have "RATE \<le> length (drop off bs)" by simp
    from pad_full [OF this]
    have "blocks (pad (drop off bs)) = take RATE (drop off bs) # blocks (pad (drop (off + RATE) bs))"
      by (simp add: blocks_nonempty add.commute)
    then show ?thesis using True less.hyps [of "off + RATE"]
      by (subst absorb_full.simps) (simp add: absorb_lanes RATE_def)
  next
    case False
    then have l: "length (drop off bs) < RATE" using less.prems by (simp add: less_diff_conv2)
    then have "length (final_block (drop off bs)) = RATE" by (simp add: final_block_def Let_def)
    then have "blocks (final_block (drop off bs)) = [final_block (drop off bs)]"
      using blocks_nonempty [of "final_block (drop off bs)"] l by (cases "final_block (drop off bs)") auto
    then show ?thesis using False l absorb_lanes [of "final_block (drop off bs)" 0]
      by (subst absorb_full.simps) (simp add: pad_short \<open>length (final_block (drop off bs)) = RATE\<close>)
  qed
qed

text \<open>
  C24. The hash is Keccak-256 for every message: absorbing full blocks in place and then the
  padded tail equals the sponge construction of the standard over the message with the original
  Keccak padding (10*1, no SHA-3 suffix bits), squeezed to 32 bytes.
\<close>

theorem keccak256_is_sponge: "keccak256 m = spec_keccak256 m"
proof -
  have z: "lanes_list (\<lambda>x y. 0) = replicate 25 0"
    by (simp add: lanes_list_def map_replicate_const)
  show ?thesis
    using absorb_full_blocks [of 0 m "\<lambda>x y. 0"]
    by (simp add: keccak256_def spec_keccak256_def Let_def z case_prod_beta)
qed

end
