(* ===== verification/Fp64.thy ===== *)
theory Fp64
  imports Complex_Main "HOL-Library.Log_Nat"
begin

text \<open>
  The C++ type \<open>double\<close>: IEEE 754 binary64 with round to nearest, ties to even. A finite
  value is an exact rational, \<open>rnd\<close> rounds a rational to the nearest representable one (53
  significant bits, smallest exponent -1074), \<open>fl\<close> adds overflow to infinity, and every
  operation is the exact operation followed by \<open>fl\<close>. Comparisons with NaN are false.

  Two abstractions: the two zeros are one value (the code never divides by a zero that can be
  negative and never reads a sign bit), and a conversion to an integer saturates with NaN going to
  0, which is what the instruction of the ARM64 build target does where the C++ standard leaves
  the result undefined.

  The lemmas: rounding is monotone, exact on representable values and on integers up to
  \<open>2 ^ 53\<close>, and has relative error at most \<open>2 ^ -53\<close> in the normal range; every
  operation the bounds of the development need is monotone.
\<close>

definition pow2 :: "int \<Rightarrow> rat" where
  "pow2 e = (if 0 \<le> e then 2 ^ nat e else 1 / 2 ^ nat (- e))"

lemma pow2_powi: "pow2 e = 2 powi e"
  by (simp add: pow2_def power_int_def inverse_eq_divide power_one_over)

lemma pow2_pos [simp]: "0 < pow2 e"
  by (simp add: pow2_def)

lemma pow2_ge0 [simp]: "0 \<le> pow2 e"
  by (simp add: less_imp_le)

lemma abs_pow2 [simp]: "\<bar>pow2 e\<bar> = pow2 e"
  by (simp add: abs_of_pos)

lemma pow2_nz [simp]: "pow2 e \<noteq> 0"
  using pow2_pos [of e] by linarith

lemma pow2_add: "pow2 (a + b) = pow2 a * pow2 b"
  by (simp add: pow2_powi power_int_add)

lemma pow2_0 [simp]: "pow2 0 = 1"
  by (simp add: pow2_def)

lemma pow2_nat: "0 \<le> e \<Longrightarrow> pow2 e = of_int (2 ^ nat e)"
  by (simp add: pow2_def)

lemma pow2_less: "a < b \<Longrightarrow> pow2 a < pow2 b"
proof -
  assume "a < b"
  then have "1 < pow2 (b - a)" by (simp add: pow2_def)
  then have "pow2 a * 1 < pow2 a * pow2 (b - a)" by (intro mult_strict_left_mono) auto
  then show ?thesis by (simp flip: pow2_add)
qed

lemma pow2_less_iff [simp]: "pow2 a < pow2 b \<longleftrightarrow> a < b"
  using pow2_less [of a b] pow2_less [of b a] by (cases a b rule: linorder_cases) auto

lemma pow2_le_iff [simp]: "pow2 a \<le> pow2 b \<longleftrightarrow> a \<le> b"
  by (simp add: linorder_not_less [symmetric] del: linorder_not_less)

definition ilog2 :: "rat \<Rightarrow> int" where
  "ilog2 q =
     (let (n, d) = quotient_of q;
          k = int (floorlog 2 (nat n)) - int (floorlog 2 (nat d))
      in if pow2 k \<le> q then k else k - 1)"

lemma floorlog2_bounds:
  assumes "0 < (n::int)"
  shows "2 ^ (floorlog 2 (nat n) - 1) \<le> (of_int n :: rat)"
    and "(of_int n :: rat) < 2 ^ floorlog 2 (nat n)"
    and "0 < floorlog 2 (nat n)"
proof -
  have "2 ^ (floorlog 2 (nat n) - 1) \<le> nat n \<and> nat n < 2 ^ floorlog 2 (nat n)"
    using assms floorlog_bounds [of "nat n" 2] by simp
  then have "2 ^ (floorlog 2 (nat n) - 1) \<le> n" and "n < 2 ^ floorlog 2 (nat n)"
    using assms by (simp_all add: nat_less_iff le_nat_iff)
  then show "2 ^ (floorlog 2 (nat n) - 1) \<le> (of_int n :: rat)"
    and "(of_int n :: rat) < 2 ^ floorlog 2 (nat n)"
    by (metis of_int_le_iff of_int_numeral of_int_power, metis of_int_less_iff of_int_numeral of_int_power)
  show "0 < floorlog 2 (nat n)"
    using assms floorlog_eq_zero_iff [of 2 "nat n"] by linarith
qed

lemma ilog2_bounds:
  assumes "0 < q"
  shows "pow2 (ilog2 q) \<le> q" and "q < pow2 (ilog2 q + 1)"
proof -
  obtain n d where nd: "quotient_of q = (n, d)" by (cases "quotient_of q")
  have d: "0 < d" using quotient_of_denom_pos [OF nd] .
  have q: "q = of_int n / of_int d" using quotient_of_div [OF nd] .
  have n: "0 < n" using assms d by (simp add: q zero_less_divide_iff)
  define a where "a = floorlog 2 (nat n)"
  define b where "b = floorlog 2 (nat d)"
  define k where "k = int a - int b"
  have A: "pow2 (int a - 1) \<le> of_int n" "of_int n < pow2 (int a)" "0 < a"
    using floorlog2_bounds [OF n] by (auto simp: pow2_def a_def nat_diff_distrib)
  have B: "pow2 (int b - 1) \<le> of_int d" "of_int d < pow2 (int b)" "0 < b"
    using floorlog2_bounds [OF d] by (auto simp: pow2_def b_def nat_diff_distrib)
  have "pow2 (k - 1) * of_int d \<le> pow2 (k - 1) * pow2 (int b)"
    using B by (intro mult_left_mono) auto
  also have "\<dots> = pow2 (int a - 1)" by (simp add: k_def flip: pow2_add)
  also have "\<dots> \<le> of_int n" by (rule A)
  finally have lo: "pow2 (k - 1) \<le> q" using d by (simp add: q pos_le_divide_eq)
  have "of_int n < pow2 (int a)" by (rule A)
  also have "pow2 (int a) = pow2 (k + 1) * pow2 (int b - 1)" by (simp add: k_def flip: pow2_add)
  also have "\<dots> \<le> pow2 (k + 1) * of_int d"
    using B by (intro mult_left_mono) (auto simp: less_imp_le)
  finally have hi: "q < pow2 (k + 1)" using d by (simp add: q pos_divide_less_eq)
  have e: "ilog2 q = (if pow2 k \<le> q then k else k - 1)"
    by (simp add: ilog2_def nd Let_def k_def a_def b_def)
  show "pow2 (ilog2 q) \<le> q" and "q < pow2 (ilog2 q + 1)"
    using lo hi by (auto simp: e)
qed

lemma ilog2_eqI:
  assumes "pow2 k \<le> q" and "q < pow2 (k + 1)"
  shows "ilog2 q = k"
proof -
  have q: "0 < q" using assms(1) pow2_pos [of k] by linarith
  have "pow2 (ilog2 q) < pow2 (k + 1)" and "pow2 k < pow2 (ilog2 q + 1)"
    using ilog2_bounds [OF q] assms by linarith+
  then show ?thesis by simp
qed

lemma ilog2_mono:
  assumes "0 < x" and "x \<le> y"
  shows "ilog2 x \<le> ilog2 y"
proof -
  have "pow2 (ilog2 x) < pow2 (ilog2 y + 1)"
    using ilog2_bounds [of x] ilog2_bounds [of y] assms by linarith
  then show ?thesis by simp
qed

definition rne :: "rat \<Rightarrow> int" where
  "rne x =
     (let f = \<lfloor>x\<rfloor>; r = x - of_int f
      in if r < 1 / 2 then f else if 1 / 2 < r then f + 1
         else if even f then f else f + 1)"

lemma rne_of_int [simp]: "rne (of_int n) = n"
  by (simp add: rne_def)

lemma rne_bounds: "of_int (rne x) - 1 / 2 \<le> x \<and> x \<le> of_int (rne x) + 1 / 2"
proof -
  have "of_int \<lfloor>x\<rfloor> \<le> x" "x < of_int \<lfloor>x\<rfloor> + 1" by linarith+
  then show ?thesis by (simp add: rne_def Let_def) linarith
qed

lemma rne_floor: "rne x = \<lfloor>x\<rfloor> \<or> rne x = \<lfloor>x\<rfloor> + 1"
  by (simp add: rne_def Let_def)

lemma rne_mono: "x \<le> y \<Longrightarrow> rne x \<le> rne y"
proof -
  assume le: "x \<le> y"
  have f: "\<lfloor>x\<rfloor> \<le> \<lfloor>y\<rfloor>" using le by (rule floor_mono)
  show ?thesis
  proof (cases "\<lfloor>x\<rfloor> = \<lfloor>y\<rfloor>")
    case True
    then show ?thesis using le by (auto simp: rne_def Let_def)
  next
    case False
    then have "\<lfloor>x\<rfloor> + 1 \<le> \<lfloor>y\<rfloor>" using f by simp
    then show ?thesis using rne_floor [of x] rne_floor [of y] by auto
  qed
qed

lemma rne_minus: "rne (- x) = - rne x"
proof (cases "x = of_int \<lfloor>x\<rfloor>")
  case True
  then show ?thesis by (metis of_int_minus rne_of_int)
next
  case False
  define f where "f = \<lfloor>x\<rfloor>"
  have fl: "\<lfloor>- x\<rfloor> = - f - 1"
    using False unfolding f_def by (intro floor_unique) (auto, linarith+)
  have "rne (- x) = (let r = 1 - (x - of_int f) in if r < 1 / 2 then - f - 1
      else if 1 / 2 < r then - f else if odd f then - f - 1 else - f)"
    unfolding rne_def fl Let_def by simp
  also have "\<dots> = - rne x"
    unfolding rne_def f_def [symmetric] Let_def by simp
  finally show ?thesis .
qed

definition expo :: "rat \<Rightarrow> int" where
  "expo q = max (- 1074) (ilog2 \<bar>q\<bar> - 52)"

definition rnd :: "rat \<Rightarrow> rat" where
  "rnd q = (if q = 0 then 0 else of_int (rne (q / pow2 (expo q))) * pow2 (expo q))"

lemma rnd_0 [simp]: "rnd 0 = 0"
  by (simp add: rnd_def)

lemma rnd_minus: "rnd (- q) = - rnd q"
proof -
  have "- q / pow2 e = - (q / pow2 e)" for e by simp
  then show ?thesis unfolding rnd_def expo_def by (simp only: rne_minus abs_minus_cancel) simp
qed

lemma expo_mono: "0 < x \<Longrightarrow> x \<le> y \<Longrightarrow> expo x \<le> expo y"
  using ilog2_mono [of x y] by (simp add: expo_def)

lemma rnd_nonneg: "0 \<le> q \<Longrightarrow> 0 \<le> rnd q"
proof -
  assume "0 \<le> q"
  then have "0 \<le> q / pow2 (expo q)" by (intro divide_nonneg_nonneg) auto
  then have "rne 0 \<le> rne (q / pow2 (expo q))" by (rule rne_mono)
  then have "0 \<le> rne (q / pow2 (expo q))" using rne_of_int [of 0] by simp
  then show ?thesis by (simp add: rnd_def)
qed

lemma less_pow2_expo: "q \<noteq> 0 \<Longrightarrow> \<bar>q\<bar> < pow2 (expo q + 53)"
proof -
  assume "q \<noteq> 0"
  then have "\<bar>q\<bar> < pow2 (ilog2 \<bar>q\<bar> + 1)" using ilog2_bounds(2) [of "\<bar>q\<bar>"] by simp
  also have "\<dots> \<le> pow2 (expo q + 53)" by (simp add: expo_def)
  finally show ?thesis .
qed

lemma rnd_le_pow2:
  assumes "0 < q"
  shows "rnd q \<le> pow2 (expo q + 53)"
proof -
  have "q / pow2 (expo q) \<le> of_int (2 ^ 53)"
    using less_pow2_expo [of q] assms pow2_add [of "expo q" 53]
    by (simp add: pos_divide_le_eq pow2_def [of 53] mult.commute)
  then have "rne (q / pow2 (expo q)) \<le> 2 ^ 53"
    using rne_mono rne_of_int [of "2 ^ 53"] by metis
  then have "(of_int (rne (q / pow2 (expo q))) :: rat) \<le> of_int (2 ^ 53)"
    by (simp only: of_int_le_iff)
  then have "of_int (rne (q / pow2 (expo q))) * pow2 (expo q) \<le> of_int (2 ^ 53) * pow2 (expo q)"
    by (intro mult_right_mono) (auto simp: less_imp_le)
  also have "\<dots> = pow2 (expo q + 53)"
    by (simp add: pow2_add pow2_def [of 53] mult.commute)
  finally show ?thesis using assms by (simp add: rnd_def)
qed

lemma rnd_ge_pow2:
  assumes "0 \<le> k" and "pow2 (expo q + k) \<le> q"
  shows "pow2 (expo q + k) \<le> rnd q"
proof -
  have q: "0 < q" using assms pow2_pos [of "expo q + k"] by linarith
  have "of_int (2 ^ nat k) \<le> q / pow2 (expo q)"
    using assms by (simp add: pos_le_divide_eq pow2_add pow2_def [of k] mult.commute)
  then have "2 ^ nat k \<le> rne (q / pow2 (expo q))"
    using rne_mono rne_of_int [of "2 ^ nat k"] by metis
  then have "(of_int (2 ^ nat k) :: rat) \<le> of_int (rne (q / pow2 (expo q)))"
    by (simp only: of_int_le_iff)
  then have "of_int (2 ^ nat k) * pow2 (expo q) \<le> of_int (rne (q / pow2 (expo q))) * pow2 (expo q)"
    by (intro mult_right_mono) (auto simp: less_imp_le)
  then show ?thesis using q assms(1)
    by (simp add: rnd_def pow2_add pow2_def [of k] mult.commute)
qed

lemma rnd_mono_pos:
  assumes x: "0 < x" and le: "x \<le> y"
  shows "rnd x \<le> rnd y"
proof (cases "expo x = expo y")
  case True
  have "rne (x / pow2 (expo x)) \<le> rne (y / pow2 (expo x))"
    using le by (intro rne_mono) (simp add: divide_right_mono less_imp_le)
  then show ?thesis using x le True
    by (auto simp: rnd_def mult_right_mono less_imp_le)
next
  case False
  then have lt: "expo x < expo y" using expo_mono [OF x le] by simp
  have y: "0 < y" using x le by linarith
  from lt have ey: "expo y = ilog2 y - 52" using y by (auto simp: expo_def)
  have "rnd x \<le> pow2 (expo x + 53)" by (rule rnd_le_pow2 [OF x])
  also have "\<dots> \<le> pow2 (expo y + 52)" using lt by simp
  also have "\<dots> \<le> rnd y"
    using ilog2_bounds(1) [OF y] by (intro rnd_ge_pow2) (auto simp: ey)
  finally show ?thesis .
qed

lemma rnd_mono: "x \<le> y \<Longrightarrow> rnd x \<le> rnd y"
proof -
  assume le: "x \<le> y"
  consider "0 < x" | "x \<le> 0" "0 \<le> y" | "y < 0" by linarith
  then show ?thesis
  proof cases
    case 1
    then show ?thesis using le by (rule rnd_mono_pos)
  next
    case 2
    then show ?thesis using rnd_nonneg [of y] rnd_nonneg [of "- x"] by (simp add: rnd_minus)
  next
    case 3
    then show ?thesis using rnd_mono_pos [of "- y" "- x"] le by (simp add: rnd_minus)
  qed
qed

definition representable :: "rat \<Rightarrow> bool" where
  "representable q \<longleftrightarrow> (\<exists>m e. \<bar>m\<bar> < 2 ^ 53 \<and> - 1074 \<le> e \<and> q = of_int m * pow2 e)"

lemma rnd_exact:
  assumes m: "\<bar>m\<bar> < 2 ^ 53" and e: "- 1074 \<le> e"
  shows "rnd (of_int m * pow2 e) = of_int m * pow2 e"
proof (cases "m = 0")
  case False
  let ?q = "of_int m * pow2 e :: rat"
  have abs: "\<bar>?q\<bar> = of_int \<bar>m\<bar> * pow2 e" by (simp add: abs_mult)
  have "(of_int \<bar>m\<bar> :: rat) < of_int (2 ^ 53)" using m by (simp only: of_int_less_iff)
  then have "\<bar>?q\<bar> < of_int (2 ^ 53) * pow2 e"
    unfolding abs by (rule mult_strict_right_mono) simp
  then have "\<bar>?q\<bar> < pow2 (e + 53)"
    by (simp only: pow2_add pow2_nat [of 53] mult.commute) simp
  moreover have "pow2 (ilog2 \<bar>?q\<bar>) \<le> \<bar>?q\<bar>"
    using False by (intro ilog2_bounds(1)) simp
  ultimately have "pow2 (ilog2 \<bar>?q\<bar>) < pow2 (e + 53)" by linarith
  then have le: "expo ?q \<le> e" using e by (simp add: expo_def)
  have split: "pow2 e = pow2 (e - expo ?q) * pow2 (expo ?q)"
    by (simp flip: pow2_add)
  have "?q / pow2 (expo ?q) = of_int m * pow2 (e - expo ?q)"
    by (subst (1) split) simp
  also have "\<dots> = of_int (m * 2 ^ nat (e - expo ?q))"
    using le by (simp add: pow2_nat)
  finally have "rnd ?q = of_int (m * 2 ^ nat (e - expo ?q)) * pow2 (expo ?q)"
    using False unfolding rnd_def by (simp only: rne_of_int) simp
  also have "\<dots> = of_int m * (pow2 (e - expo ?q) * pow2 (expo ?q))"
    using le by (simp add: pow2_nat)
  also have "\<dots> = ?q" by (simp flip: pow2_add)
  finally show ?thesis .
qed simp

lemma rnd_representable: "representable q \<Longrightarrow> rnd q = q"
  by (auto simp: representable_def rnd_exact)

lemma representable_rnd: "representable (rnd q)"
proof (cases "q = 0")
  case True
  then show ?thesis by (auto simp: representable_def intro!: exI [of _ 0])
next
  case False
  define M where "M = rne (q / pow2 (expo q))"
  have r: "rnd q = of_int M * pow2 (expo q)" using False by (simp add: rnd_def M_def)
  have e: "- 1074 \<le> expo q" by (simp add: expo_def)
  have b: "\<bar>q\<bar> / pow2 (expo q) \<le> of_int (2 ^ 53)"
    using less_pow2_expo [OF False] pow2_add [of "expo q" 53]
    by (simp add: pos_divide_le_eq pow2_def [of 53] mult.commute)
  have "rne (\<bar>q\<bar> / pow2 (expo q)) \<le> rne (of_int (2 ^ 53))"
    using b by (rule rne_mono)
  moreover have "rne (\<bar>q\<bar> / pow2 (expo q)) = M \<or> rne (\<bar>q\<bar> / pow2 (expo q)) = - M"
    using rne_minus [of "q / pow2 (expo q)"] unfolding M_def by (cases "0 \<le> q") simp_all
  moreover have "rne (- (\<bar>q\<bar> / pow2 (expo q))) \<le> rne 0" by (rule rne_mono) simp
  ultimately have M: "\<bar>M\<bar> \<le> 2 ^ 53"
    using rne_of_int [of "2 ^ 53"] rne_of_int [of 0] by (auto simp: rne_minus simp del: rne_of_int)
  show ?thesis
  proof (cases "\<bar>M\<bar> = 2 ^ 53")
    case True
    then have "M = 2 ^ 53 \<or> M = - (2 ^ 53)" by linarith
    then have "rnd q = of_int (M div 2) * pow2 (expo q + 1)"
      using r by (auto simp: pow2_add pow2_def [of 1])
    moreover have "\<bar>M div 2\<bar> < 2 ^ 53" using \<open>M = 2 ^ 53 \<or> M = - (2 ^ 53)\<close> by auto
    ultimately show ?thesis using e unfolding representable_def
      by (intro exI [of _ "M div 2"] exI [of _ "expo q + 1"]) auto
  next
    case False
    then show ?thesis using r e M unfolding representable_def
      by (intro exI [of _ M] exI [of _ "expo q"]) auto
  qed
qed

lemma rnd_rnd [simp]: "rnd (rnd q) = rnd q"
  by (rule rnd_representable [OF representable_rnd])

lemma rnd_of_int: "\<bar>n\<bar> \<le> 2 ^ 53 \<Longrightarrow> rnd (of_int n) = of_int n"
proof -
  assume n: "\<bar>n\<bar> \<le> 2 ^ 53"
  show ?thesis
  proof (cases "\<bar>n\<bar> = 2 ^ 53")
    case True
    then have "n = 2 ^ 53 \<or> n = - (2 ^ 53)" by linarith
    then show ?thesis
      using rnd_exact [of "n div 2" 1] by (auto simp: pow2_def)
  next
    case False
    then show ?thesis using n rnd_exact [of n 0] by simp
  qed
qed

datatype f64 = Fin rat | PInf | NInf | NaN

definition f64_top :: rat where
  "f64_top = 2 ^ 1024"

lemma f64_top_pos [simp]: "0 < f64_top"
  by (simp add: f64_top_def)

definition fl :: "rat \<Rightarrow> f64" where
  "fl q = (if f64_top \<le> rnd q then PInf else if rnd q \<le> - f64_top then NInf else Fin (rnd q))"

fun fneg :: "f64 \<Rightarrow> f64" where
  "fneg (Fin a) = Fin (- a)"
| "fneg PInf = NInf"
| "fneg NInf = PInf"
| "fneg NaN = NaN"

fun fabs :: "f64 \<Rightarrow> f64" where
  "fabs (Fin a) = Fin \<bar>a\<bar>"
| "fabs NaN = NaN"
| "fabs _ = PInf"

fun fadd :: "f64 \<Rightarrow> f64 \<Rightarrow> f64" where
  "fadd (Fin a) (Fin b) = fl (a + b)"
| "fadd NaN _ = NaN"
| "fadd _ NaN = NaN"
| "fadd PInf NInf = NaN"
| "fadd NInf PInf = NaN"
| "fadd PInf _ = PInf"
| "fadd NInf _ = NInf"
| "fadd (Fin _) y = y"

definition fsub :: "f64 \<Rightarrow> f64 \<Rightarrow> f64" where
  "fsub x y = fadd x (fneg y)"

definition signed_inf :: "rat \<Rightarrow> f64" where
  "signed_inf s = (if s = 0 then NaN else if 0 < s then PInf else NInf)"

fun fsign :: "f64 \<Rightarrow> rat" where
  "fsign (Fin a) = sgn a"
| "fsign PInf = 1"
| "fsign NInf = - 1"
| "fsign NaN = 0"

fun fmul :: "f64 \<Rightarrow> f64 \<Rightarrow> f64" where
  "fmul (Fin a) (Fin b) = fl (a * b)"
| "fmul x y = signed_inf (fsign x * fsign y)"

fun fdiv :: "f64 \<Rightarrow> f64 \<Rightarrow> f64" where
  "fdiv (Fin a) (Fin b) = (if b = 0 then signed_inf (sgn a) else fl (a / b))"
| "fdiv NaN _ = NaN"
| "fdiv _ NaN = NaN"
| "fdiv (Fin _) _ = Fin 0"
| "fdiv x (Fin b) = signed_inf (fsign x * (if b < 0 then - 1 else 1))"
| "fdiv _ _ = NaN"

fun fle :: "f64 \<Rightarrow> f64 \<Rightarrow> bool" where
  "fle NaN _ = False"
| "fle _ NaN = False"
| "fle (Fin a) (Fin b) = (a \<le> b)"
| "fle NInf _ = True"
| "fle _ PInf = True"
| "fle _ _ = False"

fun flt :: "f64 \<Rightarrow> f64 \<Rightarrow> bool" where
  "flt NaN _ = False"
| "flt _ NaN = False"
| "flt (Fin a) (Fin b) = (a < b)"
| "flt NInf NInf = False"
| "flt NInf _ = True"
| "flt PInf _ = False"
| "flt _ PInf = True"
| "flt _ _ = False"

definition feq :: "f64 \<Rightarrow> f64 \<Rightarrow> bool" where
  "feq x y \<longleftrightarrow> x = y \<and> x \<noteq> NaN"

definition fmin :: "f64 \<Rightarrow> f64 \<Rightarrow> f64" where
  "fmin a b = (if flt b a then b else a)"

definition fmax :: "f64 \<Rightarrow> f64 \<Rightarrow> f64" where
  "fmax a b = (if flt a b then b else a)"

definition fclamp :: "f64 \<Rightarrow> f64 \<Rightarrow> f64 \<Rightarrow> f64" where
  "fclamp v lo hi = (if flt v lo then lo else if flt hi v then hi else v)"

definition round_away :: "rat \<Rightarrow> int" where
  "round_away q = (if 0 \<le> q then \<lfloor>q + 1 / 2\<rfloor> else - \<lfloor>- q + 1 / 2\<rfloor>)"

definition trunc :: "rat \<Rightarrow> int" where
  "trunc q = (if 0 \<le> q then \<lfloor>q\<rfloor> else - \<lfloor>- q\<rfloor>)"

fun fround :: "f64 \<Rightarrow> f64" where
  "fround (Fin a) = Fin (of_int (round_away a))"
| "fround x = x"

fun ffloor :: "f64 \<Rightarrow> f64" where
  "ffloor (Fin a) = Fin (of_int \<lfloor>a\<rfloor>)"
| "ffloor x = x"

definition saturate :: "int \<Rightarrow> int \<Rightarrow> int \<Rightarrow> int" where
  "saturate lo hi n = max lo (min hi n)"

fun cast_int :: "int \<Rightarrow> int \<Rightarrow> f64 \<Rightarrow> int" where
  "cast_int lo hi (Fin a) = saturate lo hi (trunc a)"
| "cast_int lo hi PInf = hi"
| "cast_int lo hi NInf = lo"
| "cast_int lo hi NaN = 0"

definition f64_of_int :: "int \<Rightarrow> f64" where
  "f64_of_int n = fl (of_int n)"

definition lit :: "rat \<Rightarrow> f64" where
  "lit q = fl q"

lemma fl_mono: "x \<le> y \<Longrightarrow> fle (fl x) (fl y)"
  using rnd_mono [of x y] f64_top_pos by (auto simp: fl_def)

lemma fl_not_NaN [simp]: "fl q \<noteq> NaN" "NaN \<noteq> fl q"
  by (auto simp: fl_def)

lemma fle_PInf [simp]: "fle x PInf \<longleftrightarrow> x \<noteq> NaN"
  by (cases x) auto

lemma NInf_fle [simp]: "fle NInf x \<longleftrightarrow> x \<noteq> NaN"
  by (cases x) auto

lemma fle_refl [simp]: "x \<noteq> NaN \<Longrightarrow> fle x x"
  by (cases x) auto

lemma fle_trans [trans]: "fle x y \<Longrightarrow> fle y z \<Longrightarrow> fle x z"
  by (cases x; cases y; cases z) auto

lemma fle_flt_trans [trans]: "fle x y \<Longrightarrow> flt y z \<Longrightarrow> flt x z"
  by (cases x; cases y; cases z) auto

lemma flt_fle_trans [trans]: "flt x y \<Longrightarrow> fle y z \<Longrightarrow> flt x z"
  by (cases x; cases y; cases z) auto

lemma fle_antisym: "fle x y \<Longrightarrow> fle y x \<Longrightarrow> x = y"
  by (cases x; cases y) auto

lemma flt_imp_fle: "flt x y \<Longrightarrow> fle x y"
  by (cases x; cases y) auto

lemma not_flt_iff: "x \<noteq> NaN \<Longrightarrow> y \<noteq> NaN \<Longrightarrow> \<not> flt x y \<longleftrightarrow> fle y x"
  by (cases x; cases y) auto

lemma not_fle_iff: "x \<noteq> NaN \<Longrightarrow> y \<noteq> NaN \<Longrightarrow> \<not> fle x y \<longleftrightarrow> flt y x"
  by (cases x; cases y) auto

lemma fle_not_flt: "fle x y \<Longrightarrow> \<not> flt y x"
  by (cases x; cases y) auto

lemma flt_irrefl [simp]: "\<not> flt x x"
  by (cases x) auto

lemma flt_NaN [simp]: "\<not> flt x NaN" "\<not> fle x NaN"
  by (cases x; simp)+

lemma fle_NaN_D: "fle x y \<Longrightarrow> x \<noteq> NaN \<and> y \<noteq> NaN"
  by auto

lemma fl_representable: "representable q \<Longrightarrow> \<bar>q\<bar> < f64_top \<Longrightarrow> fl q = Fin q"
  by (auto simp: fl_def rnd_representable abs_less_iff)

lemma rnd_abs: "\<bar>rnd q\<bar> = rnd \<bar>q\<bar>"
  using rnd_nonneg [of q] rnd_nonneg [of "- q"] by (cases "0 \<le> q") (auto simp: rnd_minus)

lemma fl_small: "\<bar>q\<bar> \<le> pow2 1023 \<Longrightarrow> fl q = Fin (rnd q)"
proof -
  assume q: "\<bar>q\<bar> \<le> pow2 1023"
  have "rnd \<bar>q\<bar> \<le> rnd (pow2 1023)" using q by (rule rnd_mono)
  also have "rnd (pow2 1023) = pow2 1023" using rnd_exact [of 1 1023] by simp
  finally have "\<bar>rnd q\<bar> \<le> pow2 1023" by (simp only: rnd_abs)
  also have "pow2 1023 < pow2 1024" by (simp only: pow2_less_iff)
  also have "pow2 1024 = f64_top" by (simp only: f64_top_def pow2_nat) simp
  finally show ?thesis by (auto simp: fl_def abs_less_iff)
qed

lemma fl_of_int: "\<bar>n\<bar> \<le> 2 ^ 53 \<Longrightarrow> fl (of_int n) = Fin (of_int n)"
proof -
  assume n: "\<bar>n\<bar> \<le> 2 ^ 53"
  then have "(of_int \<bar>n\<bar> :: rat) \<le> of_int (2 ^ 53)" by (simp only: of_int_le_iff)
  also have "\<dots> = pow2 53" by (simp only: pow2_nat) simp
  also have "\<dots> \<le> pow2 1023" by (simp only: pow2_le_iff)
  finally have "\<bar>of_int n :: rat\<bar> \<le> pow2 1023" by simp
  then show ?thesis using rnd_of_int [OF n] by (simp add: fl_small)
qed

lemma fl_code [code]:
  "fl q = (if ilog2 \<bar>q\<bar> < 1023 then Fin (rnd q)
     else if f64_top \<le> rnd q then PInf else if rnd q \<le> - f64_top then NInf else Fin (rnd q))"
proof (cases "ilog2 \<bar>q\<bar> < 1023")
  case True
  have "\<bar>q\<bar> \<le> pow2 1023"
  proof (cases "q = 0")
    case False
    then have "\<bar>q\<bar> < pow2 (ilog2 \<bar>q\<bar> + 1)" by (intro ilog2_bounds(2)) simp
    also have "\<dots> \<le> pow2 1023" using True by (simp only: pow2_le_iff)
    finally show ?thesis by simp
  qed simp
  then show ?thesis using True by (simp only: fl_small if_True)
next
  case False
  then show ?thesis by (simp only: fl_def if_False)
qed

lemma fneg_fl: "fneg (fl q) = fl (- q)"
  using f64_top_pos by (auto simp: fl_def rnd_minus simp del: f64_top_pos)

lemma fadd_fle_mono: "fle x y \<Longrightarrow> fle (fadd x (Fin c)) (fadd y (Fin c))"
  by (cases x; cases y) (auto intro: fl_mono)

lemma fmul_fle_mono: "fle x y \<Longrightarrow> 0 < c \<Longrightarrow> fle (fmul x (Fin c)) (fmul y (Fin c))"
  by (cases x; cases y) (auto intro!: fl_mono simp: signed_inf_def sgn_if mult_right_mono)

lemma fmul_commute: "fmul x y = fmul y x"
  by (cases x; cases y) (auto simp: mult.commute)

lemma fdiv_fle_mono: "fle x y \<Longrightarrow> 0 < c \<Longrightarrow> fle (fdiv x (Fin c)) (fdiv y (Fin c))"
  by (cases x; cases y)
    (auto intro!: fl_mono simp: signed_inf_def sgn_if divide_right_mono)

lemma fneg_fle: "fle (fneg x) (fneg y) \<longleftrightarrow> fle y x"
  by (cases x; cases y) auto

lemma round_away_mono: "x \<le> y \<Longrightarrow> round_away x \<le> round_away y"
proof -
  assume le: "x \<le> y"
  consider "0 \<le> x" | "x < 0" "0 \<le> y" | "y < 0" by linarith
  then show ?thesis
  proof cases
    case 2
    have "0 \<le> \<lfloor>- x + 1 / 2\<rfloor>" "0 \<le> \<lfloor>y + 1 / 2\<rfloor>" using 2 by (simp_all)
    then have "- \<lfloor>- x + 1 / 2\<rfloor> \<le> \<lfloor>y + 1 / 2\<rfloor>" by linarith
    then show ?thesis using 2 by (simp only: round_away_def if_True if_False linorder_not_le [symmetric])
  qed (use le in \<open>auto simp: round_away_def intro!: floor_mono\<close>)
qed

lemma round_away_of_int [simp]: "round_away (of_int n) = n"
proof -
  have "\<lfloor>of_int k + 1 / 2 :: rat\<rfloor> = k" for k by linarith
  from this [of n] this [of "- n"] show ?thesis by (simp add: round_away_def)
qed

lemma trunc_of_int [simp]: "trunc (of_int n) = n"
  by (simp add: trunc_def flip: of_int_minus)

lemma trunc_mono: "x \<le> y \<Longrightarrow> trunc x \<le> trunc y"
proof -
  assume le: "x \<le> y"
  consider "0 \<le> x" | "x < 0" "0 \<le> y" | "y < 0" by linarith
  then show ?thesis
  proof cases
    case 2
    have "0 \<le> \<lfloor>- x\<rfloor>" "0 \<le> \<lfloor>y\<rfloor>" using 2 by simp_all
    then have "- \<lfloor>- x\<rfloor> \<le> \<lfloor>y\<rfloor>" by linarith
    then show ?thesis using 2 by (simp only: trunc_def if_True if_False linorder_not_le [symmetric])
  qed (use le in \<open>auto simp: trunc_def intro!: floor_mono\<close>)
qed

lemma fround_mono: "fle x y \<Longrightarrow> fle (fround x) (fround y)"
  by (cases x; cases y) (auto intro: round_away_mono)

lemma cast_int_bounds: "lo \<le> 0 \<Longrightarrow> 0 \<le> hi \<Longrightarrow> lo \<le> cast_int lo hi x \<and> cast_int lo hi x \<le> hi"
  by (cases x) (auto simp: saturate_def)

lemma cast_int_mono: "lo \<le> hi \<Longrightarrow> fle x y \<Longrightarrow> cast_int lo hi x \<le> cast_int lo hi y"
proof -
  assume "lo \<le> hi" "fle x y"
  then show ?thesis
    using trunc_mono by (cases x; cases y) (fastforce simp: saturate_def max_def min_def)+
qed

lemma cast_int_of_int: "lo \<le> n \<Longrightarrow> n \<le> hi \<Longrightarrow> cast_int lo hi (Fin (of_int n)) = n"
  by (simp add: saturate_def)

lemma fclamp_bounds:
  "v \<noteq> NaN \<Longrightarrow> fle lo hi \<Longrightarrow> fle lo (fclamp v lo hi) \<and> fle (fclamp v lo hi) hi"
  by (auto simp: fclamp_def dest: fle_NaN_D simp: not_flt_iff)

lemma fclamp_NaN: "fclamp NaN lo hi = NaN"
  by (simp add: fclamp_def)

lemma rnd_error: "\<bar>rnd q - q\<bar> \<le> pow2 (expo q - 1)"
proof (cases "q = 0")
  case False
  let ?x = "q / pow2 (expo q)"
  have "\<bar>of_int (rne ?x) - ?x\<bar> \<le> 1 / 2" using rne_bounds [of ?x] by (intro abs_leI) linarith+
  then have "\<bar>of_int (rne ?x) - ?x\<bar> * pow2 (expo q) \<le> 1 / 2 * pow2 (expo q)"
    by (intro mult_right_mono) auto
  also have "1 / 2 * pow2 (expo q) = pow2 (expo q - 1)"
    using pow2_add [of "expo q" "- 1"] by (simp add: pow2_def [of "- 1"])
  also have "\<bar>of_int (rne ?x) - ?x\<bar> * pow2 (expo q) = \<bar>rnd q - q\<bar>"
  proof -
    have "\<bar>of_int (rne ?x) - ?x\<bar> * pow2 (expo q) = \<bar>(of_int (rne ?x) - ?x) * pow2 (expo q)\<bar>"
      by (simp only: abs_mult abs_pow2)
    also have "(of_int (rne ?x) - ?x) * pow2 (expo q) = rnd q - q"
      using False by (simp add: rnd_def left_diff_distrib)
    finally show ?thesis .
  qed
  finally show ?thesis .
qed simp

lemma rnd_rel_error:
  assumes "pow2 (- 1022) \<le> \<bar>q\<bar>"
  shows "\<bar>rnd q - q\<bar> \<le> \<bar>q\<bar> * pow2 (- 53)"
proof -
  have q: "0 < \<bar>q\<bar>" using assms pow2_pos [of "- 1022"] by linarith
  have "pow2 (- 1022) < pow2 (ilog2 \<bar>q\<bar> + 1)" using assms ilog2_bounds(2) [OF q] by linarith
  then have "expo q - 1 = ilog2 \<bar>q\<bar> + (- 53)" by (simp add: expo_def)
  then have "pow2 (expo q - 1) = pow2 (ilog2 \<bar>q\<bar>) * pow2 (- 53)" by (simp only: pow2_add)
  also have "\<dots> \<le> \<bar>q\<bar> * pow2 (- 53)" using ilog2_bounds(1) [OF q] by (intro mult_right_mono) auto
  finally show ?thesis using rnd_error [of q] by linarith
qed

lemma fl_numeral: "\<bar>numeral k :: int\<bar> \<le> 2 ^ 53 \<Longrightarrow> fl (numeral k) = Fin (numeral k)"
  using fl_of_int [of "numeral k"] by simp

lemma fl_0 [simp]: "fl 0 = Fin 0"
  using fl_of_int [of 0] by simp

lemma fl_1 [simp]: "fl 1 = Fin 1"
  using fl_of_int [of 1] by simp

lemma round_away_numeral [simp]: "round_away (numeral k) = numeral k" "round_away 0 = 0" "round_away 1 = 1"
  using round_away_of_int [of "numeral k"] round_away_of_int [of 0] round_away_of_int [of 1] by simp_all

lemma trunc_numeral [simp]: "trunc (numeral k) = numeral k" "trunc 0 = 0" "trunc 1 = 1"
  using trunc_of_int [of "numeral k"] trunc_of_int [of 0] trunc_of_int [of 1] by simp_all

lemma lit_numeral: "\<bar>numeral k :: int\<bar> \<le> 2 ^ 53 \<Longrightarrow> lit (numeral k) = Fin (numeral k)"
  by (simp add: lit_def fl_numeral)


lemma f64_of_int_mono: "m \<le> n \<Longrightarrow> fle (f64_of_int m) (f64_of_int n)"
  unfolding f64_of_int_def by (rule fl_mono) simp

lemma fmin_le1: "a \<noteq> NaN \<Longrightarrow> b \<noteq> NaN \<Longrightarrow> fle (fmin a b) a"
  by (auto simp: fmin_def flt_imp_fle)

lemma fmin_le2: "a \<noteq> NaN \<Longrightarrow> b \<noteq> NaN \<Longrightarrow> fle (fmin a b) b"
  by (auto simp: fmin_def not_flt_iff)

lemma fmin_ge: "fle c a \<Longrightarrow> fle c b \<Longrightarrow> fle c (fmin a b)"
  by (simp add: fmin_def)


lemma rne_eqI: "\<bar>x - of_int n\<bar> < 1 / 2 \<Longrightarrow> rne x = n"
proof -
  assume "\<bar>x - of_int n\<bar> < 1 / 2"
  moreover have "of_int (rne x) - 1 / 2 \<le> x" "x \<le> of_int (rne x) + 1 / 2"
    using rne_bounds [of x] by auto
  ultimately have "of_int (rne x) < (of_int n + 1 :: rat)" "of_int n - 1 < (of_int (rne x) :: rat)"
    by linarith+
  then show ?thesis by linarith
qed

text \<open>
  Evaluation of one rounding: the binade \<open>k\<close> and the significand \<open>m\<close> are given, the side
  conditions are closed arithmetic.
\<close>

lemma fl_eqI:
  assumes "pow2 k \<le> q" and "q < pow2 (k + 1)" and "- 1022 \<le> k" and "k < 1000"
    and "\<bar>q / pow2 (k - 52) - of_int m\<bar> < 1 / 2"
  shows "fl q = Fin (of_int m * pow2 (k - 52))"
proof -
  have q: "0 < q" using assms(1) pow2_pos [of k] by linarith
  have "q < pow2 1023"
    using assms(2,4) pow2_le_iff [of "k + 1" 1023] by linarith
  then have "fl q = Fin (rnd q)" using q by (intro fl_small) simp
  moreover have "expo q = k - 52"
    using ilog2_eqI [OF assms(1,2)] q assms(3) by (simp add: expo_def)
  moreover have "rne (q / pow2 (k - 52)) = m" using assms(5) by (rule rne_eqI)
  ultimately show ?thesis using q by (simp add: rnd_def)
qed

lemma lit_half: "lit (1 / 2) = Fin (1 / 2)"
proof -
  have "representable (1 / 2)"
    unfolding representable_def by (intro exI [of _ 1] exI [of _ "- 1"]) (simp add: pow2_def)
  then show ?thesis by (simp add: lit_def fl_representable f64_top_def)
qed

end
