(* ===== verification/Amount_Type.thy ===== *)
theory Amount_Type
  imports Prelude Fp64
begin

text \<open>
  The monetary type of \<open>src/types/amount.hpp\<close>: a signed 64-bit count of micro-USDC. Arithmetic
  is two's complement; signed overflow is undefined in C++, so the value lemmas ask for the exact
  result to be in range. The comparison operators are the \<open>linorder\<close> instance.
\<close>

datatype amount = Amount (units: i64)

definition POLY_SCALE :: int where "POLY_SCALE = 1000000"
definition BINANCE_SCALE :: int where "BINANCE_SCALE = 100000000"

abbreviation raw :: "amount \<Rightarrow> int" where
  "raw a \<equiv> sint (units a)"

definition from_poly_units :: "i64 \<Rightarrow> amount" where
  "from_poly_units u = Amount u"

definition from_binance_units :: "i64 \<Rightarrow> amount" where
  "from_binance_units u = Amount (word_of_int (sint u sdiv 100))"

definition i64_of_f64 :: "f64 \<Rightarrow> i64" where
  "i64_of_f64 d = word_of_int (cast_int i64_min i64_max d)"

definition from_double :: "f64 \<Rightarrow> amount" where
  "from_double d = Amount (i64_of_f64 (fround (fmul d (f64_of_int POLY_SCALE))))"

definition amount_zero :: amount where
  "amount_zero = Amount 0"

definition poly_units :: "amount \<Rightarrow> i64" where
  "poly_units a = units a"

definition binance_units :: "amount \<Rightarrow> i64" where
  "binance_units a = units a * 100"

definition to_double :: "amount \<Rightarrow> f64" where
  "to_double a = fdiv (f64_of_int (raw a)) (f64_of_int POLY_SCALE)"

definition is_zero :: "amount \<Rightarrow> bool" where
  "is_zero a \<longleftrightarrow> units a = 0"

definition is_positive :: "amount \<Rightarrow> bool" where
  "is_positive a \<longleftrightarrow> 0 < raw a"

definition is_negative :: "amount \<Rightarrow> bool" where
  "is_negative a \<longleftrightarrow> raw a < 0"

definition amount_add :: "amount \<Rightarrow> amount \<Rightarrow> amount" where
  "amount_add a b = Amount (units a + units b)"

definition amount_sub :: "amount \<Rightarrow> amount \<Rightarrow> amount" where
  "amount_sub a b = Amount (units a - units b)"

definition amount_neg :: "amount \<Rightarrow> amount" where
  "amount_neg a = Amount (- units a)"

definition amount_scale :: "amount \<Rightarrow> i64 \<Rightarrow> amount" where
  "amount_scale a f = Amount (units a * f)"

datatype amount_error = DivideByZero

definition amount_div :: "amount \<Rightarrow> i64 \<Rightarrow> amount_error + amount" where
  "amount_div a d =
     (if d = 0 then Inl DivideByZero else Inr (Amount (word_of_int (raw a sdiv sint d))))"

definition amount_abs :: "amount \<Rightarrow> amount" where
  "amount_abs a = Amount (if raw a < 0 then - units a else units a)"

definition amount_to_string :: "amount \<Rightarrow> string" where
  "amount_to_string a =
     (let whole = raw a sdiv POLY_SCALE;
          frac0 = raw a smod POLY_SCALE;
          frac = (if frac0 < 0 then - frac0 else frac0)
      in show_int whole @ ''.'' @ pad_zero 6 (show_int frac))"

instantiation amount :: linorder
begin

definition less_eq_amount :: "amount \<Rightarrow> amount \<Rightarrow> bool" where
  "less_eq_amount a b \<longleftrightarrow> raw a \<le> raw b"

definition less_amount :: "amount \<Rightarrow> amount \<Rightarrow> bool" where
  "less_amount a b \<longleftrightarrow> raw a < raw b"

instance
proof
  fix a b c :: amount
  show "a < b \<longleftrightarrow> a \<le> b \<and> \<not> b \<le> a"
    by (auto simp: less_amount_def less_eq_amount_def)
  show "a \<le> a"
    by (simp add: less_eq_amount_def)
  show "a \<le> b \<Longrightarrow> b \<le> c \<Longrightarrow> a \<le> c"
    by (simp add: less_eq_amount_def)
  show "a \<le> b \<Longrightarrow> b \<le> a \<Longrightarrow> a = b"
    by (cases a; cases b) (auto simp: less_eq_amount_def sint_inject_i64 dest: order_antisym)
  show "a \<le> b \<or> b \<le> a"
    by (auto simp: less_eq_amount_def)
qed

end

lemma f64_scale [num_simps, simp]: "f64_of_int POLY_SCALE = Fin 1000000"
  using fl_of_int [of 1000000] by (simp add: f64_of_int_def POLY_SCALE_def)

lemma raw_zero [simp]: "raw amount_zero = 0"
  by (simp add: amount_zero_def)

lemma raw_from_double:
  "raw (from_double d) = cast_int i64_min i64_max (fround (fmul d (Fin 1000000)))"
proof -
  have "i64_range (cast_int i64_min i64_max x)" for x
    using cast_int_bounds [of i64_min i64_max x]
    by (simp add: i64_range_def i64_min_def i64_max_def)
  then show ?thesis by (simp add: from_double_def i64_of_f64_def sint_of_int_i64)
qed

lemma from_double_mono: "fle x y \<Longrightarrow> from_double x \<le> from_double y"
  unfolding less_eq_amount_def raw_from_double
  by (intro cast_int_mono fround_mono fmul_fle_mono) (auto simp: i64_min_def i64_max_def)

lemma from_double_NaN: "from_double NaN = amount_zero"
  by (simp add: from_double_def i64_of_f64_def signed_inf_def amount_zero_def)

lemma rnd_scale_error:
  assumes "\<bar>u\<bar> \<le> 2 ^ 50" and "u \<noteq> 0"
  shows "\<bar>rnd (rnd (of_int u / 1000000) * 1000000) - of_int u\<bar> < 1 / 2"
proof -
  let ?u = "of_int u :: rat" and ?e = "1 / 2 ^ 53 :: rat"
  define x where "x = ?u / 1000000"
  define y where "y = rnd x"
  define z where "z = y * 1000000"
  have e: "pow2 (- 53) = ?e" by (simp add: pow2_def)
  have t: "pow2 (- 1022) \<le> pow2 (- 30)" by (simp only: pow2_le_iff)
  have t': "pow2 (- 30) = 1 / 1073741824" by (simp add: pow2_def)
  have "1 \<le> \<bar>u\<bar>" using assms(2) by linarith
  then have u1: "1 \<le> \<bar>?u\<bar>" by (metis of_int_1_le_iff of_int_abs)
  have "(of_int \<bar>u\<bar> :: rat) \<le> of_int (2 ^ 50)" using assms(1) by (simp only: of_int_le_iff)
  then have u2: "\<bar>?u\<bar> \<le> 2 ^ 50" by simp
  have ax: "\<bar>x\<bar> = \<bar>?u\<bar> / 1000000" by (simp add: x_def)
  have "pow2 (- 1022) \<le> \<bar>x\<bar>" using t t' u1 by (simp add: ax)
  then have ey: "\<bar>y - x\<bar> \<le> \<bar>x\<bar> * ?e" unfolding y_def e [symmetric] by (rule rnd_rel_error)
  have "z - ?u = (y - x) * 1000000" by (simp add: z_def x_def)
  then have "\<bar>z - ?u\<bar> = \<bar>y - x\<bar> * 1000000" by (simp only: abs_mult abs_numeral)
  then have ez: "\<bar>z - ?u\<bar> \<le> \<bar>?u\<bar> * ?e" using ey by (simp add: ax)
  have t1: "\<bar>z\<bar> \<le> \<bar>?u\<bar> + \<bar>z - ?u\<bar>" and t2: "\<bar>?u\<bar> \<le> \<bar>z\<bar> + \<bar>z - ?u\<bar>" by linarith+
  have z1: "\<bar>z\<bar> \<le> \<bar>?u\<bar> * (1 + ?e)" and z2: "1 / 2 \<le> \<bar>z\<bar>"
    using ez u1 t1 t2 by (simp_all add: field_simps)
  have "pow2 (- 1022) \<le> \<bar>z\<bar>" using t t' z2 by simp
  then have er: "\<bar>rnd z - z\<bar> \<le> \<bar>z\<bar> * ?e" unfolding e [symmetric] by (rule rnd_rel_error)
  have "\<bar>rnd z - ?u\<bar> \<le> \<bar>?u\<bar> * (1 + ?e) * ?e + \<bar>?u\<bar> * ?e"
  proof -
    have "\<bar>z\<bar> * ?e \<le> \<bar>?u\<bar> * (1 + ?e) * ?e" using z1 by (rule mult_right_mono) simp
    then show ?thesis using er ez by linarith
  qed
  also have "\<dots> = \<bar>?u\<bar> * ((1 + ?e) * ?e + ?e)" by (simp add: algebra_simps)
  also have "\<dots> \<le> 2 ^ 50 * ((1 + ?e) * ?e + ?e)" using u2 by (intro mult_right_mono) auto
  also have "\<dots> < 1 / 2" by simp
  finally show ?thesis by (simp add: z_def y_def x_def)
qed

lemma round_away_eqI:
  assumes "\<bar>x - of_int n\<bar> < 1 / 2"
  shows "round_away x = n"
proof (cases "0 \<le> x")
  case True
  have "\<lfloor>x + 1 / 2\<rfloor> = n" using assms by (intro floor_unique; linarith)
  with True show ?thesis by (simp add: round_away_def)
next
  case False
  have "\<lfloor>- x + 1 / 2\<rfloor> = - n" using assms by (intro floor_unique; simp; linarith)
  with False show ?thesis by (simp add: round_away_def)
qed

lemma fl_micro_units:
  assumes "\<bar>u\<bar> \<le> 2 ^ 50"
  shows "fdiv (f64_of_int u) (Fin 1000000) = Fin (rnd (of_int u / 1000000))"
    and "fl (rnd (of_int u / 1000000) * 1000000) = Fin (rnd (rnd (of_int u / 1000000) * 1000000))"
proof -
  let ?q = "of_int u / 1000000 :: rat"
  have "(of_int \<bar>u\<bar> :: rat) \<le> of_int (2 ^ 50)" using assms by (simp only: of_int_le_iff)
  then have b: "\<bar>of_int u :: rat\<bar> \<le> 2 ^ 50" by simp
  have q: "\<bar>?q\<bar> \<le> 2 ^ 31" using b by (simp add: abs_divide)
  have big: "2 ^ 51 \<le> pow2 1023"
    using pow2_le_iff [of 51 1023] by (simp only: pow2_nat) simp
  then have "\<bar>?q\<bar> \<le> pow2 1023" using q by simp
  then have "fl ?q = Fin (rnd ?q)" by (rule fl_small)
  moreover have "fl (of_int u) = Fin (of_int u)" using assms by (intro fl_of_int) simp
  ultimately show "fdiv (f64_of_int u) (Fin 1000000) = Fin (rnd ?q)"
    by (simp only: f64_of_int_def) simp
  have "rnd \<bar>?q\<bar> \<le> rnd (of_int (2 ^ 31))" using q by (intro rnd_mono) simp
  also have "\<dots> = 2 ^ 31" using rnd_of_int [of "2 ^ 31"] by simp
  finally have "\<bar>rnd ?q\<bar> \<le> 2 ^ 31" by (simp only: rnd_abs)
  then have "\<bar>rnd ?q * 1000000\<bar> \<le> 2 ^ 31 * 1000000" by (simp only: abs_mult abs_numeral mult_right_mono zero_le_numeral)
  then have "\<bar>rnd ?q * 1000000\<bar> \<le> pow2 1023" using big by simp
  then show "fl (rnd ?q * 1000000) = Fin (rnd (rnd ?q * 1000000))" by (rule fl_small)
qed

lemma cast_micro_units:
  assumes "\<bar>u\<bar> \<le> 2 ^ 50"
  shows "cast_int i64_min i64_max (fround (fmul (fdiv (f64_of_int u) (Fin 1000000)) (Fin 1000000))) = u"
proof -
  have "round_away (rnd (rnd (of_int u / 1000000) * 1000000)) = u"
  proof (cases "u = 0")
    case False
    then show ?thesis using rnd_scale_error [OF assms] by (intro round_away_eqI) simp
  qed (use round_away_of_int [of 0] in simp)
  moreover have "i64_min \<le> u" "u \<le> i64_max"
    using assms by (simp_all add: i64_min_def i64_max_def)
  ultimately show ?thesis
    by (simp only: fl_micro_units [OF assms] fmul.simps fround.simps cast_int_of_int)
qed

lemma from_double_to_double:
  assumes "\<bar>raw a\<bar> \<le> 2 ^ 50"
  shows "from_double (to_double a) = a"
proof -
  have "raw (from_double (to_double a)) = raw a"
    unfolding raw_from_double to_double_def f64_scale by (rule cast_micro_units [OF assms])
  then show ?thesis by (intro amount.expand) (rule signed_word_eqI)
qed


lemma raw_add: "i64_range (raw a + raw b) \<Longrightarrow> raw (amount_add a b) = raw a + raw b"
  by (simp add: amount_add_def sint_add_i64)

lemma raw_sub: "i64_range (raw a - raw b) \<Longrightarrow> raw (amount_sub a b) = raw a - raw b"
  by (simp add: amount_sub_def sint_sub_i64)

lemma raw_abs: "raw a \<noteq> i64_min \<Longrightarrow> raw (amount_abs a) = \<bar>raw a\<bar>"
  using i64_range_sint [of "units a"]
  by (simp add: amount_abs_def sint_neg_i64 i64_range_def i64_min_def i64_max_def)

definition read_micro :: "string \<Rightarrow> int" where
  "read_micro s =
     (let neg = (\<exists>r. s = CHR ''-'' # r);
          t = (if neg then tl s else s);
          w = takeWhile (\<lambda>c. c \<noteq> CHR ''.'') t;
          f = tl (dropWhile (\<lambda>c. c \<noteq> CHR ''.'') t);
          v = int (dec_val w) * 1000000 + int (dec_val f)
      in if neg then - v else v)"

lemma digits_no_dot: "\<forall>c \<in> set s. is_digit c \<Longrightarrow> \<forall>c \<in> set s. c \<noteq> CHR ''.''"
  by (auto simp: is_digit_def)

lemma read_micro_parts:
  "read_micro (show_int w @ ''.'' @ pad_zero 6 (show_nat f)) =
     (if w < 0 then w * 1000000 - int f else w * 1000000 + int f)"
proof -
  have nd: "\<forall>c \<in> set (show_nat n). c \<noteq> CHR ''.''" for n
    using show_nat_digits by (rule digits_no_dot)
  have tw: "takeWhile (\<lambda>c. c \<noteq> CHR ''.'') (show_nat n @ CHR ''.'' # r) = show_nat n"
    and dw: "dropWhile (\<lambda>c. c \<noteq> CHR ''.'') (show_nat n @ CHR ''.'' # r) = CHR ''.'' # r" for n r
    using nd [of n] by (auto simp: takeWhile_append2 dropWhile_append2)
  have hd: "show_nat n @ r \<noteq> CHR ''-'' # r'" for n r r'
  proof
    assume eq: "show_nat n @ r = CHR ''-'' # r'"
    then have "hd (show_nat n) = CHR ''-''" by (metis hd_append2 list.sel(1) show_nat_nonempty)
    moreover have "is_digit (hd (show_nat n))" using show_nat_digits [of n] show_nat_nonempty [of n]
      by (metis hd_in_set)
    ultimately show False by (simp add: is_digit_def)
  qed
  show ?thesis
  proof (cases "w < 0")
    case True
    then show ?thesis by (simp add: read_micro_def show_int_def tw dw)
  next
    case False
    then show ?thesis by (simp add: read_micro_def show_int_def tw dw hd Let_def)
  qed
qed

text \<open>
  Printing an amount and reading the text back gives the amount again, except
  strictly between -1 and 0 USDC, where the printed integer part is \<open>0\<close> and the sign is lost.
\<close>

theorem read_micro_to_string:
  "read_micro (amount_to_string a) =
     (if - 1000000 < raw a \<and> raw a < 0 then - raw a else raw a)"
proof -
  define u where "u = raw a"
  define w where "w = u sdiv POLY_SCALE"
  define f where "f = nat \<bar>u smod POLY_SCALE\<bar>"
  have "amount_to_string a = show_int w @ ''.'' @ pad_zero 6 (show_nat f)"
    by (simp add: amount_to_string_def Let_def w_def f_def u_def show_int_def)
  then have r: "read_micro (amount_to_string a) =
      (if w < 0 then w * 1000000 - int f else w * 1000000 + int f)"
    by (simp only: read_micro_parts)
  show ?thesis
  proof (cases "0 \<le> u")
    case True
    then have "w = u div 1000000" "int f = u mod 1000000"
      by (simp_all add: w_def f_def POLY_SCALE_def signed_divide_int_def signed_modulo_int_def sgn_if)
    then show ?thesis using True by (simp add: r u_def [symmetric] pos_imp_zdiv_neg_iff)
  next
    case False
    define d m where "d = (- u) div 1000000" and "m = (- u) mod 1000000"
    have w: "w = - d" and f: "int f = m"
      using False
      by (simp_all add: w_def f_def d_def m_def POLY_SCALE_def
          signed_divide_int_def signed_modulo_int_def sgn_if)
    have dm: "d * 1000000 + m = - u" unfolding d_def m_def by simp
    have m: "0 \<le> m" "m < 1000000" by (simp_all add: m_def)
    show ?thesis
    proof (cases "0 < d")
      case True
      then have "u \<le> - 1000000" using dm m by linarith
      then show ?thesis using True dm by (simp add: r w f u_def [symmetric])
    next
      case False
      then have "d = 0" using dm m \<open>\<not> 0 \<le> u\<close> by linarith
      then show ?thesis using dm m \<open>\<not> 0 \<le> u\<close> by (simp add: r w f u_def [symmetric])
    qed
  qed
qed

end
