(* ===== verification/Constants.thy ===== *)
theory Constants
  imports Amount_Type
begin

text \<open>
  The constants of \<open>constants.hpp\<close>. A \<open>double\<close> literal is the exact decimal value rounded
  once (\<open>lit\<close>); the \<open>Amount\<close> constants go through \<open>from_double\<close> as in the source.
\<close>

subsection \<open>Signal engine\<close>

definition T_DEGREES_OF_FREEDOM :: f64 where "T_DEGREES_OF_FREEDOM = lit 4"
definition PRIOR_RESET_INTERVAL_S :: f64 where "PRIOR_RESET_INTERVAL_S = lit 30"
definition OB_IMBALANCE_MULTIPLIER :: f64 where "OB_IMBALANCE_MULTIPLIER = lit (3 / 10)"
definition STRIKE_DISTANCE_BINS :: nat where "STRIKE_DISTANCE_BINS = 200"
definition TIME_REMAINING_BINS :: nat where "TIME_REMAINING_BINS = 60"
definition TIME_REMAINING_MAX_S :: f64 where "TIME_REMAINING_MAX_S = lit 300"
definition MAX_AUX_LOG_LIKELIHOOD_ADJ :: f64 where "MAX_AUX_LOG_LIKELIHOOD_ADJ = lit (1 / 10)"

subsection \<open>Volatility regimes\<close>

definition VOL_SIDEWAYS_THRESHOLD :: f64 where "VOL_SIDEWAYS_THRESHOLD = lit (15 / 10000)"
definition VOL_TRENDING_THRESHOLD :: f64 where "VOL_TRENDING_THRESHOLD = lit (50 / 10000)"
definition VOL_VOLATILE_THRESHOLD :: f64 where "VOL_VOLATILE_THRESHOLD = lit (150 / 10000)"
definition REALIZED_VOL_WINDOW_S :: f64 where "REALIZED_VOL_WINDOW_S = lit 60"

subsection \<open>Edge thresholds, in cents per share\<close>

definition FEE_TAKER_CENTS :: f64 where "FEE_TAKER_CENTS = lit (2 / 100)"
definition HALF_SPREAD_DEFAULT_CENTS :: f64 where "HALF_SPREAD_DEFAULT_CENTS = lit (1 / 2)"
definition FRICTION_SETTLEMENT_CENTS :: f64 where "FRICTION_SETTLEMENT_CENTS = lit (1 / 10)"
definition ALPHA_BUFFER_CENTS :: f64 where "ALPHA_BUFFER_CENTS = lit (3 / 4)"
definition E_MIN_TAKER_CENTS :: f64 where
  "E_MIN_TAKER_CENTS =
     fadd (fadd (fadd FEE_TAKER_CENTS HALF_SPREAD_DEFAULT_CENTS) FRICTION_SETTLEMENT_CENTS)
       ALPHA_BUFFER_CENTS"

subsection \<open>Sizing\<close>

definition KELLY_FRACTION :: f64 where "KELLY_FRACTION = lit (1 / 4)"
definition MAX_TRADE_USDC :: amount where "MAX_TRADE_USDC = from_double (lit 200)"
definition MAX_HEDGE_FRACTION :: f64 where "MAX_HEDGE_FRACTION = lit (5 / 100)"
definition MAX_TOTAL_EXPOSURE_USDC :: amount where "MAX_TOTAL_EXPOSURE_USDC = from_double (lit 400)"
definition MAX_MAKER_QUOTE_USDC :: amount where "MAX_MAKER_QUOTE_USDC = from_double (lit 100)"

subsection \<open>Execution\<close>

definition MAKER_QUOTE_MAX_AGE_MS :: f64 where "MAKER_QUOTE_MAX_AGE_MS = lit 1500"
definition MAKER_REQUOTE_THRESHOLD_BPS :: f64 where "MAKER_REQUOTE_THRESHOLD_BPS = lit (1 / 2)"
definition IOC_EXPIRY_SECONDS :: int where "IOC_EXPIRY_SECONDS = 10"
definition MIN_TAKER_INTERVAL_S :: f64 where "MIN_TAKER_INTERVAL_S = lit 30"
definition MAX_OPEN_POSITIONS :: int where "MAX_OPEN_POSITIONS = 3"
definition TAKER_FEE_RATE_BPS :: u64 where "TAKER_FEE_RATE_BPS = 200"
definition MAKER_FEE_RATE_BPS :: u64 where "MAKER_FEE_RATE_BPS = 0"

subsection \<open>Position management\<close>

definition HARD_STOP_MULTIPLE :: f64 where "HARD_STOP_MULTIPLE = lit (- 15 / 10)"
definition TRAILING_PROFIT_TRIGGER :: f64 where "TRAILING_PROFIT_TRIGGER = lit (1 / 2)"
definition TRAILING_STOP_FRACTION :: f64 where "TRAILING_STOP_FRACTION = lit (30 / 100)"
definition HEDGE_CLOSE_BEFORE_EXPIRY_S :: f64 where "HEDGE_CLOSE_BEFORE_EXPIRY_S = lit 30"

subsection \<open>Feed fault tiers\<close>

definition FEED_DEGRADED_THRESHOLD_S :: f64 where "FEED_DEGRADED_THRESHOLD_S = lit 2"
definition FEED_FALLBACK_THRESHOLD_S :: f64 where "FEED_FALLBACK_THRESHOLD_S = lit 5"
definition FEED_FLATTEN_SLICE_COUNT :: int where "FEED_FLATTEN_SLICE_COUNT = 5"
definition FEED_FLATTEN_SLICE_INTERVAL_S :: f64 where "FEED_FLATTEN_SLICE_INTERVAL_S = lit 6"

subsection \<open>Circuit breakers\<close>

definition CB_MAX_CONSECUTIVE_LOSSES :: int where "CB_MAX_CONSECUTIVE_LOSSES = 4"
definition CB_LOSS_WINDOW_S :: f64 where "CB_LOSS_WINDOW_S = lit 900"
definition CB_BTC_SPIKE_THRESHOLD :: f64 where "CB_BTC_SPIKE_THRESHOLD = lit (15 / 1000)"
definition CB_BTC_SPIKE_WINDOW_S :: f64 where "CB_BTC_SPIKE_WINDOW_S = lit 60"
definition CB_NAV_DRAWDOWN_THRESHOLD :: f64 where "CB_NAV_DRAWDOWN_THRESHOLD = lit (8 / 100)"
definition CB_NAV_DRAWDOWN_WINDOW_S :: f64 where "CB_NAV_DRAWDOWN_WINDOW_S = lit 3600"
definition CEX_MARGIN_FLOOR_FRACTION :: f64 where "CEX_MARGIN_FLOOR_FRACTION = lit (1 / 2)"

subsection \<open>Chain, go-live ramp\<close>

definition POLYGON_CHAIN_ID :: u64 where "POLYGON_CHAIN_ID = 137"
definition RAMP_MAX_TOTAL_EXPOSURE_USDC :: amount where
  "RAMP_MAX_TOTAL_EXPOSURE_USDC = from_double (lit 40)"

text \<open>Read by the heartbeat thread and the metrics server, and those that no code reads.\<close>

definition HEARTBEAT_INTERVAL_MS :: f64 where "HEARTBEAT_INTERVAL_MS = lit 500"
definition METRICS_PORT :: int where "METRICS_PORT = 9090"
definition RAMP_MAX_TRADE_USDC :: amount where "RAMP_MAX_TRADE_USDC = from_double (lit 20)"
definition STRIKE_DISTANCE_MIN_BPS :: f64 where "STRIKE_DISTANCE_MIN_BPS = lit (- 100)"
definition STRIKE_DISTANCE_MAX_BPS :: f64 where "STRIKE_DISTANCE_MAX_BPS = lit 100"
definition TIME_BIN_WIDTH_S :: f64 where "TIME_BIN_WIDTH_S = lit 5"
definition KELLY_LIVE_TRADE_MIN :: int where "KELLY_LIVE_TRADE_MIN = 200"
definition FEED_REST_POLL_INTERVAL_MS :: f64 where "FEED_REST_POLL_INTERVAL_MS = lit 500"
definition MAKER_SPREAD_DEGRADED_MULT :: f64 where "MAKER_SPREAD_DEGRADED_MULT = lit 2"
definition WATCHDOG_STALE_THRESHOLD_S :: f64 where "WATCHDOG_STALE_THRESHOLD_S = lit 2"

subsection \<open>Values\<close>

lemma KELLY_FRACTION_val [num_simps]: "KELLY_FRACTION = Fin (1 / 4)"
  by code_simp
lemma MAX_HEDGE_FRACTION_val [num_simps]:
  "MAX_HEDGE_FRACTION = Fin (3602879701896397 / 72057594037927936)"
  by code_simp
lemma MAX_TRADE_USDC_val [num_simps]: "MAX_TRADE_USDC = Amount 200000000"
  by (simp add: MAX_TRADE_USDC_def from_double_def lit_numeral fl_numeral i64_of_f64_def saturate_def i64_min_def i64_max_def)
lemma MAX_TOTAL_EXPOSURE_USDC_val [num_simps]: "MAX_TOTAL_EXPOSURE_USDC = Amount 400000000"
  by (simp add: MAX_TOTAL_EXPOSURE_USDC_def from_double_def lit_numeral fl_numeral i64_of_f64_def saturate_def i64_min_def i64_max_def)
lemma MAX_MAKER_QUOTE_USDC_val [num_simps]: "MAX_MAKER_QUOTE_USDC = Amount 100000000"
  by (simp add: MAX_MAKER_QUOTE_USDC_def from_double_def lit_numeral fl_numeral i64_of_f64_def saturate_def i64_min_def i64_max_def)
lemma RAMP_val [num_simps]: "RAMP_MAX_TOTAL_EXPOSURE_USDC = Amount 40000000"
  by (simp add: RAMP_MAX_TOTAL_EXPOSURE_USDC_def from_double_def lit_numeral fl_numeral i64_of_f64_def saturate_def i64_min_def i64_max_def)
lemma HARD_STOP_MULTIPLE_val [num_simps]: "HARD_STOP_MULTIPLE = Fin (- 3 / 2)"
  by code_simp
lemma TRAILING_PROFIT_TRIGGER_val [num_simps]: "TRAILING_PROFIT_TRIGGER = Fin (1 / 2)"
  by code_simp

end
