(* ===== verification/Eip712.thy ===== *)
theory Eip712
  imports Keccak Constants
begin

text \<open>
  EIP-712 order signing, \<open>src/wallet/eip712.hpp\<close> and \<open>eip712.cpp\<close>, and the \<open>ClobAuth\<close> digest of
  \<open>src/wallet/clob_auth.cpp\<close>. A fixed-size byte array is a list whose length \<open>wf_order\<close> states;
  \<open>memcpy\<close> into consecutive 32-byte words is concatenation.
\<close>

type_synonym uint256 = bytes
type_synonym address = bytes

record order =
  salt :: uint256
  maker :: address
  signer :: address
  taker :: address
  tokenId :: uint256
  makerAmount :: uint256
  takerAmount :: uint256
  expiration :: uint256
  nonce :: uint256
  feeRateBps :: uint256
  side :: u8
  signatureType :: u8

definition wf_order :: "order \<Rightarrow> bool" where
  "wf_order r \<longleftrightarrow>
     length (salt r) = 32 \<and> length (maker r) = 20 \<and> length (signer r) = 20
     \<and> length (taker r) = 20 \<and> length (tokenId r) = 32 \<and> length (makerAmount r) = 32
     \<and> length (takerAmount r) = 32 \<and> length (expiration r) = 32 \<and> length (nonce r) = 32
     \<and> length (feeRateBps r) = 32"

definition str_bytes :: "string \<Rightarrow> bytes" where
  "str_bytes s = map of_char s"

definition hash_str :: "string \<Rightarrow> bytes" where
  "hash_str s = keccak256 (str_bytes s)"

definition encode_uint256 :: "uint256 \<Rightarrow> bytes" where
  "encode_uint256 v = v"

definition encode_address :: "address \<Rightarrow> bytes" where
  "encode_address a = replicate 12 0 @ a"

definition encode_uint8 :: "u8 \<Rightarrow> bytes" where
  "encode_uint8 v = replicate 31 0 @ [v]"

definition DOMAIN_TYPE_STRING :: string where
  "DOMAIN_TYPE_STRING =
     ''EIP712Domain(string name,string version,uint256 chainId,address verifyingContract)''"

definition ORDER_TYPE_STRING :: string where
  "ORDER_TYPE_STRING =
     ''Order(uint256 salt,address maker,address signer,address taker,''
     @ ''uint256 tokenId,uint256 makerAmount,uint256 takerAmount,''
     @ ''uint256 expiration,uint256 nonce,uint256 feeRateBps,''
     @ ''uint8 side,uint8 signatureType)''"

definition CTF_EXCHANGE_BYTES :: address where
  "CTF_EXCHANGE_BYTES =
     [0x4b, 0xFb, 0x41, 0xd5, 0xB3, 0x57, 0x0D, 0xeF, 0xd0, 0x3C,
      0x39, 0xa9, 0xA4, 0xD8, 0xdE, 0x6B, 0xd8, 0xB8, 0x98, 0x2E]"

definition chain_word :: bytes where
  "chain_word = replicate 31 0 @ [ucast POLYGON_CHAIN_ID]"

definition order_domain_enc :: bytes where
  "order_domain_enc =
     hash_str DOMAIN_TYPE_STRING @ hash_str ''Polymarket CTF Exchange'' @ hash_str ''1''
     @ chain_word @ encode_address CTF_EXCHANGE_BYTES"

definition domain_separator :: bytes where
  "domain_separator = keccak256 order_domain_enc"

definition struct_enc :: "order \<Rightarrow> bytes" where
  "struct_enc r =
     hash_str ORDER_TYPE_STRING
     @ encode_uint256 (salt r) @ encode_address (maker r) @ encode_address (signer r)
     @ encode_address (taker r) @ encode_uint256 (tokenId r) @ encode_uint256 (makerAmount r)
     @ encode_uint256 (takerAmount r) @ encode_uint256 (expiration r) @ encode_uint256 (nonce r)
     @ encode_uint256 (feeRateBps r) @ encode_uint8 (side r) @ encode_uint8 (signatureType r)"

definition digest_input :: "bytes \<Rightarrow> bytes \<Rightarrow> bytes" where
  "digest_input ds sh = [0x19, 0x01] @ ds @ sh"

definition hash_order :: "order \<Rightarrow> bytes" where
  "hash_order r = keccak256 (digest_input domain_separator (keccak256 (struct_enc r)))"

definition u64_to_uint256 :: "u64 \<Rightarrow> uint256" where
  "u64_to_uint256 v =
     replicate 24 0 @
     [ucast (drop_bit 56 v), ucast (drop_bit 48 v), ucast (drop_bit 40 v), ucast (drop_bit 32 v),
      ucast (drop_bit 24 v), ucast (drop_bit 16 v), ucast (drop_bit 8 v), ucast v]"

definition address_to_word :: "address \<Rightarrow> bytes" where
  "address_to_word a = replicate 12 0 @ a"

subsection \<open>The ClobAuth digest\<close>

definition clob_auth_domain_enc :: bytes where
  "clob_auth_domain_enc =
     hash_str ''EIP712Domain(string name,string version,uint256 chainId)''
     @ hash_str ''ClobAuthDomain'' @ hash_str ''1'' @ chain_word"

definition clob_auth_domain_separator :: bytes where
  "clob_auth_domain_separator = keccak256 clob_auth_domain_enc"

definition encode_u64_word :: "u64 \<Rightarrow> bytes" where
  "encode_u64_word v = replicate 24 0 @ map (\<lambda>i. ucast (drop_bit (i * 8) v)) [7, 6, 5, 4, 3, 2, 1, 0]"

definition clob_auth_enc :: "address \<Rightarrow> string \<Rightarrow> u64 \<Rightarrow> bytes" where
  "clob_auth_enc a timestamp n =
     hash_str ''ClobAuth(address address,string timestamp,uint256 nonce,string message)''
     @ encode_address a @ hash_str timestamp @ encode_u64_word n
     @ hash_str ''This message attests that I control the given wallet''"

definition clob_auth_digest :: "address \<Rightarrow> string \<Rightarrow> u64 \<Rightarrow> bytes" where
  "clob_auth_digest a timestamp n =
     keccak256 (digest_input clob_auth_domain_separator (keccak256 (clob_auth_enc a timestamp n)))"

subsection \<open>Sizes and values of the encodings\<close>

lemmas enc_defs = encode_uint256_def encode_address_def encode_uint8_def

lemma length_hash_str [simp]: "length (hash_str s) = 32"
  by (simp add: hash_str_def)

lemma length_struct_enc: "wf_order r \<Longrightarrow> length (struct_enc r) = 13 * 32"
  by (simp add: struct_enc_def enc_defs wf_order_def)

lemma length_u64_to_uint256 [simp]: "length (u64_to_uint256 v) = 32"
  by (simp add: u64_to_uint256_def)

lemma length_hash_order [simp]: "length (hash_order r) = 32"
  by (simp add: hash_order_def)

definition be_nat :: "bytes \<Rightarrow> nat" where
  "be_nat bs = foldl (\<lambda>a b. a * 256 + unat b) 0 bs"

lemma be_nat_Nil [simp]: "be_nat [] = 0"
  by (simp add: be_nat_def)

lemma be_nat_snoc [simp]: "be_nat (bs @ [b]) = be_nat bs * 256 + unat b"
  by (simp add: be_nat_def)

lemma be_nat_append: "be_nat (xs @ ys) = be_nat xs * 256 ^ length ys + be_nat ys"
proof (induction ys rule: rev_induct)
  case (snoc y ys)
  then show ?case
    by (simp add: algebra_simps flip: append_assoc)
qed simp

lemma be_nat_less: "be_nat bs < 256 ^ length bs"
proof (induction bs rule: rev_induct)
  case (snoc b bs)
  have "unat b < 256" by (rule unat_u8_less)
  with snoc show ?case by simp
qed simp

lemma be_nat_zeros [simp]: "be_nat (replicate k 0 @ bs) = be_nat bs"
proof -
  have "be_nat (replicate k 0) = 0"
    by (induction k) (simp_all flip: replicate_append_same)
  then show ?thesis by (simp add: be_nat_append)
qed

lemma be_nat_inject: "length xs = length ys \<Longrightarrow> be_nat xs = be_nat ys \<Longrightarrow> xs = ys"
proof (induction xs arbitrary: ys rule: rev_induct)
  case (snoc x xs)
  then obtain zs z where ys: "ys = zs @ [z]" by (cases ys rule: rev_cases) auto
  have lt: "unat x < 256" "unat z < 256" by (rule unat_u8_less)+
  from snoc.prems ys have eq: "be_nat xs * 256 + unat x = be_nat zs * 256 + unat z" by simp
  then have "(be_nat xs * 256 + unat x) mod 256 = (be_nat zs * 256 + unat z) mod 256" by simp
  then have "unat x = unat z" using lt by simp
  moreover from this eq have "be_nat xs = be_nat zs" by simp
  ultimately show ?case using snoc ys by (simp add: word_unat_eq_iff)
qed simp

lemma unat_byte: "unat (ucast (drop_bit n v :: u64) :: u8) = unat v div 2 ^ n mod 256"
  by (simp only: unsigned_ucast_eq unat_drop_bit_eq) (simp add: drop_bit_eq_div take_bit_eq_mod)

lemma be_nat_bytes: "(n::nat) < 2 ^ 64 \<Longrightarrow>
 (((((((n div 2^56 mod 256 * 256 + n div 2^48 mod 256) * 256 + n div 2^40 mod 256) * 256 + n div 2^32 mod 256)*256
   + n div 2^24 mod 256) * 256 + n div 2^16 mod 256)*256 + n div 2^8 mod 256) * 256 + n mod 256) = n"
proof -
  have s: "(n div 2 ^ (k + 8)) * 256 + n div 2 ^ k mod 256 = n div 2 ^ k" for k
    by (simp add: power_add div_mult2_eq mult.commute)
  assume "n < 2 ^ 64"
  then have "n div 2^56 mod 256 = n div 2^56" by (simp add: less_mult_imp_div_less)
  then show ?thesis using s[of 48] s[of 40] s[of 32] s[of 24] s[of 16] s[of 8] s[of 0] by simp
qed

lemma be_nat_u64: "be_nat (u64_to_uint256 v) = unat v"
proof -
  have "unat (ucast v :: u8) = unat v mod 256" using unat_byte[of 0 v] by simp
  then show ?thesis using be_nat_bytes [OF unat_u64_less [of v]]
   by (simp add: u64_to_uint256_def) (simp add: be_nat_def unat_byte)
qed

lemma encode_u64_word: "encode_u64_word v = u64_to_uint256 v"
  by (simp add: encode_u64_word_def u64_to_uint256_def)

lemma u64_to_uint256_inject: "u64_to_uint256 v = u64_to_uint256 w \<longleftrightarrow> v = w"
  by (metis be_nat_u64 word_unat_eq_iff)

subsection \<open>What a digest binds\<close>

text \<open>\<open>collides x y\<close>: two different messages with the same hash.\<close>

definition collides :: "bytes \<Rightarrow> bytes \<Rightarrow> bool" where
  "collides x y \<longleftrightarrow> x \<noteq> y \<and> keccak256 x = keccak256 y"

lemma no_collision: "keccak256 x = keccak256 y \<Longrightarrow> \<not> collides x y \<Longrightarrow> x = y"
  by (simp add: collides_def)

lemma struct_enc_inject:
  assumes "wf_order r" and "wf_order q" and "struct_enc r = struct_enc q"
  shows "r = q"
  using assms
  by (intro order.equality) (simp_all add: struct_enc_def enc_defs wf_order_def)

lemma digest_input_inject:
  "length ds = length ds' \<Longrightarrow> digest_input ds sh = digest_input ds' sh' \<longleftrightarrow> ds = ds' \<and> sh = sh'"
  by (simp add: digest_input_def)

text \<open>
  C14. A signed order digest binds every field: the digests of two well-formed orders are equal
  exactly when the orders are equal or Keccak-256 collides on their struct encodings or on their
  final digest inputs.
\<close>

theorem hash_order_binding:
  assumes "wf_order r" and "wf_order q"
  shows "hash_order r = hash_order q \<longleftrightarrow>
     r = q \<or> collides (struct_enc r) (struct_enc q)
     \<or> collides (digest_input domain_separator (keccak256 (struct_enc r)))
         (digest_input domain_separator (keccak256 (struct_enc q)))"
  using struct_enc_inject [OF assms] by (auto simp: hash_order_def collides_def digest_input_inject)

definition sample_order :: order where
  "sample_order =
     \<lparr>salt = u64_to_uint256 7, maker = replicate 20 1, signer = replicate 20 1,
      taker = replicate 20 0, tokenId = u64_to_uint256 5, makerAmount = u64_to_uint256 100,
      takerAmount = u64_to_uint256 200, expiration = u64_to_uint256 0, nonce = u64_to_uint256 3,
      feeRateBps = u64_to_uint256 200, side = 0, signatureType = 0\<rparr>"

lemma wf_sample_order: "wf_order sample_order"
  by (simp add: sample_order_def wf_order_def)

theorem hash_order_binding_witness:
  "hash_order sample_order = hash_order (sample_order\<lparr>side := 1\<rparr>) \<longleftrightarrow>
     collides (struct_enc sample_order) (struct_enc (sample_order\<lparr>side := 1\<rparr>))
     \<or> collides (digest_input domain_separator (keccak256 (struct_enc sample_order)))
         (digest_input domain_separator (keccak256 (struct_enc (sample_order\<lparr>side := 1\<rparr>))))"
proof -
  have "wf_order (sample_order\<lparr>side := 1\<rparr>)"
    using wf_sample_order by (simp add: wf_order_def)
  moreover have "sample_order \<noteq> sample_order\<lparr>side := 1\<rparr>"
    by (simp add: sample_order_def)
  ultimately show ?thesis
    using hash_order_binding [OF wf_sample_order, of "sample_order\<lparr>side := 1\<rparr>"] by blast
qed

lemma length_digest_parts:
  "length domain_separator = 32" "length clob_auth_domain_separator = 32"
  by (simp_all add: domain_separator_def clob_auth_domain_separator_def)

lemma length_domain_encs:
  "length order_domain_enc = 160" "length clob_auth_domain_enc = 128"
  by (simp_all add: order_domain_enc_def clob_auth_domain_enc_def chain_word_def encode_address_def
      CTF_EXCHANGE_BYTES_def)

lemma domain_encs_differ: "order_domain_enc \<noteq> clob_auth_domain_enc"
proof
  assume "order_domain_enc = clob_auth_domain_enc"
  then have "length order_domain_enc = length clob_auth_domain_enc" by simp
  then show False by (simp add: length_domain_encs)
qed

text \<open>
  Domain separation: a signature given to log in to the CLOB (the \<open>ClobAuth\<close> digest) is a
  signature of an order exactly when Keccak-256 collides, on the two digest inputs, or on the two
  different domain encodings together with equal struct hashes.
\<close>

theorem login_is_not_an_order:
  "hash_order r = clob_auth_digest a t n \<longleftrightarrow>
     collides (digest_input domain_separator (keccak256 (struct_enc r)))
       (digest_input clob_auth_domain_separator (keccak256 (clob_auth_enc a t n)))
     \<or> (collides order_domain_enc clob_auth_domain_enc
        \<and> keccak256 (struct_enc r) = keccak256 (clob_auth_enc a t n))"
  using domain_encs_differ length_digest_parts
  by (auto simp: hash_order_def clob_auth_digest_def collides_def digest_input_inject
      domain_separator_def clob_auth_domain_separator_def)

end
