(* ===== verification/Codec.thy ===== *)
theory Codec
  imports Eip712
begin

text \<open>
  Text encodings of wallet data, \<open>src/execution/clob_client.cpp\<close> and \<open>coinbase_client.cpp\<close>: the
  256-bit decimal printer and parser over four 64-bit limbs with 128-bit intermediates, hex
  strings, and base64url.
\<close>

datatype exn = Runtime_Error string | Invalid_Argument string | Logic_Error string | Out_Of_Range string
  | Json_Error string | Terminated string

text \<open>The text of an exception, \<open>std::exception::what()\<close>.\<close>

primrec exn_what :: "exn \<Rightarrow> string" where
  "exn_what (Runtime_Error m) = m"
| "exn_what (Invalid_Argument m) = m"
| "exn_what (Logic_Error m) = m"
| "exn_what (Out_Of_Range m) = m"
| "exn_what (Json_Error m) = m"
| "exn_what (Terminated m) = m"

subsection \<open>Decimal printing\<close>

definition limbs_of :: "uint256 \<Rightarrow> u64 list" where
  "limbs_of v =
     map (\<lambda>i. fold (\<lambda>j l. push_bit 8 l OR ucast (v ! (i * 8 + j))) [0..<8] (0 :: u64)) [0..<4]"

definition div10_step :: "nat \<Rightarrow> u64 list \<times> u64 \<Rightarrow> u64 list \<times> u64" where
  "div10_step i = (\<lambda>(L, rem).
     let acc = push_bit 64 (ucast rem :: 128 word) OR ucast (L ! i)
     in (L[i := ucast (acc div 10)], ucast (acc mod 10)))"

definition div10 :: "u64 list \<Rightarrow> u64 list \<times> u64" where
  "div10 L = fold div10_step [0..<4] (L, 0)"

text \<open>The value of four limbs, most significant first.\<close>

definition limbs_val :: "u64 list \<Rightarrow> nat" where
  "limbs_val L = foldl (\<lambda>a w. a * 2 ^ 64 + unat w) 0 L"

definition limbs_zero :: "u64 list \<Rightarrow> bool" where
  "limbs_zero L \<longleftrightarrow> L ! 0 = 0 \<and> L ! 1 = 0 \<and> L ! 2 = 0 \<and> L ! 3 = 0"

lemma push_or_nat: "l < 2 ^ n \<Longrightarrow> push_bit n r OR l = r * 2 ^ n + (l::nat)"
proof -
  assume l: "l < 2 ^ n"
  have "int (push_bit n r OR l) = concat_bit n (int l) (int r)"
    using l by (simp add: concat_bit_def of_nat_or_eq of_nat_push_bit or.commute take_bit_int_eq_self)
  also have "\<dots> = int (r * 2 ^ n + l)"
    using l by (simp add: concat_bit_eq take_bit_int_eq_self push_bit_eq_mult)
  finally show ?thesis by (simp only: of_nat_eq_iff)
qed

lemma unat_ucast_up: "unat (ucast (w::u64) :: 128 word) = unat w"
  using unat_u64_less [of w] by (simp add: unsigned_ucast_eq take_bit_eq_mod del: ucast_id)

lemma unat_ucast_down: "unat (w :: 128 word) < 2 ^ 64 \<Longrightarrow> unat (ucast w :: u64) = unat w"
  by (simp add: unsigned_ucast_eq take_bit_eq_mod)

lemma unat_acc: "unat r < 10 \<Longrightarrow> unat (push_bit 64 (ucast (r::u64) :: 128 word) OR ucast (l::u64)) = unat r * 2 ^ 64 + unat l"
proof -
  assume r: "unat r < 10"
  have "unat (push_bit 64 (ucast r :: 128 word)) = push_bit 64 (unat r)"
    using r by (simp only: unsigned_push_bit_eq unat_ucast_up) (simp add: push_bit_eq_mult take_bit_eq_mod)
  then show ?thesis using unat_u64_less [of l]
    by (simp only: unsigned_or_eq unat_ucast_up push_or_nat)
qed

lemma div10_word:
  assumes "unat (r :: u64) < 10"
  shows "unat (ucast ((push_bit 64 (ucast r :: 128 word) OR ucast l) div 10) :: u64) = (unat r * 2 ^ 64 + unat (l::u64)) div 10"
   and "unat (ucast ((push_bit 64 (ucast r :: 128 word) OR ucast l) mod 10) :: u64) = (unat r * 2 ^ 64 + unat l) mod 10"
proof -
  let ?a = "push_bit 64 (ucast r :: 128 word) OR ucast l"
  have t: "unat (10 :: 128 word) = 10" by simp
  have "unat (?a div 10) = (unat r * 2 ^ 64 + unat l) div 10"
    by (simp only: unat_div_distrib unat_acc [OF assms] t)
  moreover have "(unat r * 2 ^ 64 + unat l) div 10 < 2 ^ 64"
    using assms unat_u64_less [of l] by (simp add: less_mult_imp_div_less)
  ultimately show "unat (ucast (?a div 10) :: u64) = (unat r * 2 ^ 64 + unat l) div 10"
    by (simp only: unat_ucast_down)
  have "unat (?a mod 10) = (unat r * 2 ^ 64 + unat l) mod 10"
    by (simp only: unat_mod_distrib unat_acc [OF assms] t)
  then show "unat (ucast (?a mod 10) :: u64) = (unat r * 2 ^ 64 + unat l) mod 10"
    using unat_ucast_down[of "?a mod 10"] by simp
qed

lemma limbs_val_4: "limbs_val [a, b, c, d] =
    ((unat a * 2 ^ 64 + unat b) * 2 ^ 64 + unat c) * 2 ^ 64 + unat d"
  by (simp add: limbs_val_def)

lemma four_limbs: "length L = 4 \<Longrightarrow> \<exists>a b c d. L = [a, b, c, d]"
  by (auto simp: numeral_eq_Suc length_Suc_conv)

lemma div10_step_unat:
  assumes "unat r < 10" and "div10_step i (L, r) = (L', r')"
  shows "length L' = length L \<and> unat r' < 10
     \<and> (\<exists>q. L' = L[i := q] \<and> 10 * unat q + unat r' = unat r * 2 ^ 64 + unat (L ! i))"
proof -
  let ?n = "unat r * 2 ^ 64 + unat (L ! i)"
  from assms(2) have L': "L' = L[i := ucast ((push_bit 64 (ucast r :: 128 word) OR ucast (L ! i)) div 10)]"
    and r': "r' = ucast ((push_bit 64 (ucast r :: 128 word) OR ucast (L ! i)) mod 10)"
    by (simp_all add: div10_step_def Let_def)
  have "unat r' = ?n mod 10" unfolding r' by (rule div10_word(2) [OF assms(1)])
  moreover have "unat (ucast ((push_bit 64 (ucast r :: 128 word) OR ucast (L ! i)) div 10) :: u64) = ?n div 10"
    by (rule div10_word(1) [OF assms(1)])
  ultimately show ?thesis unfolding L' by auto
qed

lemma div10_correct:
  assumes "length L = 4" and "div10 L = (L', r)"
  shows "length L' = 4 \<and> unat r < 10 \<and> 10 * limbs_val L' + unat r = limbs_val L"
proof -
  obtain a b c d where L: "L = [a, b, c, d]" using four_limbs [OF assms(1)] by blast
  obtain L1 r1 where s1: "div10_step 0 (L, 0) = (L1, r1)" by fastforce
  obtain L2 r2 where s2: "div10_step 1 (L1, r1) = (L2, r2)" by fastforce
  obtain L3 r3 where s3: "div10_step 2 (L2, r2) = (L3, r3)" by fastforce
  have s4: "div10_step 3 (L3, r3) = (L', r)"
    using assms(2) s1 s2 s3 by (simp add: div10_def upt_rec numeral_3_eq_3 [symmetric] numeral_2_eq_2 [symmetric])
  have "unat (0 :: u64) < 10" by simp
  from div10_step_unat [OF this s1] obtain q1 where
    1: "L1 = L[0 := q1]" "unat r1 < 10" "10 * unat q1 + unat r1 = unat a" by (auto simp: L)
  from div10_step_unat [OF 1(2) s2] obtain q2 where
    2: "L2 = L1[1 := q2]" "unat r2 < 10" "10 * unat q2 + unat r2 = unat r1 * 2 ^ 64 + unat b"
    by (auto simp: L 1)
  from div10_step_unat [OF 2(2) s3] obtain q3 where
    3: "L3 = L2[2 := q3]" "unat r3 < 10" "10 * unat q3 + unat r3 = unat r2 * 2 ^ 64 + unat c"
    by (auto simp: L 1 2)
  from div10_step_unat [OF 3(2) s4] obtain q4 where
    4: "L' = L3[3 := q4]" "unat r < 10" "10 * unat q4 + unat r = unat r3 * 2 ^ 64 + unat d"
    by (auto simp: L 1 2 3)
  have L': "L' = [q1, q2, q3, q4]" using L 1 2 3 4 by simp
  have "10 * limbs_val L' + unat r = limbs_val L"
    unfolding L' L limbs_val_4 using 1(3) 2(3) 3(3) 4(3) by simp
  then show ?thesis using L' 4 by simp
qed

lemma limbs_zero_val: "length L = 4 \<Longrightarrow> limbs_zero L \<longleftrightarrow> limbs_val L = 0"
  by (auto simp: limbs_zero_def limbs_val_4 unat_eq_0 dest!: four_limbs)

text \<open>The digit loop; the guard on the length is the type of the array \<open>L[4]\<close>.\<close>

function decimal_loop :: "u64 list \<Rightarrow> string \<Rightarrow> string" where
  "decimal_loop L digits =
     (if length L \<noteq> 4 \<or> limbs_zero L then digits
      else let (L', rem) = div10 L in decimal_loop L' (digits @ [digit_char (unat rem)]))"
  by auto

termination
proof (relation "measure (\<lambda>(L, digits). limbs_val L)")
  fix L digits p L' rem
  assume L: "\<not> (length L \<noteq> 4 \<or> limbs_zero L)" and p: "p = div10 L" "(L', rem) = p"
  then have "10 * limbs_val L' + unat rem = limbs_val L"
    using div10_correct [of L L' rem] by simp
  moreover have "limbs_val L \<noteq> 0" using L limbs_zero_val by blast
  ultimately show "((L', digits @ [digit_char (unat rem)]), L, digits) \<in> measure (\<lambda>(L, digits). limbs_val L)"
    by simp
qed simp

declare decimal_loop.simps [simp del]

definition uint256_to_decimal :: "uint256 \<Rightarrow> string" where
  "uint256_to_decimal v =
     (let L = limbs_of v in if limbs_zero L then ''0'' else rev (decimal_loop L []))"

lemma div10_bounds:
  assumes "length L = 4" and "div10 L = (L', r)"
  shows "length L' = 4" and "unat r < 10" and "limbs_val L = 10 * limbs_val L' + unat r"
    and "limbs_val L div 10 = limbs_val L'" and "limbs_val L mod 10 = unat r"
proof -
  note c = div10_correct [OF assms]
  show "length L' = 4" and r: "unat r < 10" using c by blast+
  show v: "limbs_val L = 10 * limbs_val L' + unat r" using c by presburger
  show "limbs_val L div 10 = limbs_val L'" and "limbs_val L mod 10 = unat r"
    unfolding v using r by simp_all
qed

lemma decimal_loop_zero: "limbs_zero L \<Longrightarrow> decimal_loop L ds = ds"
  by (subst decimal_loop.simps) (rule if_P, simp)

lemma decimal_loop_step: "length L = 4 \<Longrightarrow> \<not> limbs_zero L \<Longrightarrow> div10 L = (L', r) \<Longrightarrow>
    decimal_loop L ds = decimal_loop L' (ds @ [digit_char (unat r)])"
  by (rule trans [OF decimal_loop.simps]) (simp add: Let_def del: decimal_loop.simps)

lemma decimal_loop_show:
  "length L = 4 \<Longrightarrow> limbs_val L \<noteq> 0 \<Longrightarrow>
     rev (decimal_loop L ds) = show_nat (limbs_val L) @ rev ds"
proof (induction "limbs_val L" arbitrary: L ds rule: less_induct)
  case less
  obtain L' r where d: "div10 L = (L', r)" by (cases "div10 L") blast
  note b = div10_bounds [OF less.prems(1) d]
  have nz: "\<not> limbs_zero L" using less.prems by (simp add: limbs_zero_val)
  note dl = decimal_loop_step [OF less.prems(1) nz d]
  show ?case
  proof (cases "limbs_val L' = 0")
    case True
    then have "limbs_zero L'" using b(1) by (simp add: limbs_zero_val)
    moreover have "show_nat (limbs_val L) = [digit_char (unat r)]"
      unfolding b(3) True using show_nat_less [OF b(2)] by simp
    ultimately show ?thesis unfolding dl by (simp add: decimal_loop_zero)
  next
    case False
    then have "limbs_val L' < limbs_val L" and ge: "10 \<le> limbs_val L" unfolding b(3) by simp_all
    from less.hyps [OF this(1) b(1) False]
    have "rev (decimal_loop L' (ds @ [digit_char (unat r)]))
        = show_nat (limbs_val L') @ rev (ds @ [digit_char (unat r)])" .
    moreover have "show_nat (limbs_val L) = show_nat (limbs_val L') @ [digit_char (unat r)]"
      using show_nat_step [OF ge] unfolding b(4,5) .
    ultimately show ?thesis unfolding dl by simp
  qed
qed

lemma unat_push8_or:
  assumes "unat (l :: u64) < 2 ^ 56"
  shows "unat (push_bit 8 l OR ucast (b :: u8)) = unat l * 256 + unat b"
proof -
  have "unat (push_bit 8 l) = push_bit 8 (unat l)"
    using assms by (simp only: unsigned_push_bit_eq) (simp add: push_bit_eq_mult take_bit_eq_mod)
  moreover have "unat (ucast b :: u64) = unat b"
    using unat_u8_less [of b] by (simp add: unsigned_ucast_eq take_bit_eq_mod)
  ultimately show ?thesis
    using push_or_nat [of "unat b" 8 "unat l"] unat_u8_less [of b] by (simp add: unsigned_or_eq)
qed

lemma fold_bytes:
  "length bs \<le> 8 \<Longrightarrow> unat (fold (\<lambda>b l. push_bit 8 l OR ucast b) bs (0 :: u64)) = be_nat bs"
proof (induction bs rule: rev_induct)
  case (snoc b bs)
  then have "be_nat bs < 256 ^ 7"
    using be_nat_less [of bs] power_increasing [of "length bs" 7 "256 :: nat"] by simp
  then show ?case using snoc by (simp add: unat_push8_or)
qed simp

lemma limb_nth:
  "length v = 32 \<Longrightarrow> i < 4 \<Longrightarrow>
     fold (\<lambda>j l. push_bit 8 l OR ucast (v ! (i * 8 + j))) [0..<8] (0 :: u64)
     = fold (\<lambda>b l. push_bit 8 l OR ucast b) (take 8 (drop (i * 8) v)) 0"
proof -
  assume "length v = 32" "i < 4"
  then have "take 8 (drop (i * 8) v) = map (\<lambda>j. v ! (i * 8 + j)) [0..<8]"
    by (intro nth_equalityI) auto
  then show ?thesis by (simp add: fold_map comp_def)
qed

lemma limbs_of_val:
  assumes "length v = 32"
  shows "limbs_val (limbs_of v) = be_nat v"
proof -
  define p where "p i = take 8 (drop (i * 8) v)" for i
  have limb: "i < 4 \<Longrightarrow> unat (limbs_of v ! i) = be_nat (p i)" for i
    using assms by (simp add: limbs_of_def limb_nth fold_bytes p_def del: upt_Suc)
  have v: "v = ((p 0 @ p 1) @ p 2) @ p 3"
  proof -
    have "p 0 @ p 1 = take 16 v" using take_add [of 8 8 v] by (simp add: p_def)
    moreover have "take 16 v @ p 2 = take 24 v" using take_add [of 16 8 v] by (simp add: p_def)
    moreover have "take 24 v @ p 3 = v" using take_add [of 24 8 v] assms by (simp add: p_def)
    ultimately show ?thesis by simp
  qed
  have len: "length (p i) = 8" if "i < 4" for i using that assms by (simp add: p_def)
  have l: "length (p 1) = 8" "length (p 2) = 8" "length (p 3) = 8" using len by simp_all
  have pw: "(256 :: nat) ^ 8 = 2 ^ 64" by simp
  have "be_nat v = ((be_nat (p 0) * 2 ^ 64 + be_nat (p 1)) * 2 ^ 64 + be_nat (p 2)) * 2 ^ 64 + be_nat (p 3)"
    by (subst v) (simp only: be_nat_append l pw)
  moreover have "limbs_of v = [limbs_of v ! 0, limbs_of v ! 1, limbs_of v ! 2, limbs_of v ! 3]"
    by (simp add: limbs_of_def upt_rec [of _ 4] del: upt_Suc)
  then have "limbs_val (limbs_of v) =
      ((unat (limbs_of v ! 0) * 2 ^ 64 + unat (limbs_of v ! 1)) * 2 ^ 64 + unat (limbs_of v ! 2)) * 2 ^ 64
        + unat (limbs_of v ! 3)"
    by (metis limbs_val_4)
  moreover have "unat (limbs_of v ! 0) = be_nat (p 0)" "unat (limbs_of v ! 1) = be_nat (p 1)"
    "unat (limbs_of v ! 2) = be_nat (p 2)" "unat (limbs_of v ! 3) = be_nat (p 3)"
    by (rule limb; simp)+
  ultimately show ?thesis by presburger
qed

lemma length_limbs_of [simp]: "length (limbs_of v) = 4"
  by (simp add: limbs_of_def)

lemma digit_char_0: "digit_char 0 = CHR ''0''"
  by code_simp

lemma uint256_to_decimal_show:
  assumes "length v = 32"
  shows "uint256_to_decimal v = show_nat (be_nat v)"
proof (cases "be_nat v = 0")
  case True
  then have "limbs_zero (limbs_of v)" using limbs_of_val [OF assms] by (simp add: limbs_zero_val)
  then show ?thesis using True show_nat_less [of 0] by (simp add: uint256_to_decimal_def digit_char_0)
next
  case False
  then have "\<not> limbs_zero (limbs_of v)" using limbs_of_val [OF assms] by (simp add: limbs_zero_val)
  then show ?thesis using False decimal_loop_show [of "limbs_of v" "[]"] limbs_of_val [OF assms]
    by (simp add: uint256_to_decimal_def)
qed

subsection \<open>Decimal parsing\<close>

definition mul10_step :: "nat \<Rightarrow> u64 list \<times> u64 \<Rightarrow> u64 list \<times> u64" where
  "mul10_step i = (\<lambda>(L, carry).
     let acc = (ucast (L ! i) :: 128 word) * 10 + ucast carry
     in (L[i := ucast (acc AND 0xFFFFFFFFFFFFFFFF)], ucast (drop_bit 64 acc)))"

definition mul10 :: "u64 list \<Rightarrow> u64 \<Rightarrow> u64 list \<times> u64" where
  "mul10 L carry = fold mul10_step [3, 2, 1, 0] (L, carry)"

fun parse_digits :: "string \<Rightarrow> u64 list \<Rightarrow> exn + u64 list" where
  "parse_digits [] L = Inr L"
| "parse_digits (c # cs) L =
     (if \<not> is_digit c then Inl (Invalid_Argument ''non-decimal character in token ID'')
      else let (L, carry) = mul10 L (of_nat (digit_val c))
           in if carry \<noteq> 0 then Inl (Invalid_Argument ''token ID exceeds uint256'')
              else parse_digits cs L)"

definition pack_limbs :: "u64 list \<Rightarrow> uint256" where
  "pack_limbs L =
     concat (map (\<lambda>i. map (\<lambda>j. ucast (drop_bit (j * 8) (L ! i))) [7, 6, 5, 4, 3, 2, 1, 0]) [0..<4])"

definition parse_token_id :: "string \<Rightarrow> exn + uint256" where
  "parse_token_id s =
     (if s = [] then Inl (Invalid_Argument ''empty token ID string'')
      else case parse_digits s (replicate 4 0) of
             Inl e \<Rightarrow> Inl e
           | Inr L \<Rightarrow> Inr (pack_limbs L))"

lemma mul10_step_unat:
  assumes "unat (r :: u64) \<le> 10" and "mul10_step i (L, r) = (L', r')"
  shows "unat r' \<le> 10
     \<and> (\<exists>q. L' = L[i := q] \<and> 2 ^ 64 * unat r' + unat q = 10 * unat (L ! i) + unat r)"
proof -
  let ?l = "unat (L ! i)"
  let ?acc = "(ucast (L ! i) :: 128 word) * 10 + ucast r"
  have b: "10 * ?l + unat r \<le> 10 * (2 ^ 64 - 1) + 10"
    using unat_u64_less [of "L ! i"] assms(1) by linarith
  have acc: "unat ?acc = 10 * ?l + unat r"
  proof -
    have "unat ((ucast (L ! i) :: 128 word) * 10) = 10 * ?l"
      using unat_u64_less [of "L ! i"]
      by (simp add: unat_word_ariths unat_ucast_up take_bit_eq_mod)
    then show ?thesis using b by (simp add: unat_word_ariths unat_ucast_up take_bit_eq_mod)
  qed
  have L': "L' = L[i := ucast (?acc AND 0xFFFFFFFFFFFFFFFF)]" and r': "r' = ucast (drop_bit 64 ?acc)"
    using assms(2) by (simp_all add: mul10_step_def Let_def)
  have "(0xFFFFFFFFFFFFFFFF :: 128 word) = mask 64" by (simp add: mask_eq_exp_minus_1)
  then have "unat (?acc AND 0xFFFFFFFFFFFFFFFF) = (10 * ?l + unat r) mod 2 ^ 64"
    by (simp only: take_bit_eq_mask [symmetric] unsigned_take_bit_eq acc) (simp only: take_bit_eq_mod)
  then have lo: "unat (ucast (?acc AND 0xFFFFFFFFFFFFFFFF) :: u64) = (10 * ?l + unat r) mod 2 ^ 64"
    by (subst unat_ucast_down) simp_all
  have "unat (drop_bit 64 ?acc) = (10 * ?l + unat r) div 2 ^ 64"
    by (simp only: unat_drop_bit_eq acc) (simp only: drop_bit_eq_div)
  then have hi: "unat r' = (10 * ?l + unat r) div 2 ^ 64"
    using b unfolding r' by (subst unat_ucast_down) simp_all
  have "unat r' \<le> 10" using b unfolding hi by simp
  moreover have "2 ^ 64 * unat r' + unat (ucast (?acc AND 0xFFFFFFFFFFFFFFFF) :: u64) = 10 * ?l + unat r"
    unfolding hi lo by (rule mult_div_mod_eq)
  ultimately show ?thesis unfolding L' by blast
qed

lemma mul10_correct:
  assumes "length L = 4" and "unat r \<le> 10" and "mul10 L r = (L', r')"
  shows "length L' = 4 \<and> 2 ^ 256 * unat r' + limbs_val L' = 10 * limbs_val L + unat r"
proof -
  obtain a b c d where L: "L = [a, b, c, d]" using four_limbs [OF assms(1)] by blast
  obtain L1 r1 where s1: "mul10_step 3 (L, r) = (L1, r1)" by fastforce
  obtain L2 r2 where s2: "mul10_step 2 (L1, r1) = (L2, r2)" by fastforce
  obtain L3 r3 where s3: "mul10_step 1 (L2, r2) = (L3, r3)" by fastforce
  have s4: "mul10_step 0 (L3, r3) = (L', r')"
    using assms(3) s1 s2 s3 by (simp add: mul10_def)
  from mul10_step_unat [OF assms(2) s1] obtain q1 where
    1: "L1 = L[3 := q1]" "unat r1 \<le> 10" "2 ^ 64 * unat r1 + unat q1 = 10 * unat d + unat r"
    by (auto simp: L)
  from mul10_step_unat [OF 1(2) s2] obtain q2 where
    2: "L2 = L1[2 := q2]" "unat r2 \<le> 10" "2 ^ 64 * unat r2 + unat q2 = 10 * unat c + unat r1"
    by (auto simp: L 1(1))
  from mul10_step_unat [OF 2(2) s3] obtain q3 where
    3: "L3 = L2[1 := q3]" "unat r3 \<le> 10" "2 ^ 64 * unat r3 + unat q3 = 10 * unat b + unat r2"
    by (auto simp: L 1(1) 2(1))
  from mul10_step_unat [OF 3(2) s4] obtain q4 where
    4: "L' = L3[0 := q4]" "2 ^ 64 * unat r' + unat q4 = 10 * unat a + unat r3"
    by (auto simp: L 1(1) 2(1) 3(1))
  have L': "L' = [q4, q3, q2, q1]" using L 1(1) 2(1) 3(1) 4(1) by simp
  have "2 ^ 256 * unat r' + limbs_val L' = 10 * limbs_val L + unat r"
    unfolding L' L limbs_val_4 using 1(3) 2(3) 3(3) 4(2) by simp
  then show ?thesis using L' by simp
qed

lemma limbs_val_less: "length L = 4 \<Longrightarrow> limbs_val L < 2 ^ 256"
proof -
  assume "length L = 4"
  then obtain a b c d where "L = [a, b, c, d]" using four_limbs by blast
  then show ?thesis
    using unat_u64_less [of a] unat_u64_less [of b] unat_u64_less [of c] unat_u64_less [of d]
    by (simp add: limbs_val_4)
qed

text \<open>Reading on from a value.\<close>

definition dec_from :: "nat \<Rightarrow> string \<Rightarrow> nat" where
  "dec_from n s = foldl (\<lambda>a c. 10 * a + digit_val c) n s"

lemma dec_from_simps [simp]: "dec_from n [] = n" "dec_from n (c # s) = dec_from (10 * n + digit_val c) s"
  by (simp_all add: dec_from_def)

lemma dec_from_ge: "n \<le> dec_from n s"
proof (induction s arbitrary: n)
  case (Cons c s)
  have "n \<le> 10 * n + digit_val c" by simp
  also have "\<dots> \<le> dec_from (10 * n + digit_val c) s" by (rule Cons)
  finally show ?case by simp
qed simp

lemma dec_from_0: "dec_from 0 s = dec_val s"
  by (simp add: dec_from_def dec_val_def)

lemma digit_val_less: "is_digit c \<Longrightarrow> digit_val c < 10"
  unfolding is_digit_def digit_val_def by linarith

lemma parse_digits_correct:
  "length L = 4 \<Longrightarrow>
     (case parse_digits s L of
        Inl e \<Rightarrow> \<not> ((\<forall>c \<in> set s. is_digit c) \<and> dec_from (limbs_val L) s < 2 ^ 256)
      | Inr L' \<Rightarrow> (\<forall>c \<in> set s. is_digit c) \<and> length L' = 4 \<and> limbs_val L' = dec_from (limbs_val L) s)"
proof (induction s arbitrary: L)
  case (Cons c s)
  show ?case
  proof (cases "is_digit c")
    case True
    obtain L' r where m: "mul10 L (of_nat (digit_val c)) = (L', r)" by (cases "mul10 L (of_nat (digit_val c))") blast
    have d: "digit_val c < 10" by (rule digit_val_less [OF True])
    have ud: "unat (of_nat (digit_val c) :: u64) = digit_val c"
      using d by (simp add: unat_of_nat take_bit_eq_mod)
    then have "unat (of_nat (digit_val c) :: u64) \<le> 10" using d by linarith
    from mul10_correct [OF Cons.prems this m]
    have len: "length L' = 4" and v: "2 ^ 256 * unat r + limbs_val L' = 10 * limbs_val L + digit_val c"
      unfolding ud by blast+
    show ?thesis
    proof (cases "r = 0")
      case True
      then have "limbs_val L' = 10 * limbs_val L + digit_val c" using v by simp
      then show ?thesis using Cons.IH [OF len] True m \<open>is_digit c\<close> by (simp split: sum.splits)
    next
      case False
      then have "1 \<le> unat r" by (simp add: Suc_le_eq unat_gt_0)
      then have "(2 :: nat) ^ 256 * 1 \<le> 2 ^ 256 * unat r" by (rule mult_le_mono2)
      then have "(2 :: nat) ^ 256 \<le> 2 ^ 256 * unat r" by (simp only: mult_1_right)
      also have "\<dots> \<le> 10 * limbs_val L + digit_val c" using v by linarith
      also have "\<dots> \<le> dec_from (10 * limbs_val L + digit_val c) s" by (rule dec_from_ge)
      finally have "\<not> dec_from (10 * limbs_val L + digit_val c) s < 2 ^ 256" by (simp only: not_less)
      then show ?thesis using False m True by simp
    qed
  qed simp
qed simp

lemma length_pack_limbs [simp]: "length (pack_limbs L) = 32"
  by (simp add: pack_limbs_def upt_rec [of _ 4])

lemma be_nat_limb: "be_nat (map (\<lambda>j. ucast (drop_bit (j * 8) w)) [7, 6, 5, 4, 3, 2, 1, 0]) = unat (w :: u64)"
  using be_nat_u64 [of w] be_nat_zeros by (simp only: encode_u64_word_def flip: encode_u64_word)

lemma be_nat_pack:
  assumes "length L = 4"
  shows "be_nat (pack_limbs L) = limbs_val L"
proof -
  define p where "p i = (map (\<lambda>j. ucast (drop_bit (j * 8) (L ! i))) [7, 6, 5, 4, 3, 2, 1, 0] :: bytes)" for i
  have u: "[0..<4] = [0, 1, 2, 3 :: nat]" by (simp add: upt_rec)
  have v: "pack_limbs L = ((p 0 @ p 1) @ p 2) @ p 3"
    by (simp add: pack_limbs_def u p_def)
  have b: "be_nat (p i) = unat (L ! i)" for i unfolding p_def by (rule be_nat_limb)
  have len: "length (p i) = 8" for i by (simp add: p_def)
  have pw: "(256 :: nat) ^ 8 = 2 ^ 64" by simp
  obtain w x y z where L: "L = [w, x, y, z]" using four_limbs [OF assms] by blast
  have "L ! 0 = w" "L ! 1 = x" "L ! 2 = y" "L ! 3 = z" by (simp_all add: L)
  then show ?thesis unfolding v by (simp only: be_nat_append len pw b limbs_val_4 L)
qed

lemma limbs_val_zero: "limbs_val (replicate 4 0) = 0"
proof -
  have "replicate 4 0 = [0, 0, 0, 0 :: u64]" by (simp add: numeral_eq_Suc)
  then show ?thesis by (simp only: limbs_val_4) simp
qed

lemma parse_token_id_iff:
  "parse_token_id s = Inr v \<longleftrightarrow>
     s \<noteq> [] \<and> (\<forall>c \<in> set s. is_digit c) \<and> dec_val s < 2 ^ 256 \<and> length v = 32 \<and> be_nat v = dec_val s"
proof (cases "s = []")
  case False
  have "length (replicate 4 (0 :: u64)) = 4" by simp
  note c = parse_digits_correct [OF this, of s, unfolded limbs_val_zero dec_from_0]
  have p: "parse_token_id s = (case parse_digits s (replicate 4 0) of Inl e \<Rightarrow> Inl e | Inr L \<Rightarrow> Inr (pack_limbs L))"
    unfolding parse_token_id_def using False by (rule if_not_P)
  show ?thesis
  proof (cases "parse_digits s (replicate 4 0)")
    case (Inl e)
    then have "\<not> ((\<forall>c \<in> set s. is_digit c) \<and> dec_val s < 2 ^ 256)" using c by (simp only: sum.case simp_thms)
    moreover have "parse_token_id s \<noteq> Inr v" unfolding p Inl by simp
    ultimately show ?thesis by blast
  next
    case (Inr L)
    have L: "\<forall>c \<in> set s. is_digit c" "length L = 4" "limbs_val L = dec_val s"
      using c unfolding Inr by simp_all
    have "dec_val s < 2 ^ 256" using limbs_val_less [OF L(2)] L(3) by (simp only:)
    moreover have "be_nat (pack_limbs L) = dec_val s" unfolding L(3) [symmetric] by (rule be_nat_pack [OF L(2)])
    moreover have "parse_token_id s = Inr v \<longleftrightarrow> pack_limbs L = v" unfolding p Inr by simp
    moreover have "pack_limbs L = v \<longleftrightarrow> length v = 32 \<and> be_nat v = be_nat (pack_limbs L)"
      using be_nat_inject [of "pack_limbs L" v] by auto
    ultimately show ?thesis using False L(1) by metis
  qed
qed (simp add: parse_token_id_def)

text \<open>
  The token-id parser accepts exactly the nonempty strings of decimal digits whose value
  fits in 256 bits, and returns the 32-byte big-endian encoding of that value; every other string
  is an error, an overflow at any digit included.
\<close>

theorem parse_token_id_spec:
  "parse_token_id s = Inr v \<longleftrightarrow>
     s \<noteq> [] \<and> list_all is_digit s \<and> dec_val s < 2 ^ 256 \<and> length v = 32 \<and> be_nat v = dec_val s"
  by (simp add: parse_token_id_iff list_all_iff)

text \<open>
  C25. Round trip: printing a 256-bit number for an order body and parsing it back gives the same
  32 bytes.
\<close>

theorem token_id_round_trip:
  assumes "length v = 32"
  shows "parse_token_id (uint256_to_decimal v) = Inr v"
proof -
  have s: "uint256_to_decimal v = show_nat (be_nat v)" by (rule uint256_to_decimal_show [OF assms])
  have "be_nat v < 2 ^ 256" using be_nat_less [of v] assms by simp
  then show ?thesis unfolding parse_token_id_iff s
    using assms show_nat_digits by simp
qed

theorem token_id_round_trip_witness:
  "parse_token_id (uint256_to_decimal (u64_to_uint256 1234567890123)) = Inr (u64_to_uint256 1234567890123)"
  by (rule token_id_round_trip) simp

subsection \<open>Hex strings\<close>

definition HEX_CHARS :: string where "HEX_CHARS = ''0123456789abcdef''"

definition hex_body :: "bytes \<Rightarrow> string" where
  "hex_body bs =
     concat (map (\<lambda>b. [HEX_CHARS ! unat (drop_bit 4 b), HEX_CHARS ! unat (b AND 0xf)]) bs)"

definition bytes_to_hex :: "bytes \<Rightarrow> string" where
  "bytes_to_hex bs = ''0x'' @ hex_body bs"

definition address_to_hex :: "address \<Rightarrow> string" where
  "address_to_hex a = ''0x'' @ hex_body a"

subsection \<open>base64url\<close>

definition ENC :: string where
  "ENC = ''ABCDEFGHIJKLMNOPQRSTUVWXYZabcdefghijklmnopqrstuvwxyz0123456789+/''"

definition enc6 :: "u32 \<Rightarrow> nat \<Rightarrow> char" where
  "enc6 b n = ENC ! unat (drop_bit n b AND 0x3F)"

fun b64_groups :: "bytes \<Rightarrow> string" where
  "b64_groups [] = []"
| "b64_groups [x] =
     (let b = push_bit 16 (ucast x) in [enc6 b 18, enc6 b 12])"
| "b64_groups [x, y] =
     (let b = push_bit 16 (ucast x) OR push_bit 8 (ucast y) in [enc6 b 18, enc6 b 12, enc6 b 6])"
| "b64_groups (x # y # z # bs) =
     (let b = push_bit 16 (ucast x) OR push_bit 8 (ucast y) OR ucast z
      in [enc6 b 18, enc6 b 12, enc6 b 6, enc6 b 0] @ b64_groups bs)"

definition url_char :: "char \<Rightarrow> char" where
  "url_char c = (if c = CHR ''+'' then CHR ''-'' else if c = CHR ''/'' then CHR ''_'' else c)"

definition base64url_encode :: "bytes \<Rightarrow> string" where
  "base64url_encode bs = map url_char (b64_groups bs)"

end
