(* ===== verification/Effects.thy ===== *)
theory Effects
  imports Codec
begin

text \<open>
  Programs over an explicit state. A program returns a value or throws; the state after a throw is
  kept, as in C++. \<open>triple P m Q X\<close> is the Hoare triple: from a state satisfying \<open>P\<close>, a normal
  return satisfies \<open>Q\<close> and a throw leaves a state satisfying \<open>X\<close>. The collection \<open>vcg\<close> holds the
  rules of the combinators and of the operations of each component.
\<close>

named_theorems vcg "rules for triples"

type_synonym ('s, 'a) prog = "'s \<Rightarrow> (exn + 'a) \<times> 's"

definition ret :: "'a \<Rightarrow> ('s, 'a) prog" where
  "ret x = (\<lambda>s. (Inr x, s))"

definition bind :: "('s, 'a) prog \<Rightarrow> ('a \<Rightarrow> ('s, 'b) prog) \<Rightarrow> ('s, 'b) prog" where
  "bind m f = (\<lambda>s. case m s of (Inl e, s') \<Rightarrow> (Inl e, s') | (Inr x, s') \<Rightarrow> f x s')"

definition andthen :: "('s, unit) prog \<Rightarrow> ('s, 'b) prog \<Rightarrow> ('s, 'b) prog" where
  "andthen m n = bind m (\<lambda>_. n)"

definition throw :: "exn \<Rightarrow> ('s, 'a) prog" where
  "throw e = (\<lambda>s. (Inl e, s))"

definition gets :: "('s \<Rightarrow> 'a) \<Rightarrow> ('s, 'a) prog" where
  "gets f = (\<lambda>s. (Inr (f s), s))"

definition modify :: "('s \<Rightarrow> 's) \<Rightarrow> ('s, unit) prog" where
  "modify f = (\<lambda>s. (Inr (), f s))"

definition lift_sum :: "exn + 'a \<Rightarrow> ('s, 'a) prog" where
  "lift_sum r = (\<lambda>s. (r, s))"

definition skip :: "('s, unit) prog" where
  "skip = ret ()"

lemmas prog_defs = ret_def bind_def andthen_def throw_def gets_def modify_def lift_sum_def skip_def

lemma bind_ret [simp]: "bind (ret x) f = f x"
  by (simp add: prog_defs)

lemma bind_InrE:
  assumes "bind m f s = (Inr x, s')"
  obtains y t where "m s = (Inr y, t)" "f y t = (Inr x, s')"
  using assms by (auto simp: bind_def split: prod.splits sum.splits)

lemma andthen_InrE:
  assumes "andthen m n s = (Inr x, s')"
  obtains t where "m s = (Inr (), t)" "n t = (Inr x, s')"
  using assms by (auto simp: andthen_def elim: bind_InrE)

lemma ret_Inr [simp]: "ret y s = (Inr x, s') \<longleftrightarrow> y = x \<and> s = s'"
  by (simp add: ret_def)

lemma skip_Inr [simp]: "skip s = (Inr x, s') \<longleftrightarrow> s = s'"
  by (simp add: skip_def)

lemma gets_Inr [simp]: "gets f s = (Inr x, s') \<longleftrightarrow> f s = x \<and> s = s'"
  by (simp add: gets_def)

lemma modify_Inr [simp]: "modify f s = (Inr x, s') \<longleftrightarrow> f s = s'"
  by (simp add: modify_def)

lemma bind_gets [simp]: "bind (gets f) g s = g (f s) s"
  by (simp add: bind_def gets_def)

lemma andthen_modify [simp]: "andthen (modify f) m s = m (f s)"
  by (simp add: andthen_def bind_def modify_def)

definition triple :: "('s \<Rightarrow> bool) \<Rightarrow> ('s, 'a) prog \<Rightarrow> ('a \<Rightarrow> 's \<Rightarrow> bool) \<Rightarrow> ('s \<Rightarrow> bool) \<Rightarrow> bool" where
  "triple P m Q X \<longleftrightarrow>
     (\<forall>s. P s \<longrightarrow> (case m s of (Inl e, s') \<Rightarrow> X s' | (Inr x, s') \<Rightarrow> Q x s'))"

lemma triple_ret [vcg]: "triple (Q x) (ret x) Q X"
  by (simp add: triple_def ret_def)

lemma triple_skip [vcg]: "triple (Q ()) skip Q X"
  by (simp add: triple_def skip_def ret_def)

lemma triple_gets [vcg]: "triple (\<lambda>s. Q (f s) s) (gets f) Q X"
  by (simp add: triple_def gets_def)

lemma triple_modify [vcg]: "triple (\<lambda>s. Q () (f s)) (modify f) Q X"
  by (simp add: triple_def modify_def)

lemma triple_throw [vcg]: "triple X (throw e) Q X"
  by (simp add: triple_def throw_def)

lemma triple_lift_sum [vcg]: "triple (\<lambda>s. case r of Inl e \<Rightarrow> X s | Inr x \<Rightarrow> Q x s) (lift_sum r) Q X"
  by (simp add: triple_def lift_sum_def split: sum.splits)

lemma triple_bind:
  "triple P m R X \<Longrightarrow> (\<And>x. triple (R x) (f x) Q X) \<Longrightarrow> triple P (bind m f) Q X"
  unfolding triple_def bind_def by (fastforce split: prod.splits sum.splits)

lemma triple_andthen:
  "triple P m (\<lambda>_. R) X \<Longrightarrow> triple R n Q X \<Longrightarrow> triple P (andthen m n) Q X"
  unfolding andthen_def by (rule triple_bind)

lemma triple_pre: "triple P m Q X \<Longrightarrow> (\<And>s. P' s \<Longrightarrow> P s) \<Longrightarrow> triple P' m Q X"
  by (simp add: triple_def)

lemma triple_post: "triple P m Q X \<Longrightarrow> (\<And>x s. Q x s \<Longrightarrow> Q' x s) \<Longrightarrow> (\<And>s. X s \<Longrightarrow> X' s) \<Longrightarrow> triple P m Q' X'"
  unfolding triple_def by (fastforce split: prod.splits sum.splits)

lemma triple_if: "(b \<Longrightarrow> triple P m Q X) \<Longrightarrow> (\<not> b \<Longrightarrow> triple P n Q X) \<Longrightarrow> triple P (if b then m else n) Q X"
  by simp

lemma tripleD_ret: "triple P m Q X \<Longrightarrow> P s \<Longrightarrow> m s = (Inr x, s') \<Longrightarrow> Q x s'"
  unfolding triple_def by fastforce

lemma tripleD_throw: "triple P m Q X \<Longrightarrow> P s \<Longrightarrow> m s = (Inl e, s') \<Longrightarrow> X s'"
  unfolding triple_def by fastforce

text \<open>Invariants: a predicate kept by every normal return (a throw ends the \<open>noexcept\<close> callers).\<close>

definition keeps :: "('s \<Rightarrow> bool) \<Rightarrow> ('s, 'a) prog \<Rightarrow> bool" where
  "keeps I m \<longleftrightarrow> triple I m (\<lambda>_. I) (\<lambda>_. True)"

named_theorems keep "invariant preservation"

lemma keepsI: "(\<And>s x s'. I s \<Longrightarrow> m s = (Inr x, s') \<Longrightarrow> I s') \<Longrightarrow> keeps I m"
  unfolding keeps_def triple_def by (fastforce split: prod.splits sum.splits)

lemma keepsD: "keeps I m \<Longrightarrow> I s \<Longrightarrow> m s = (Inr x, s') \<Longrightarrow> I s'"
  unfolding keeps_def triple_def by fastforce

lemma keeps_bind [keep]: "keeps I m \<Longrightarrow> (\<And>x. keeps I (f x)) \<Longrightarrow> keeps I (bind m f)"
  unfolding keeps_def by (rule triple_bind)

lemma keeps_andthen [keep]: "keeps I m \<Longrightarrow> keeps I n \<Longrightarrow> keeps I (andthen m n)"
  unfolding andthen_def by (rule keeps_bind)

lemma keeps_basic [keep, simp]:
  "keeps I (ret x)" "keeps I skip" "keeps I (gets f)" "keeps I (throw e)" "keeps I (lift_sum r)"
  by (auto intro!: keepsI simp: prog_defs)

lemma keeps_modify: "(\<And>s. I s \<Longrightarrow> I (f s)) \<Longrightarrow> keeps I (modify f)"
  by (auto intro!: keepsI simp: modify_def)

lemma keeps_if [keep]: "(b \<Longrightarrow> keeps I m) \<Longrightarrow> (\<not> b \<Longrightarrow> keeps I n) \<Longrightarrow> keeps I (if b then m else n)"
  by simp

lemma keeps_Let [keep]: "(\<And>x. keeps I (f x)) \<Longrightarrow> keeps I (let x = v in f x)"
  by simp

text \<open>Programs that never throw.\<close>

named_theorems total "programs that return from every state"

definition returns :: "('s, 'a) prog \<Rightarrow> bool" where
  "returns m \<longleftrightarrow> (\<forall>s. \<exists>x s'. m s = (Inr x, s'))"

lemma returnsE: "returns m \<Longrightarrow> \<exists>x s'. m s = (Inr x, s')"
  by (simp add: returns_def)

lemma returns_bind [total]: "returns m \<Longrightarrow> (\<And>x. returns (f x)) \<Longrightarrow> returns (bind m f)"
  unfolding returns_def bind_def
proof
  fix s
  assume m: "\<forall>s. \<exists>x s'. m s = (Inr x, s')" and f: "\<And>x. \<forall>s. \<exists>y s'. f x s = (Inr y, s')"
  obtain x t where "m s = (Inr x, t)" using m by blast
  moreover obtain y u where "f x t = (Inr y, u)" using f by blast
  ultimately show "\<exists>y s'. (case m s of (Inl e, s') \<Rightarrow> (Inl e, s') | (Inr x, s') \<Rightarrow> f x s') = (Inr y, s')"
    by simp
qed

lemma returns_andthen [total]: "returns m \<Longrightarrow> returns n \<Longrightarrow> returns (andthen m n)"
  unfolding andthen_def by (rule returns_bind)

lemma returns_basic [total]: "returns (ret x)" "returns skip" "returns (gets f)" "returns (modify g)"
  "returns (lift_sum (Inr y))"
  by (simp_all add: returns_def prog_defs)

lemma returns_if [total]: "(b \<Longrightarrow> returns m) \<Longrightarrow> (\<not> b \<Longrightarrow> returns n) \<Longrightarrow> returns (if b then m else n)"
  by simp

lemma returns_Let [total]: "(\<And>x. returns (f x)) \<Longrightarrow> returns (let x = v in f x)"
  by simp

subsection \<open>Step relations\<close>

text \<open>
  A step relation is a reflexive and transitive relation between the states before and after; a
  program that follows it does so on every path, throws included.
\<close>

definition follows :: "('s \<Rightarrow> 's \<Rightarrow> bool) \<Rightarrow> ('s, 'a) prog \<Rightarrow> bool" where
  "follows R m \<longleftrightarrow> (\<forall>s. R s (snd (m s)))"

locale step_relation =
  fixes R :: "'s \<Rightarrow> 's \<Rightarrow> bool"
  assumes R_refl: "R s s"
    and R_trans: "R s t \<Longrightarrow> R t u \<Longrightarrow> R s u"
begin

lemma follows_bind: "follows R m \<Longrightarrow> (\<And>x. follows R (f x)) \<Longrightarrow> follows R (bind m f)"
  unfolding follows_def bind_def
  by (auto split: prod.splits sum.splits) (metis R_trans snd_conv)+

lemma follows_andthen: "follows R m \<Longrightarrow> follows R n \<Longrightarrow> follows R (andthen m n)"
  unfolding andthen_def by (rule follows_bind)

lemma follows_basic: "follows R (ret x)" "follows R skip" "follows R (gets f)" "follows R (lift_sum r)"
  by (simp_all add: follows_def prog_defs R_refl)

lemma follows_if: "(b \<Longrightarrow> follows R m) \<Longrightarrow> (\<not> b \<Longrightarrow> follows R n) \<Longrightarrow> follows R (if b then m else n)"
  by simp

lemma follows_Let: "(\<And>x. follows R (f x)) \<Longrightarrow> follows R (let x = v in f x)"
  by simp

lemma follows_option: "follows R m \<Longrightarrow> (\<And>x. follows R (f x)) \<Longrightarrow>
    follows R (case r of None \<Rightarrow> m | Some x \<Rightarrow> f x)"
  by (cases r) simp_all

lemma follows_prod: "(\<And>x y. follows R (f x y)) \<Longrightarrow> follows R (case p of (x, y) \<Rightarrow> f x y)"
  by (cases p) simp

lemma follows_sum: "(\<And>e. follows R (f e)) \<Longrightarrow> (\<And>x. follows R (g x)) \<Longrightarrow>
    follows R (case r of Inl e \<Rightarrow> f e | Inr x \<Rightarrow> g x)"
  by (cases r) simp_all

lemmas follows_rules = follows_bind follows_andthen follows_basic follows_if follows_Let follows_option
  follows_prod follows_sum

end

lemma followsI: "(\<And>s. R s (snd (m s))) \<Longrightarrow> follows R m"
  by (simp add: follows_def)

lemma followsD: "follows R m \<Longrightarrow> m s = (r, s') \<Longrightarrow> R s s'"
  unfolding follows_def by (metis snd_conv)

subsection \<open>Threads over a shared counter\<close>

text \<open>
  A thread that takes turns on its own state, which holds what it saw of a shared counter. The contract:
  a turn keeps the thread's invariant and changes the counter it saw by exactly the change of its own
  contribution. The client needs the change only, since other threads add theirs meanwhile.
\<close>

locale counted_thread =
  fixes turn :: "'s \<Rightarrow> 's \<Rightarrow> bool"
    and inv :: "'s \<Rightarrow> bool"
    and seen :: "'s \<Rightarrow> 'n :: ab_group_add"
    and own :: "'s \<Rightarrow> 'n"
  assumes turn_inv: "inv s \<Longrightarrow> turn s s' \<Longrightarrow> inv s'"
    and turn_rest: "inv s \<Longrightarrow> turn s s' \<Longrightarrow> seen s' - own s' = seen s - own s"
begin

lemma turn_adds:
  assumes "inv s" and "turn s s'"
  shows "counter + (seen s' - seen s) = counter - own s + own s'"
proof -
  have "seen s' = seen s - own s + own s'" using turn_rest [OF assms] by (metis diff_add_cancel)
  then show ?thesis by (simp add: algebra_simps)
qed

lemma turns_rest: "turn\<^sup>*\<^sup>* s s' \<Longrightarrow> inv s \<Longrightarrow> inv s' \<and> seen s' - own s' = seen s - own s"
  by (induction rule: rtranclp_induct) (auto simp: turn_inv turn_rest)

end

end
