(* ===== verification/Shared_State.thy ===== *)
theory Shared_State
  imports Constants
begin

text \<open>
  The state shared between the threads, \<open>src/signal/shared_state.hpp\<close>. Every field is an atomic in
  the code; a thread's step in the model works on one snapshot of the record and interference of
  other threads happens between steps.
\<close>

datatype market_regime = SIDEWAYS | TRENDING | VOLATILE | SPIKE

record shared_state =
  p_true :: f64
  p_market :: f64
  btc_mid :: f64
  realized_vol_60s :: f64
  regime :: market_regime
  poly_best_bid :: f64
  poly_best_ask :: f64
  bankroll_usdc :: f64
  total_exposure_usdc :: f64
  open_position_count :: u32
  kill_switch :: bool
  consecutive_losses :: u32
  first_loss_streak_us :: i64

definition initial_shared :: shared_state where
  "initial_shared =
     \<lparr>p_true = lit (1 / 2), p_market = lit (1 / 2), btc_mid = Fin 0, realized_vol_60s = Fin 0,
      regime = SIDEWAYS, poly_best_bid = lit (1 / 2), poly_best_ask = lit (1 / 2),
      bankroll_usdc = Fin 0, total_exposure_usdc = Fin 0, open_position_count = 0,
      kill_switch = False, consecutive_losses = 0, first_loss_streak_us = 0\<rparr>"

end
