(* ===== verification/Venue.thy ===== *)
theory Venue
  imports Effects Shared_State
begin

text \<open>
  What the execution arms see of the outside: the clocks, the salt source, the wallet key, and the
  two order venues, as functions over an arbitrary world \<open>'w\<close> (\<open>'w venue\<close>; the clients of
  \<open>src/execution/clob_client.cpp\<close> and \<open>coinbase_client.cpp\<close> build one over HTTP). The environment
  record of a program run holds the world, the shared state, the nonce counter of
  \<open>src/wallet/nonce_manager.cpp\<close> and the list of venue calls made with their
  outcomes, oldest first.
\<close>

datatype clob_order_state = UNKNOWN | OPEN | MATCHED | FILLED | CANCELLED

record submit_result =
  sr_success :: bool
  sr_order_id :: string
  sr_error :: string

record order_status =
  os_state :: clob_order_state
  os_size_matched :: f64
  os_avg_price :: f64

record hedge_result =
  hr_success :: bool
  hr_order_id :: string
  hr_executed_qty :: f64
  hr_avg_price :: f64
  hr_error :: string

record 'w venue =
  v_system_ns :: "'w \<Rightarrow> int \<times> 'w"
  v_steady_ns :: "'w \<Rightarrow> int \<times> 'w"
  v_salt :: "'w \<Rightarrow> (exn + uint256) \<times> 'w"
  v_wallet :: address
  v_sign :: "bytes \<Rightarrow> 'w \<Rightarrow> (exn + bytes) \<times> 'w"
  v_submit :: "order \<Rightarrow> bytes \<Rightarrow> string \<Rightarrow> 'w \<Rightarrow> (exn + submit_result) \<times> 'w"
  v_cancel :: "string \<Rightarrow> 'w \<Rightarrow> (exn + bool) \<times> 'w"
  v_status :: "string \<Rightarrow> 'w \<Rightarrow> order_status \<times> 'w"
  v_hedge :: "string \<Rightarrow> f64 \<Rightarrow> f64 \<Rightarrow> 'w \<Rightarrow> hedge_result \<times> 'w"
  v_hedge_cancel :: "string \<Rightarrow> 'w \<Rightarrow> bool \<times> 'w"

datatype event =
    Submit order string "exn + submit_result"
  | Cancel string "exn + bool"
  | Poll string order_status
  | Hedge string f64 f64 hedge_result
  | HedgeCancel string bool

record 'w env =
  world :: 'w
  calls :: "event list"
  next_nonce :: u64
  ss :: shared_state

subsection \<open>Operations\<close>

definition observe :: "('w \<Rightarrow> 'a \<times> 'w) \<Rightarrow> (('w, 'z) env_scheme, 'a) prog" where
  "observe f = (\<lambda>s. case f (world s) of (x, w) \<Rightarrow> (Inr x, s\<lparr>world := w\<rparr>))"

definition attempt :: "('w \<Rightarrow> (exn + 'a) \<times> 'w) \<Rightarrow> (('w, 'z) env_scheme, 'a) prog" where
  "attempt f = (\<lambda>s. case f (world s) of (r, w) \<Rightarrow> (r, s\<lparr>world := w\<rparr>))"

definition call :: "((exn + 'a) \<Rightarrow> event) \<Rightarrow> ('w \<Rightarrow> (exn + 'a) \<times> 'w) \<Rightarrow> (('w, 'z) env_scheme, 'a) prog" where
  "call ev f = (\<lambda>s. case f (world s) of (r, w) \<Rightarrow> (r, s\<lparr>world := w, calls := calls s @ [ev r]\<rparr>))"

definition call_noexcept :: "('a \<Rightarrow> event) \<Rightarrow> ('w \<Rightarrow> 'a \<times> 'w) \<Rightarrow> (('w, 'z) env_scheme, 'a) prog" where
  "call_noexcept ev f =
     (\<lambda>s. case f (world s) of (x, w) \<Rightarrow> (Inr x, s\<lparr>world := w, calls := calls s @ [ev x]\<rparr>))"

definition nonce_next :: "(('w, 'z) env_scheme, u64) prog" where
  "nonce_next = (\<lambda>s. (Inr (next_nonce s), s\<lparr>next_nonce := next_nonce s + 1\<rparr>))"

definition system_seconds :: "'w venue \<Rightarrow> (('w, 'z) env_scheme, int) prog" where
  "system_seconds V = bind (observe (v_system_ns V)) (\<lambda>t. ret (t sdiv 1000000000))"

definition system_micros :: "'w venue \<Rightarrow> (('w, 'z) env_scheme, int) prog" where
  "system_micros V = bind (observe (v_system_ns V)) (\<lambda>t. ret (t sdiv 1000))"

definition steady_now :: "'w venue \<Rightarrow> (('w, 'z) env_scheme, int) prog" where
  "steady_now V = observe (v_steady_ns V)"

definition clob_submit :: "'w venue \<Rightarrow> order \<Rightarrow> string \<Rightarrow> (('w, 'z) env_scheme, submit_result) prog" where
  "clob_submit V r t =
     bind (attempt (v_sign V (hash_order r))) (\<lambda>sig. call (Submit r t) (v_submit V r sig t))"

definition clob_cancel :: "'w venue \<Rightarrow> string \<Rightarrow> (('w, 'z) env_scheme, bool) prog" where
  "clob_cancel V i = call (Cancel i) (v_cancel V i)"

definition clob_status :: "'w venue \<Rightarrow> string \<Rightarrow> (('w, 'z) env_scheme, order_status) prog" where
  "clob_status V i = call_noexcept (Poll i) (v_status V i)"

definition hedge_submit :: "'w venue \<Rightarrow> string \<Rightarrow> f64 \<Rightarrow> f64 \<Rightarrow> (('w, 'z) env_scheme, hedge_result) prog" where
  "hedge_submit V sd q p = call_noexcept (Hedge sd q p) (v_hedge V sd q p)"

definition hedge_cancel :: "'w venue \<Rightarrow> string \<Rightarrow> (('w, 'z) env_scheme, bool) prog" where
  "hedge_cancel V i = call_noexcept (HedgeCancel i) (v_hedge_cancel V i)"

text \<open>
  The order an arm fills in: fresh salt, own wallet as maker and signer, open taker, the market's
  token, the given amounts and expiry, the next nonce. All three places that build an order (taker,
  maker and close) make these calls in this order.
\<close>

definition build_order ::
  "'w venue \<Rightarrow> string \<Rightarrow> u64 \<Rightarrow> u64 \<Rightarrow> int \<Rightarrow> u64 \<Rightarrow> u8 \<Rightarrow> (('w, 'z) env_scheme, order) prog" where
  "build_order V token maker_raw taker_raw expiry fee sd =
     bind (attempt (v_salt V)) (\<lambda>sl.
     bind (lift_sum (parse_token_id token)) (\<lambda>tid.
     bind nonce_next (\<lambda>n.
       ret \<lparr>salt = sl, maker = v_wallet V, signer = v_wallet V, taker = replicate 20 0,
            tokenId = tid, makerAmount = u64_to_uint256 maker_raw,
            takerAmount = u64_to_uint256 taker_raw,
            expiration = u64_to_uint256 (word_of_int expiry), nonce = u64_to_uint256 n,
            feeRateBps = u64_to_uint256 fee, side = sd, signatureType = 0\<rparr>)))"

lemmas venue_ops = observe_def attempt_def call_def call_noexcept_def nonce_next_def system_seconds_def
  system_micros_def steady_now_def clob_submit_def clob_cancel_def clob_status_def
  hedge_submit_def hedge_cancel_def build_order_def

subsection \<open>Invariants that only look at the environment\<close>

text \<open>\<open>env_free I\<close>: the predicate does not depend on the world, the calls or the nonce.\<close>

definition env_free :: "(('w, 'z) env_scheme \<Rightarrow> bool) \<Rightarrow> bool" where
  "env_free I \<longleftrightarrow> (\<forall>s w c n. I s \<longrightarrow> I (s\<lparr>world := w\<rparr>) \<and> I (s\<lparr>calls := c\<rparr>) \<and> I (s\<lparr>next_nonce := n\<rparr>))"

lemma env_freeD:
  assumes "env_free I" and "I s"
  shows "I (s\<lparr>world := w\<rparr>)" "I (s\<lparr>calls := c\<rparr>)" "I (s\<lparr>next_nonce := n\<rparr>)" "I (s\<lparr>world := w, calls := c\<rparr>)"
  using assms unfolding env_free_def by blast+

lemma keeps_env_basic:
  assumes "env_free I"
  shows "keeps I (observe f)" "keeps I (attempt g)" "keeps I (call ev h)" "keeps I (call_noexcept ev' h')"
    "keeps I nonce_next"
  by (rule keepsI, auto simp: observe_def attempt_def call_def call_noexcept_def nonce_next_def
      env_freeD [OF assms] split: prod.splits)+

lemma keeps_env [keep]:
  assumes "env_free I"
  shows "keeps I (system_seconds V)" "keeps I (system_micros V)" "keeps I (steady_now V)"
    "keeps I (clob_submit V r t)" "keeps I (clob_cancel V i)" "keeps I (clob_status V i)"
    "keeps I (hedge_submit V sd q p)" "keeps I (hedge_cancel V i)"
    "keeps I (build_order V tok m t' ex fee b)"
  unfolding system_seconds_def system_micros_def steady_now_def clob_submit_def clob_cancel_def
    clob_status_def hedge_submit_def hedge_cancel_def build_order_def
  by (intro keep keeps_basic keeps_env_basic assms)+

subsection \<open>What each operation changes\<close>

lemma observe_run: "observe f s = (Inr x, s') \<Longrightarrow> \<exists>w. s' = s\<lparr>world := w\<rparr>"
  by (auto simp: observe_def split: prod.splits)

lemma attempt_run: "attempt f s = (Inr x, s') \<Longrightarrow> \<exists>w. s' = s\<lparr>world := w\<rparr>"
  by (auto simp: attempt_def split: prod.splits)

lemma observe_ret_run: "bind (observe f) (\<lambda>t. ret (g t)) s = (Inr x, s') \<Longrightarrow> \<exists>w. s' = s\<lparr>world := w\<rparr>"
  by (erule bind_InrE) (drule observe_run, simp only: ret_Inr)

lemma clock_run:
  "system_seconds V s = (Inr t, s') \<Longrightarrow> \<exists>w. s' = s\<lparr>world := w\<rparr>"
  "system_micros V s = (Inr t, s') \<Longrightarrow> \<exists>w. s' = s\<lparr>world := w\<rparr>"
  "steady_now V s = (Inr t, s') \<Longrightarrow> \<exists>w. s' = s\<lparr>world := w\<rparr>"
  unfolding system_seconds_def system_micros_def steady_now_def
  by (erule observe_ret_run observe_run)+

lemma call_run: "call ev f s = (Inr x, s') \<Longrightarrow> \<exists>w. s' = s\<lparr>world := w, calls := calls s @ [ev (Inr x)]\<rparr>"
  by (auto simp: call_def split: prod.splits)

lemma call_noexcept_run:
  "call_noexcept ev f s = (Inr x, s') \<Longrightarrow> \<exists>w. s' = s\<lparr>world := w, calls := calls s @ [ev x]\<rparr>"
  by (auto simp: call_noexcept_def split: prod.splits)

lemma clob_submit_run:
  "clob_submit V r t s = (Inr x, s') \<Longrightarrow>
     \<exists>w. s' = s\<lparr>world := w, calls := calls s @ [Submit r t (Inr x)]\<rparr>"
  unfolding clob_submit_def by (elim bind_InrE) (auto dest!: attempt_run call_run)

lemma clob_cancel_run:
  "clob_cancel V i s = (Inr x, s') \<Longrightarrow>
     \<exists>w. s' = s\<lparr>world := w, calls := calls s @ [Cancel i (Inr x)]\<rparr>"
  unfolding clob_cancel_def by (rule call_run)

lemma clob_status_run:
  "clob_status V i s = (Inr x, s') \<Longrightarrow> \<exists>w. s' = s\<lparr>world := w, calls := calls s @ [Poll i x]\<rparr>"
  unfolding clob_status_def by (rule call_noexcept_run)

lemma hedge_submit_run:
  "hedge_submit V sd q p s = (Inr x, s') \<Longrightarrow>
     \<exists>w. s' = s\<lparr>world := w, calls := calls s @ [Hedge sd q p x]\<rparr>"
  unfolding hedge_submit_def by (rule call_noexcept_run)

lemma hedge_cancel_run:
  "hedge_cancel V i s = (Inr x, s') \<Longrightarrow>
     \<exists>w. s' = s\<lparr>world := w, calls := calls s @ [HedgeCancel i x]\<rparr>"
  unfolding hedge_cancel_def by (rule call_noexcept_run)

lemma build_order_run:
  assumes "build_order V token m t ex fee sd s = (Inr r, s')"
  shows "(\<exists>w. s' = s\<lparr>world := w, next_nonce := next_nonce s + 1\<rparr>)
    \<and> parse_token_id token = Inr (tokenId r) \<and> nonce r = u64_to_uint256 (next_nonce s)
    \<and> maker r = v_wallet V \<and> signer r = v_wallet V \<and> taker r = replicate 20 0
    \<and> makerAmount r = u64_to_uint256 m \<and> takerAmount r = u64_to_uint256 t
    \<and> expiration r = u64_to_uint256 (word_of_int ex) \<and> feeRateBps r = u64_to_uint256 fee
    \<and> side r = sd \<and> signatureType r = 0"
  using assms unfolding build_order_def lift_sum_def nonce_next_def
  by (elim bind_InrE) (auto dest!: attempt_run)

lemmas venue_runs = clock_run clob_submit_run clob_cancel_run clob_status_run hedge_submit_run
  hedge_cancel_run build_order_run

subsection \<open>Venues that do not throw\<close>

definition calm :: "'w venue \<Rightarrow> bool" where
  "calm V \<longleftrightarrow>
     (\<forall>w. \<not> isl (fst (v_salt V w))) \<and> (\<forall>d w. \<not> isl (fst (v_sign V d w)))
     \<and> (\<forall>r g t w. \<not> isl (fst (v_submit V r g t w))) \<and> (\<forall>i w. \<not> isl (fst (v_cancel V i w)))"

lemma returns_attempt: "(\<And>w. \<not> isl (fst (f w))) \<Longrightarrow> returns (attempt f)"
  unfolding returns_def attempt_def
  by (auto split: prod.splits) (metis fst_conv sum.collapse(2))

lemma returns_call: "(\<And>w. \<not> isl (fst (f w))) \<Longrightarrow> returns (call ev f)"
  unfolding returns_def call_def
  by (auto split: prod.splits) (metis fst_conv sum.collapse(2))

lemma returns_noexcept [total]: "returns (observe f)" "returns (call_noexcept ev f)" "returns nonce_next"
  by (auto simp: returns_def observe_def call_noexcept_def nonce_next_def split: prod.splits)

lemma returns_venue [total]:
  "returns (system_seconds V)" "returns (system_micros V)" "returns (steady_now V)"
  "returns (clob_status V i)" "returns (hedge_submit V sd q p)" "returns (hedge_cancel V i)"
  unfolding system_seconds_def system_micros_def steady_now_def clob_status_def hedge_submit_def
    hedge_cancel_def
  by (intro total)+

lemma returns_calm [total]:
  assumes "calm V"
  shows "returns (attempt (v_salt V))" "returns (clob_submit V r t)" "returns (clob_cancel V i)"
  using assms unfolding clob_submit_def clob_cancel_def
  by (auto simp: calm_def intro!: total returns_attempt returns_call)

lemma returns_build_order [total]:
  "calm V \<Longrightarrow> parse_token_id token = Inr v \<Longrightarrow> returns (build_order V token m t ex fee sd)"
  unfolding build_order_def by (auto intro!: total)

text \<open>A constant venue for concrete runs: every call succeeds, clocks stand at \<open>t\<close> nanoseconds.\<close>

definition still_venue :: "int \<Rightarrow> unit venue" where
  "still_venue t =
     \<lparr>v_system_ns = (\<lambda>w. (t, w)), v_steady_ns = (\<lambda>w. (t, w)),
      v_salt = (\<lambda>w. (Inr (replicate 32 9), w)), v_wallet = replicate 20 1,
      v_sign = (\<lambda>d w. (Inr (replicate 65 0), w)),
      v_submit = (\<lambda>r g k w. (Inr \<lparr>sr_success = True, sr_order_id = ''p1'', sr_error = []\<rparr>, w)),
      v_cancel = (\<lambda>i w. (Inr True, w)),
      v_status = (\<lambda>i w. (\<lparr>os_state = OPEN, os_size_matched = Fin 0, os_avg_price = Fin 0\<rparr>, w)),
      v_hedge = (\<lambda>sd q p w. (\<lparr>hr_success = True, hr_order_id = ''h1'', hr_executed_qty = q,
                   hr_avg_price = p, hr_error = []\<rparr>, w)),
      v_hedge_cancel = (\<lambda>i w. (True, w))\<rparr>"

lemma calm_still [simp]: "calm (still_venue t)"
  by (simp add: calm_def still_venue_def)

lemma token_7: "parse_token_id ''7'' = Inr (u64_to_uint256 7)"
  unfolding parse_token_id_iff
  by (auto simp: be_nat_u64 is_digit_def dec_val_def digit_val_def)

end
