(* ===== verification/Sizing.thy ===== *)
theory Sizing
  imports Constants
begin

text \<open>
  Position sizing, \<open>src/risk/sizing.hpp\<close>: \<open>kelly_size_usdc\<close> and \<open>hedge_btc_qty\<close>, with the
  hard caps and the smallest hedge that can be placed.
\<close>

definition kelly_size_usdc :: "f64 \<Rightarrow> f64 \<Rightarrow> amount \<Rightarrow> amount \<Rightarrow> amount" where
  "kelly_size_usdc p_true p_market bankroll current_exposure =
     (let edge = fsub p_true p_market
      in if fle edge (Fin 0) then amount_zero
      else let odds = fdiv (fsub (Fin 1) p_market) (fmax p_market (lit (1 / 10 ^ 9)));
               f = fmul (fdiv edge odds) KELLY_FRACTION;
               size = fmul f (to_double bankroll);
               room = amount_abs (amount_sub MAX_TOTAL_EXPOSURE_USDC current_exposure)
           in if current_exposure \<ge> MAX_TOTAL_EXPOSURE_USDC then amount_zero
              else from_double
                (fclamp size (Fin 0) (fmin (to_double MAX_TRADE_USDC) (to_double room))))"

definition hedge_btc_qty :: "amount \<Rightarrow> f64 \<Rightarrow> amount \<Rightarrow> f64" where
  "hedge_btc_qty usdc_notional btc_price bankroll =
     (if fle btc_price (Fin 0) \<or> is_zero usdc_notional then Fin 0
      else let max_usdc = fmul MAX_HEDGE_FRACTION (to_double bankroll);
               capped = fmin (to_double usdc_notional) max_usdc
           in fdiv capped btc_price)"

lemma to_double_not_NaN [simp]: "to_double a \<noteq> NaN"
  unfolding to_double_def f64_scale
  by (cases "f64_of_int (raw a)") (auto simp: f64_of_int_def signed_inf_def)

lemma to_double_mono: "a \<le> b \<Longrightarrow> fle (to_double a) (to_double b)"
  unfolding to_double_def f64_scale less_eq_amount_def
  by (intro fdiv_fle_mono f64_of_int_mono) simp_all

lemma to_double_zero [simp]: "to_double amount_zero = Fin 0"
  unfolding to_double_def f64_scale by (simp add: f64_of_int_def)

lemma to_double_nonneg: "0 \<le> raw a \<Longrightarrow> fle (Fin 0) (to_double a)"
  using to_double_mono [of amount_zero a] by (simp add: less_eq_amount_def)

text \<open>A clamped double converted to an amount lies between the converted limits, NaN included.\<close>

lemma from_double_clamp:
  assumes "fle (Fin 0) hi"
  shows "amount_zero \<le> from_double (fclamp v (Fin 0) hi)"
    and "from_double (fclamp v (Fin 0) hi) \<le> from_double hi"
proof -
  have z: "from_double (Fin 0) = amount_zero"
    by (simp add: from_double_def i64_of_f64_def amount_zero_def saturate_def i64_min_def i64_max_def)
  have hi0: "amount_zero \<le> from_double hi" using from_double_mono [OF assms] by (simp add: z)
  show "amount_zero \<le> from_double (fclamp v (Fin 0) hi)"
  proof (cases "v = NaN")
    case False
    then show ?thesis using fclamp_bounds [OF False assms] from_double_mono [of "Fin 0"] by (simp add: z)
  qed (simp add: fclamp_NaN from_double_NaN)
  show "from_double (fclamp v (Fin 0) hi) \<le> from_double hi"
  proof (cases "v = NaN")
    case False
    then show ?thesis using fclamp_bounds [OF False assms] by (simp add: from_double_mono)
  qed (simp add: fclamp_NaN from_double_NaN hi0)
qed

lemma kelly_zero_or_clamped:
  "kelly_size_usdc p q b e = amount_zero
   \<or> (e < MAX_TOTAL_EXPOSURE_USDC
      \<and> (\<exists>v. kelly_size_usdc p q b e = from_double (fclamp v (Fin 0)
            (fmin (to_double MAX_TRADE_USDC)
               (to_double (amount_abs (amount_sub MAX_TOTAL_EXPOSURE_USDC e)))))))"
  unfolding kelly_size_usdc_def Let_def by (auto simp: not_le)

lemma kelly_caps:
  assumes "- (2 ^ 49) \<le> raw exposure"
  shows "0 \<le> raw (kelly_size_usdc p_true p_market bankroll exposure)
    \<and> raw (kelly_size_usdc p_true p_market bankroll exposure) \<le> 200000000
    \<and> (kelly_size_usdc p_true p_market bankroll exposure = amount_zero
       \<or> raw exposure + raw (kelly_size_usdc p_true p_market bankroll exposure) \<le> 400000000)"
proof -
  let ?k = "kelly_size_usdc p_true p_market bankroll exposure"
  let ?room = "amount_abs (amount_sub MAX_TOTAL_EXPOSURE_USDC exposure)"
  let ?hi = "fmin (to_double MAX_TRADE_USDC) (to_double ?room)"
  show ?thesis
  proof (cases "?k = amount_zero")
    case False
    with kelly_zero_or_clamped obtain v where lt: "exposure < MAX_TOTAL_EXPOSURE_USDC"
      and k: "?k = from_double (fclamp v (Fin 0) ?hi)" by blast
    have e: "raw exposure < 400000000"
      using lt by (simp add: less_amount_def MAX_TOTAL_EXPOSURE_USDC_val)
    have r: "raw ?room = 400000000 - raw exposure"
      using e assms by (subst raw_abs; subst raw_sub)
        (auto simp: MAX_TOTAL_EXPOSURE_USDC_val i64_range_def i64_min_def i64_max_def)
    have rt: "from_double (to_double ?room) = ?room"
      using e assms by (intro from_double_to_double) (simp add: r)
    have tt: "from_double (to_double MAX_TRADE_USDC) = MAX_TRADE_USDC"
      by (intro from_double_to_double) (simp add: MAX_TRADE_USDC_val)
    have hi0: "fle (Fin 0) ?hi"
      using e by (intro fmin_ge to_double_nonneg) (simp_all add: r MAX_TRADE_USDC_val)
    have "?k \<le> from_double ?hi" unfolding k by (rule from_double_clamp(2) [OF hi0])
    moreover have "from_double ?hi \<le> MAX_TRADE_USDC" "from_double ?hi \<le> ?room"
      using from_double_mono [OF fmin_le1] from_double_mono [OF fmin_le2] rt tt by (metis to_double_not_NaN)+
    moreover have "amount_zero \<le> ?k" unfolding k by (rule from_double_clamp(1) [OF hi0])
    ultimately show ?thesis by (simp add: less_eq_amount_def r MAX_TRADE_USDC_val)
  qed simp
qed




subsection \<open>The hedge quantity\<close>

lemma hedge_cap_200: "fmul MAX_HEDGE_FRACTION (Fin 200) = Fin 10"
  using fl_eqI [of 3 "720575940379279400 / 72057594037927936" 5629499534213120]
  by (simp add: MAX_HEDGE_FRACTION_val pow2_def)

lemma hedge_qty_10001: "flt (fl (10 / 10001)) (lit (1 / 1000))"
  using fl_eqI [of "- 10" "10 / 10001" 4611224895937794] fl_eqI [of "- 10" "1 / 1000" 4611686018427388]
  by (simp add: lit_def pow2_def)

lemma to_double_200: "to_double (Amount 200000000) = Fin 200"
  unfolding to_double_def f64_scale by (simp add: f64_of_int_def fl_numeral)

lemma hedge_capped:
  assumes "bankroll \<le> b" and "to_double b = Fin q" and "fmul MAX_HEDGE_FRACTION (Fin q) = Fin c"
  shows "fle (fmin (to_double n) (fmul MAX_HEDGE_FRACTION (to_double bankroll))) (Fin c)"
proof -
  have le: "fle (fmul MAX_HEDGE_FRACTION (to_double bankroll)) (Fin c)"
    using fmul_fle_mono [OF to_double_mono [OF assms(1)], of "3602879701896397 / 72057594037927936"] assms(2,3)
    by (simp add: MAX_HEDGE_FRACTION_val fmul_commute)
  then have "fmul MAX_HEDGE_FRACTION (to_double bankroll) \<noteq> NaN" by (blast dest: fle_NaN_D)
  then show ?thesis using fle_trans [OF fmin_le2 le] by simp
qed

lemma fdiv_le_of_den:
  assumes "fle x (Fin c)" and "fle (Fin d) y" and "0 < d" and "0 \<le> c"
  shows "fle (fdiv x y) (fl (c / d)) \<or> fdiv x y = NaN"
proof (cases y)
  case (Fin b)
  then have b: "d \<le> b" "0 < b" using assms by auto
  have "fle (fdiv x (Fin b)) (fdiv (Fin c) (Fin b))" using assms(1) b by (intro fdiv_fle_mono)
  also have "fdiv (Fin c) (Fin b) = fl (c / b)" using b by simp
  also have "fle \<dots> (fl (c / d))" using b assms by (intro fl_mono divide_left_mono) auto
  finally show ?thesis using Fin by simp
next
  case PInf
  have "fle (Fin 0) (fl (c / d))" using fl_mono [of 0 "c / d"] assms by simp
  then show ?thesis using PInf assms(1) by (cases x) (auto simp: signed_inf_def)
qed (use assms in auto)

lemma fdiv_finite_num: "fle (Fin d) y \<Longrightarrow> 0 < d \<Longrightarrow> x \<noteq> NaN \<Longrightarrow> x \<noteq> PInf \<Longrightarrow> x \<noteq> NInf \<Longrightarrow> fdiv x y \<noteq> NaN"
  by (cases x; cases y) (auto simp: signed_inf_def)

text \<open>No hedge can be placed: the cap divided by the least price is below the smallest order.\<close>

lemma hedge_below_cap:
  assumes "bankroll \<le> b" "to_double b = Fin q" "fmul MAX_HEDGE_FRACTION (Fin q) = Fin c"
    and "0 \<le> c" "0 < d" "flt (fl (c / d)) (lit (1 / 1000))"
    and "0 \<le> raw notional" and "0 \<le> raw bankroll" and "fle (Fin d) btc_price"
  shows "flt (hedge_btc_qty notional btc_price bankroll) (lit (1 / 1000))"
proof (cases "fle btc_price (Fin 0) \<or> is_zero notional")
  case True
  have "flt (Fin 0) (lit (1 / 1000))"
    using fl_eqI [of "- 10" "1 / 1000" 4611686018427388] by (simp add: lit_def pow2_def)
  then show ?thesis using True by (simp add: hedge_btc_qty_def)
next
  case False
  let ?c = "fmin (to_double notional) (fmul MAX_HEDGE_FRACTION (to_double bankroll))"
  have le: "fle ?c (Fin c)" using assms(1-3) by (rule hedge_capped)
  have b0: "fle (Fin 0) (to_double bankroll)" using assms(8) by (rule to_double_nonneg)
  have "fle (Fin 0) (fmul MAX_HEDGE_FRACTION (to_double bankroll))"
    using fmul_fle_mono [OF b0, of "3602879701896397 / 72057594037927936"]
    by (simp add: MAX_HEDGE_FRACTION_val fmul_commute)
  then have "fle (Fin 0) ?c" using to_double_nonneg [OF assms(7)] by (intro fmin_ge)
  with le have "?c \<noteq> NaN" "?c \<noteq> PInf" "?c \<noteq> NInf" by auto
  then have nn: "fdiv ?c btc_price \<noteq> NaN" using assms(5,9) by (intro fdiv_finite_num [of d]) auto
  have "fle (fdiv ?c btc_price) (fl (c / d))"
    using fdiv_le_of_den [OF le assms(9,5,4)] nn by auto
  then show ?thesis using False assms(6) by (auto simp: hedge_btc_qty_def Let_def intro: fle_flt_trans)
qed

lemma hedge_below_minimum:
  assumes "raw bankroll \<le> 200000000" and "0 \<le> raw notional" and "0 \<le> raw bankroll"
    and "fle (Fin 10001) btc_price"
  shows "flt (hedge_btc_qty notional btc_price bankroll) (lit (1 / 1000))"
  using assms hedge_qty_10001
  by (intro hedge_below_cap [OF _ to_double_200 hedge_cap_200, of _ 10001]) (simp_all add: less_eq_amount_def)

text \<open>The same for the default bankroll of the backtest.\<close>

lemma hedge_below_minimum_1000:
  assumes "0 \<le> raw notional" and "fle (Fin 50001) btc_price"
  shows "flt (hedge_btc_qty notional btc_price (Amount 1000000000)) (lit (1 / 1000))"
proof -
  have "to_double (Amount 1000000000) = Fin 1000"
    unfolding to_double_def f64_scale by (simp add: f64_of_int_def fl_numeral)
  moreover have "fmul MAX_HEDGE_FRACTION (Fin 1000) = Fin 50"
    using fl_eqI [of 5 "3602879701896397000 / 72057594037927936" 7036874417766400]
    by (simp add: MAX_HEDGE_FRACTION_val pow2_def)
  moreover have "flt (fl (50 / 50001)) (lit (1 / 1000))"
    using fl_eqI [of "- 10" "50 / 50001" 4611593786551657] fl_eqI [of "- 10" "1 / 1000" 4611686018427388]
    by (simp add: lit_def pow2_def)
  ultimately show ?thesis using assms
    by (intro hedge_below_cap [of "Amount 1000000000" "Amount 1000000000" 1000 50 50001]) simp_all
qed

end
