(* ===== verification/Position_Manager.thy ===== *)
theory Position_Manager
  imports Shared_State Sizing
begin

text \<open>
  The position manager, \<open>src/execution/position_manager.hpp\<close> and \<open>position_manager.cpp\<close>: the open
  two-leg position, its profit in micro-USDC and the exit conditions in their order of priority.
\<close>

datatype exit_reason = NONE | HARD_STOP | TRAILING_STOP | EARLY_EXIT | RESOLUTION

record entry_data =
  entry_price_poly :: f64
  shares :: f64
  hedge_entry_btc :: f64
  hedge_qty_btc :: f64
  initial_edge_value :: amount
  poly_order_id :: string
  coinbase_order_id :: string
  is_yes_long :: bool

definition empty_entry :: entry_data where
  "empty_entry =
     \<lparr>entry_price_poly = Fin 0, shares = Fin 0, hedge_entry_btc = Fin 0, hedge_qty_btc = Fin 0,
      initial_edge_value = amount_zero, poly_order_id = [], coinbase_order_id = [],
      is_yes_long = False\<rparr>"

record position_manager =
  is_open :: bool
  data :: entry_data
  peak_pnl :: amount
  trailing_active :: bool

definition new_position_manager :: position_manager where
  "new_position_manager =
     \<lparr>is_open = False, data = empty_entry, peak_pnl = amount_zero, trailing_active = False\<rparr>"

definition pm_open :: "entry_data \<Rightarrow> position_manager \<Rightarrow> position_manager" where
  "pm_open d pm = pm\<lparr>data := d, peak_pnl := amount_zero, trailing_active := False, is_open := True\<rparr>"

definition pm_close :: "position_manager \<Rightarrow> position_manager" where
  "pm_close pm = pm\<lparr>is_open := False, trailing_active := False, peak_pnl := amount_zero\<rparr>"

definition combined_pnl_usdc :: "shared_state \<Rightarrow> position_manager \<Rightarrow> amount" where
  "combined_pnl_usdc sh pm =
     (if \<not> is_open pm then amount_zero
      else let d = data pm;
               poly_exit = (if is_yes_long d then poly_best_bid sh
                            else fsub (Fin 1) (poly_best_ask sh));
               poly_pnl = fmul (fsub poly_exit (entry_price_poly d)) (shares d);
               coinbase_pnl = fmul (fsub (hedge_entry_btc d) (btc_mid sh)) (hedge_qty_btc d)
           in from_double (fadd poly_pnl coinbase_pnl))"

definition hard_stop :: "position_manager \<Rightarrow> amount" where
  "hard_stop pm = from_double (fmul HARD_STOP_MULTIPLE (to_double (initial_edge_value (data pm))))"

definition trailing_trigger :: "position_manager \<Rightarrow> amount" where
  "trailing_trigger pm =
     from_double (fmul TRAILING_PROFIT_TRIGGER (to_double (initial_edge_value (data pm))))"

definition trailing_floor :: "amount \<Rightarrow> amount" where
  "trailing_floor peak = from_double (fmul (to_double peak) (fsub (Fin 1) TRAILING_STOP_FRACTION))"

definition pm_evaluate :: "shared_state \<Rightarrow> position_manager \<Rightarrow> exit_reason \<times> position_manager" where
  "pm_evaluate sh pm =
     (if \<not> is_open pm then (NONE, pm)
      else let pnl = combined_pnl_usdc sh pm
           in if pnl < hard_stop pm then (HARD_STOP, pm)
              else let pm1 = (if \<not> trailing_active pm \<and> trailing_trigger pm \<le> pnl
                              then pm\<lparr>trailing_active := True\<rparr> else pm);
                       pm2 = (if trailing_active pm1 \<and> peak_pnl pm1 < pnl
                              then pm1\<lparr>peak_pnl := pnl\<rparr> else pm1)
                   in if trailing_active pm2 \<and> is_positive (peak_pnl pm2)
                         \<and> pnl < trailing_floor (peak_pnl pm2)
                      then (TRAILING_STOP, pm2)
                      else if amount_zero \<le> pnl then (EARLY_EXIT, pm2) else (NONE, pm2))"

subsection \<open>Decision table\<close>

lemma pm_evaluate_closed: "\<not> is_open pm \<Longrightarrow> pm_evaluate sh pm = (NONE, pm)"
  by (simp add: pm_evaluate_def)

lemma pm_evaluate_keeps: "pm_evaluate sh pm = (r, pm') \<Longrightarrow> data pm' = data pm \<and> is_open pm' = is_open pm"
  by (auto simp: pm_evaluate_def Let_def split: if_splits)

lemma pm_evaluate_hard_stop:
  "is_open pm \<Longrightarrow> fst (pm_evaluate sh pm) = HARD_STOP \<longleftrightarrow> combined_pnl_usdc sh pm < hard_stop pm"
  by (simp add: pm_evaluate_def Let_def)

lemma pm_evaluate_none:
  "is_open pm \<Longrightarrow> fst (pm_evaluate sh pm) = NONE \<Longrightarrow>
     hard_stop pm \<le> combined_pnl_usdc sh pm \<and> combined_pnl_usdc sh pm < amount_zero"
  by (auto simp: pm_evaluate_def Let_def not_less not_le split: if_splits)

lemma not_positive_le_zero: "\<not> is_positive a \<longleftrightarrow> a \<le> amount_zero"
  by (simp add: is_positive_def less_eq_amount_def not_less)

lemma trailing_keep_fraction: "\<exists>c. fsub (Fin 1) TRAILING_STOP_FRACTION = fl c \<and> 0 \<le> c \<and> c \<le> 1"
proof -
  have "TRAILING_STOP_FRACTION = Fin (5404319552844595 / 18014398509481984)"
    using fl_eqI [of "- 2" "3 / 10" 5404319552844595]
    by (simp add: TRAILING_STOP_FRACTION_def lit_def pow2_def)
  moreover have "fsub (Fin 1) (Fin x) = fl (1 - x)" for x by (simp add: fsub_def)
  moreover have "1 - 5404319552844595 / 18014398509481984 = (12610078956637389 / 18014398509481984 :: rat)"
    by simp
  ultimately have "fsub (Fin 1) TRAILING_STOP_FRACTION = fl (12610078956637389 / 18014398509481984)"
    by metis
  then show ?thesis
    by (intro exI [of _ "12610078956637389 / 18014398509481984"] conjI) simp_all
qed

lemma fl_idem: "fl x = Fin q \<Longrightarrow> fl q = Fin q"
  by (auto simp: fl_def split: if_splits)

lemma to_double_exact: "to_double a = Fin q \<Longrightarrow> fl q = Fin q"
  unfolding to_double_def f64_scale
  by (cases "f64_of_int (raw a)") (auto simp: signed_inf_def intro: fl_idem)

lemma fmul_le_self:
  assumes "0 \<le> q" and "fle (Fin 0) y" and "fle y (Fin 1)"
  shows "fle (fmul (Fin q) y) (fl q)"
proof (cases y)
  case (Fin c)
  then have "q * c \<le> q" using assms by (simp add: mult_left_le)
  then show ?thesis using Fin by (simp add: fl_mono)
qed (use assms in auto)

lemma to_double_finite:
  assumes "0 \<le> raw p" and "raw p \<le> 2 ^ 50"
  shows "\<exists>q. to_double p = Fin q \<and> 0 \<le> q"
proof -
  have "to_double p = Fin (rnd (of_int (raw p) / 1000000))"
    unfolding to_double_def f64_scale using assms by (intro fl_micro_units(1)) simp
  moreover have "0 \<le> rnd (of_int (raw p) / 1000000)" using assms(1) by (intro rnd_nonneg divide_nonneg_nonneg) (simp_all only: of_int_0_le_iff zero_le_numeral)
  ultimately show ?thesis by blast
qed

text \<open>The floor under a positive peak is never above the peak.\<close>

lemma trailing_floor_le:
  assumes "0 < raw p" and "raw p \<le> 2 ^ 50"
  shows "trailing_floor p \<le> p"
proof -
  obtain c where c: "fsub (Fin 1) TRAILING_STOP_FRACTION = fl c" "0 \<le> c" "c \<le> 1"
    using trailing_keep_fraction by blast
  have c1: "fle (Fin 0) (fl c)" "fle (fl c) (Fin 1)"
    using fl_mono [OF c(2)] fl_mono [OF c(3)] by simp_all
  obtain q where q: "to_double p = Fin q" "0 \<le> q"
    using to_double_finite assms by (metis less_imp_le)
  have "fle (fmul (to_double p) (fl c)) (to_double p)"
    using fmul_le_self [OF q(2) c1] to_double_exact [OF q(1)] q(1) by simp
  from from_double_mono [OF this]
  show ?thesis using from_double_to_double [of p] assms by (simp add: trailing_floor_def c(1))
qed


subsection \<open>The trailing stop under the caller's policy\<close>

text \<open>
  The order state machine evaluates the position again only while the answer was \<open>NONE\<close>.
  \<open>pm_poll shs pm\<close> is the first answer other than \<open>NONE\<close> over a list of market snapshots.
\<close>

fun pm_poll :: "shared_state list \<Rightarrow> position_manager \<Rightarrow> exit_reason \<times> position_manager" where
  "pm_poll [] pm = (NONE, pm)"
| "pm_poll (sh # shs) pm =
     (case pm_evaluate sh pm of (r, pm') \<Rightarrow> if r = NONE then pm_poll shs pm' else (r, pm'))"

lemma pm_evaluate_fresh:
  assumes "\<not> is_positive (peak_pnl pm)" and "raw (combined_pnl_usdc sh pm) \<le> 2 ^ 50"
    and "pm_evaluate sh pm = (r, pm')"
  shows "r \<noteq> TRAILING_STOP \<and> (r = NONE \<longrightarrow> \<not> is_positive (peak_pnl pm') \<and> data pm' = data pm \<and> is_open pm' = is_open pm)"
proof -
  let ?pnl = "combined_pnl_usdc sh pm"
  have fl: "is_positive ?pnl \<Longrightarrow> \<not> ?pnl < trailing_floor ?pnl"
    using trailing_floor_le [of ?pnl] assms(2) by (simp add: is_positive_def not_less)
  have np: "\<not> amount_zero \<le> ?pnl \<Longrightarrow> \<not> is_positive ?pnl"
    by (simp add: not_positive_le_zero)
  show ?thesis
    using assms(1,3) fl np by (auto simp: pm_evaluate_def Let_def split: if_splits)
qed

lemma pm_poll_fresh:
  "\<not> is_positive (peak_pnl pm) \<Longrightarrow>
     (\<And>sh q. sh \<in> set shs \<Longrightarrow> data q = data pm \<Longrightarrow> raw (combined_pnl_usdc sh q) \<le> 2 ^ 50) \<Longrightarrow>
     fst (pm_poll shs pm) \<noteq> TRAILING_STOP"
proof (induction shs arbitrary: pm)
  case (Cons sh shs)
  obtain r pm' where e: "pm_evaluate sh pm = (r, pm')" by (cases "pm_evaluate sh pm") blast
  from pm_evaluate_fresh [OF Cons.prems(1) _ e] Cons.prems(2)
  have f: "r \<noteq> TRAILING_STOP" "r = NONE \<Longrightarrow> \<not> is_positive (peak_pnl pm')" "r = NONE \<Longrightarrow> data pm' = data pm"
    by auto
  show ?case
  proof (cases "r = NONE")
    case True
    then show ?thesis using Cons.IH [of pm'] Cons.prems(2) f e by simp
  qed (use f e in simp)
qed simp

text \<open>
  C27. The trailing stop is dead code under the caller's policy of closing at the first
  exit reason: from a freshly opened position, whatever entry data and whatever sequence of market
  snapshots (with profits below 2^50 micro-USDC), the first exit is never \<open>TRAILING_STOP\<close>, because a
  positive profit already exits as \<open>EARLY_EXIT\<close> before any retracement can be seen.
\<close>

theorem trailing_stop_never_fires:
  assumes "\<And>sh q. sh \<in> set shs \<Longrightarrow> data q = d \<Longrightarrow> raw (combined_pnl_usdc sh q) \<le> 2 ^ 50"
  shows "fst (pm_poll shs (pm_open d pm)) \<noteq> TRAILING_STOP"
  using pm_poll_fresh [of "pm_open d pm" shs] assms
  by (simp add: pm_open_def is_positive_def)

text \<open>
  The exit decision of an open position: a hard stop exactly when the profit is below the
  hard-stop level; otherwise never holding a position with a non-negative profit, and holding
  (\<open>NONE\<close>) implies a loss between the hard-stop level and zero; the position data never changes.
\<close>

theorem exit_decision_table:
  assumes "is_open pm" and "pm_evaluate sh pm = (r, pm')"
  shows "(r = HARD_STOP \<longleftrightarrow> combined_pnl_usdc sh pm < hard_stop pm)
    \<and> (r = NONE \<longrightarrow> hard_stop pm \<le> combined_pnl_usdc sh pm \<and> combined_pnl_usdc sh pm < amount_zero)
    \<and> r \<noteq> RESOLUTION \<and> data pm' = data pm \<and> is_open pm'"
  using pm_evaluate_hard_stop [OF assms(1), of sh] pm_evaluate_none [OF assms(1), of sh] assms
    pm_evaluate_keeps [OF assms(2)]
  by (auto simp: pm_evaluate_def Let_def split: if_splits)

definition sample_position :: position_manager where
  "sample_position =
     pm_open (empty_entry\<lparr>shares := Fin 2, entry_price_poly := lit (1 / 2), is_yes_long := True\<rparr>)
       new_position_manager"

theorem exit_decision_table_witness:
  "\<exists>r pm'. pm_evaluate initial_shared sample_position = (r, pm') \<and> r \<noteq> RESOLUTION \<and> is_open pm'"
proof -
  obtain r pm' where e: "pm_evaluate initial_shared sample_position = (r, pm')"
    by (cases "pm_evaluate initial_shared sample_position") blast
  have "is_open sample_position" by (simp add: sample_position_def pm_open_def)
  from exit_decision_table [OF this e] e show ?thesis by blast
qed

theorem trailing_stop_never_fires_witness:
  "fst (pm_poll [initial_shared] (pm_open empty_entry new_position_manager)) \<noteq> TRAILING_STOP"
proof (rule trailing_stop_never_fires)
  fix sh and q :: position_manager
  assume "sh \<in> set [initial_shared]" and "data q = empty_entry"
  moreover have "fmul (fsub (fsub (Fin 1) (lit (1 / 2))) (Fin 0)) (Fin 0) = Fin 0" by code_simp
  ultimately show "raw (combined_pnl_usdc sh q) \<le> 2 ^ 50"
    by (simp add: combined_pnl_usdc_def empty_entry_def Let_def initial_shared_def fsub_def
        from_double_def i64_of_f64_def saturate_def i64_min_def i64_max_def)
qed

end
