(* ===== verification/Taker_Arm.thy ===== *)
theory Taker_Arm
  imports Venue Position_Manager
begin

text \<open>
  The taker arm, \<open>src/execution/taker_arm.hpp\<close> and \<open>taker_arm.cpp\<close>: one two-leg entry (Polymarket
  IOC order, then the Coinbase hedge) with the unwinding of a leg left alone, and the cooldown
  between entries.
\<close>

record taker_config =
  tc_token_id :: string
  tc_strike_price :: f64
  tc_is_above :: bool

datatype taker_result = SUCCESS | SKIPPED | LEG_FAIL | ERROR

record 'w taker_env = "'w env" +
  last_entry :: int

definition MIN_TAKER_INTERVAL_MS :: int where
  "MIN_TAKER_INTERVAL_MS = cast_int i64_min i64_max (fmul MIN_TAKER_INTERVAL_S (lit 1000))"

definition in_cooldown :: "'w venue \<Rightarrow> (('w, 'z) taker_env_scheme, bool) prog" where
  "in_cooldown V =
     bind (gets last_entry) (\<lambda>l.
       if l = 0 then ret False
       else bind (steady_now V) (\<lambda>now. ret ((now - l) sdiv 1000000 < MIN_TAKER_INTERVAL_MS)))"

definition reset_cooldown :: "(('w, 'z) taker_env_scheme, unit) prog" where
  "reset_cooldown = modify (\<lambda>s. s\<lparr>last_entry := 0\<rparr>)"

definition cast_u64 :: "f64 \<Rightarrow> u64" where
  "cast_u64 x = word_of_int (cast_int 0 u64_max x)"

definition u64_double :: "u64 \<Rightarrow> f64" where
  "u64_double w = f64_of_int (uint w)"

text \<open>Shares bought for an amount at a price: \<open>(uint64_t)((double)units / price)\<close>.\<close>

definition shares_at :: "amount \<Rightarrow> f64 \<Rightarrow> u64" where
  "shares_at a price = cast_u64 (fdiv (f64_of_int (raw a)) price)"

definition unwind_order :: "order \<Rightarrow> uint256 \<Rightarrow> u64 \<Rightarrow> int \<Rightarrow> order" where
  "unwind_order r sl n now_s =
     r\<lparr>salt := sl, side := 1, makerAmount := takerAmount r, takerAmount := makerAmount r,
       nonce := u64_to_uint256 n, expiration := u64_to_uint256 (word_of_int (now_s + 5))\<rparr>"

definition unwind_poly :: "'w venue \<Rightarrow> order \<Rightarrow> int \<Rightarrow> (('w, 'z) env_scheme, unit) prog" where
  "unwind_poly V r now_s =
     bind (attempt (v_salt V)) (\<lambda>sl.
     bind nonce_next (\<lambda>n.
     bind (clob_submit V (unwind_order r sl n now_s) ''FOK'') (\<lambda>_. skip)))"

definition unwind_hedge :: "'w venue \<Rightarrow> bool \<Rightarrow> hedge_result \<Rightarrow> (('w, 'z) env_scheme, unit) prog" where
  "unwind_hedge V up cb =
     bind (hedge_cancel V (hr_order_id cb)) (\<lambda>_.
     bind (hedge_submit V (if up then ''BUY'' else ''SELL'') (hr_executed_qty cb) (Fin 0)) (\<lambda>_. skip))"

definition hedge_filled :: "hedge_result \<Rightarrow> f64 \<Rightarrow> bool" where
  "hedge_filled cb qty \<longleftrightarrow> hr_success cb \<and> fle (fmul qty (lit (99 / 100))) (hr_executed_qty cb)"

definition hedge_limit :: "bool \<Rightarrow> f64 \<Rightarrow> f64" where
  "hedge_limit up btc =
     fmul btc (if up then fsub (Fin 1) (lit (1 / 1000)) else fadd (Fin 1) (lit (1 / 1000)))"

definition taker_entry ::
  "f64 \<Rightarrow> f64 \<Rightarrow> f64 \<Rightarrow> f64 \<Rightarrow> amount \<Rightarrow> u64 \<Rightarrow> u64 \<Rightarrow> submit_result \<Rightarrow> hedge_result \<Rightarrow> entry_data" where
  "taker_entry p_t p_m btc poly_ask usdc_size maker_raw taker_raw pr cb =
     \<lparr>entry_price_poly =
        (if 0 < taker_raw then fdiv (u64_double maker_raw) (u64_double taker_raw) else poly_ask),
      shares = fdiv (u64_double taker_raw) (lit 1000000),
      hedge_entry_btc = (if flt (Fin 0) (hr_avg_price cb) then hr_avg_price cb else btc),
      hedge_qty_btc = hr_executed_qty cb,
      initial_edge_value = from_double (fmul (fsub p_t p_m) (to_double usdc_size)),
      poly_order_id = sr_order_id pr,
      coinbase_order_id = hr_order_id cb,
      is_yes_long = True\<rparr>"

text \<open>The outcome of the two legs, from \<open>// ---- Handle leg outcomes ----\<close> on.\<close>

definition settle_legs ::
  "'w venue \<Rightarrow> bool \<Rightarrow> f64 \<Rightarrow> entry_data \<Rightarrow> order \<Rightarrow> int \<Rightarrow> entry_data \<Rightarrow> submit_result \<Rightarrow> hedge_result
     \<Rightarrow> (('w, 'z) taker_env_scheme, taker_result \<times> entry_data) prog" where
  "settle_legs V up hedge_qty filled r now_s entry pr cb =
     (let poly_filled = sr_order_id pr \<noteq> []; coinbase_filled = hedge_filled cb hedge_qty
      in if \<not> poly_filled \<and> \<not> coinbase_filled then ret (LEG_FAIL, entry)
         else if poly_filled \<and> \<not> coinbase_filled
         then andthen (unwind_poly V r now_s) (ret (LEG_FAIL, entry))
         else if \<not> poly_filled \<and> coinbase_filled
         then andthen (unwind_hedge V up cb) (ret (LEG_FAIL, entry))
         else bind (steady_now V) (\<lambda>now.
              andthen (modify (\<lambda>s. s\<lparr>last_entry := now\<rparr>)) (ret (SUCCESS, filled))))"

text \<open>Both legs: the part of \<open>fire\<close> after the sizes are known.\<close>

definition fire_legs ::
  "'w venue \<Rightarrow> taker_config \<Rightarrow> shared_state \<Rightarrow> amount \<Rightarrow> f64 \<Rightarrow> entry_data
     \<Rightarrow> (('w, 'z) taker_env_scheme, taker_result \<times> entry_data) prog" where
  "fire_legs V cfg sh usdc_size hedge_qty entry =
     (let btc = btc_mid sh; up = tc_is_above cfg;
          maker_raw = poly_units usdc_size; taker_raw = shares_at usdc_size (poly_best_ask sh)
      in bind (system_seconds V) (\<lambda>now_s.
         bind (build_order V (tc_token_id cfg) maker_raw taker_raw (now_s + IOC_EXPIRY_SECONDS)
                 TAKER_FEE_RATE_BPS 0) (\<lambda>r.
         bind (clob_submit V r ''IOC'') (\<lambda>pr.
         if \<not> sr_success pr then ret (ERROR, entry)
         else bind (hedge_submit V (if up then ''SELL'' else ''BUY'') hedge_qty (hedge_limit up btc)) (\<lambda>cb.
           settle_legs V up hedge_qty
             (taker_entry (p_true sh) (p_market sh) btc (poly_best_ask sh) usdc_size
                maker_raw taker_raw pr cb) r now_s entry pr cb)))))"

definition fire ::
  "'w venue \<Rightarrow> taker_config \<Rightarrow> amount \<Rightarrow> amount \<Rightarrow> entry_data
     \<Rightarrow> (('w, 'z) taker_env_scheme, taker_result \<times> entry_data) prog" where
  "fire V cfg bankroll exposure entry =
     bind (gets ss) (\<lambda>sh.
       let usdc_size = kelly_size_usdc (p_true sh) (p_market sh) bankroll exposure;
           hedge_qty = hedge_btc_qty usdc_size (btc_mid sh) bankroll;
           poly_ask = poly_best_ask sh
       in if usdc_size < from_double (lit 1) then ret (SKIPPED, entry)
          else if flt hedge_qty (lit (1 / 1000)) then ret (SKIPPED, entry)
          else if fle poly_ask (Fin 0) \<or> fle (Fin 1) poly_ask then ret (ERROR, entry)
          else if (if flt (Fin 0) poly_ask then shares_at usdc_size poly_ask else 0) = 0
          then ret (ERROR, entry)
          else fire_legs V cfg sh usdc_size hedge_qty entry)"

subsection \<open>The hard-coded cooldown\<close>

lemma MIN_TAKER_INTERVAL_MS_val [num_simps]: "MIN_TAKER_INTERVAL_MS = 30000"
  by (simp add: MIN_TAKER_INTERVAL_MS_def MIN_TAKER_INTERVAL_S_def lit_numeral fl_numeral
      saturate_def i64_min_def i64_max_def)

lemma in_cooldown_run:
  "in_cooldown V s =
     (if last_entry s = 0 then (Inr False, s)
      else case v_steady_ns V (world s) of (now, w) \<Rightarrow>
        (Inr ((now - last_entry s) sdiv 1000000 < 30000), s\<lparr>world := w\<rparr>))"
  by (simp add: in_cooldown_def prog_defs steady_now_def observe_def MIN_TAKER_INTERVAL_MS_val
      split: prod.splits)

subsection \<open>The calls of one entry attempt\<close>

text \<open>
  \<open>sells_back r u\<close>: \<open>u\<close> sells exactly what order \<open>r\<close> bought, the same token with the two amounts
  exchanged.
\<close>

definition sells_back :: "order \<Rightarrow> order \<Rightarrow> bool" where
  "sells_back r u \<longleftrightarrow>
     side u = 1 \<and> tokenId u = tokenId r \<and> makerAmount u = takerAmount r
     \<and> takerAmount u = makerAmount r \<and> maker u = maker r"

definition open_side :: "bool \<Rightarrow> string" where
  "open_side up = (if up then ''SELL'' else ''BUY'')"

definition close_side :: "bool \<Rightarrow> string" where
  "close_side up = (if up then ''BUY'' else ''SELL'')"

text \<open>What the two legs did, as a function of the two fills.\<close>

definition leg_calls :: "bool \<Rightarrow> f64 \<Rightarrow> f64 \<Rightarrow> taker_result \<Rightarrow> event list \<Rightarrow> bool" where
  "leg_calls up qty px res cs \<longleftrightarrow>
     (\<exists>r pr. cs = [Submit r ''IOC'' (Inr pr)] \<and> \<not> sr_success pr \<and> res = ERROR)
     \<or> (\<exists>r pr cb rest. cs = Submit r ''IOC'' (Inr pr) # Hedge (open_side up) qty px cb # rest
        \<and> sr_success pr
        \<and> (if sr_order_id pr \<noteq> [] \<and> hedge_filled cb qty then res = SUCCESS \<and> rest = []
           else res = LEG_FAIL \<and>
             (if sr_order_id pr \<noteq> [] then (\<exists>u x. rest = [Submit u ''FOK'' (Inr x)] \<and> sells_back r u)
              else if hedge_filled cb qty
              then (\<exists>b x. rest = [HedgeCancel (hr_order_id cb) b,
                                 Hedge (close_side up) (hr_executed_qty cb) (Fin 0) x])
              else rest = [])))"

lemma unwind_poly_run:
  "unwind_poly V r now_s s = (Inr x, s') \<Longrightarrow>
     \<exists>u z. calls s' = calls s @ [Submit u ''FOK'' (Inr z)] \<and> sells_back r u"
  unfolding unwind_poly_def nonce_next_def
  by (elim bind_InrE) (fastforce simp: sells_back_def unwind_order_def dest!: attempt_run clob_submit_run)

lemma unwind_hedge_run:
  "unwind_hedge V up cb s = (Inr x, s') \<Longrightarrow>
     \<exists>b z. calls s' = calls s @ [HedgeCancel (hr_order_id cb) b,
       Hedge (close_side up) (hr_executed_qty cb) (Fin 0) z]"
  unfolding unwind_hedge_def close_side_def
  by (elim bind_InrE) (fastforce dest!: hedge_cancel_run hedge_submit_run)

lemma settle_legs_run:
  assumes "settle_legs V up qty filled r now_s entry pr cb s = (Inr (res, entry'), s')"
    and "calls s = c @ [Submit r ''IOC'' (Inr pr), Hedge (open_side up) qty px cb]" and "sr_success pr"
  shows "(\<exists>cs. calls s' = c @ cs \<and> leg_calls up qty px res cs)
    \<and> (if res = SUCCESS then entry' = filled else entry' = entry)"
proof -
  consider "sr_order_id pr = []" "\<not> hedge_filled cb qty" "res = LEG_FAIL" "entry' = entry" "s' = s"
    | z u where "sr_order_id pr \<noteq> []" "\<not> hedge_filled cb qty" "res = LEG_FAIL" "entry' = entry"
        "calls s' = calls s @ [Submit u ''FOK'' (Inr z)]" "sells_back r u"
    | z b where "sr_order_id pr = []" "hedge_filled cb qty" "res = LEG_FAIL" "entry' = entry"
        "calls s' = calls s @ [HedgeCancel (hr_order_id cb) b, Hedge (close_side up) (hr_executed_qty cb) (Fin 0) z]"
    | "sr_order_id pr \<noteq> []" "hedge_filled cb qty" "res = SUCCESS" "entry' = filled" "calls s' = calls s"
  proof (cases "sr_order_id pr = []"; cases "hedge_filled cb qty")
    assume "sr_order_id pr \<noteq> []" "hedge_filled cb qty"
    then show thesis using assms(1) that(4)
      by (auto simp: settle_legs_def Let_def elim!: bind_InrE andthen_InrE dest!: clock_run)
  next
    assume "sr_order_id pr \<noteq> []" "\<not> hedge_filled cb qty"
    then show thesis using assms(1) that(2)
      by (auto simp: settle_legs_def Let_def elim!: andthen_InrE dest!: unwind_poly_run)
  next
    assume "sr_order_id pr = []" "hedge_filled cb qty"
    then show thesis using assms(1) that(3)
      by (auto simp: settle_legs_def Let_def elim!: andthen_InrE dest!: unwind_hedge_run)
  next
    assume "sr_order_id pr = []" "\<not> hedge_filled cb qty"
    then show thesis using assms(1) that(1) by (auto simp: settle_legs_def Let_def)
  qed
  then show ?thesis by cases (use assms(2,3) in \<open>simp_all add: leg_calls_def\<close>)
qed

lemma fire_legs_run:
  assumes "fire_legs V cfg sh usdc qty entry s = (Inr (res, entry'), s')"
  obtains now_s r pr s1 s2 s3 where
    "system_seconds V s = (Inr now_s, s1)"
    "build_order V (tc_token_id cfg) (poly_units usdc) (shares_at usdc (poly_best_ask sh))
       (now_s + IOC_EXPIRY_SECONDS) TAKER_FEE_RATE_BPS 0 s1 = (Inr r, s2)"
    "clob_submit V r ''IOC'' s2 = (Inr pr, s3)"
    "(if \<not> sr_success pr then ret (ERROR, entry)
      else bind (hedge_submit V (open_side (tc_is_above cfg)) qty (hedge_limit (tc_is_above cfg) (btc_mid sh)))
        (\<lambda>cb. settle_legs V (tc_is_above cfg) qty
           (taker_entry (p_true sh) (p_market sh) (btc_mid sh) (poly_best_ask sh) usdc
              (poly_units usdc) (shares_at usdc (poly_best_ask sh)) pr cb) r now_s entry pr cb)) s3
     = (Inr (res, entry'), s')"
  using assms unfolding fire_legs_def Let_def open_side_def by (elim bind_InrE)

lemma fire_legs_calls:
  assumes "fire_legs V cfg sh usdc qty entry s = (Inr (res, entry'), s')"
  shows "\<exists>cs. calls s' = calls s @ cs
    \<and> leg_calls (tc_is_above cfg) qty (hedge_limit (tc_is_above cfg) (btc_mid sh)) res cs"
  using assms
proof (rule fire_legs_run)
  let ?up = "tc_is_above cfg" and ?px = "hedge_limit (tc_is_above cfg) (btc_mid sh)"
  fix now_s r pr s1 s2 s3
  assume 1: "system_seconds V s = (Inr now_s, s1)"
    and 2: "build_order V (tc_token_id cfg) (poly_units usdc) (shares_at usdc (poly_best_ask sh))
       (now_s + IOC_EXPIRY_SECONDS) TAKER_FEE_RATE_BPS 0 s1 = (Inr r, s2)"
    and 3: "clob_submit V r ''IOC'' s2 = (Inr pr, s3)"
    and run: "(if \<not> sr_success pr then ret (ERROR, entry)
      else bind (hedge_submit V (open_side (tc_is_above cfg)) qty (hedge_limit (tc_is_above cfg) (btc_mid sh)))
        (\<lambda>cb. settle_legs V (tc_is_above cfg) qty
           (taker_entry (p_true sh) (p_market sh) (btc_mid sh) (poly_best_ask sh) usdc
              (poly_units usdc) (shares_at usdc (poly_best_ask sh)) pr cb) r now_s entry pr cb)) s3
     = (Inr (res, entry'), s')"
  have c3: "calls s3 = calls s @ [Submit r ''IOC'' (Inr pr)]"
    using 1 2 3 by (auto dest!: venue_runs)
  show ?thesis
  proof (cases "sr_success pr")
    case False
    then show ?thesis using run c3 by (auto simp: leg_calls_def)
  next
    case True
    with run obtain cb s4 filled where 4: "hedge_submit V (open_side ?up) qty ?px s3 = (Inr cb, s4)"
      and 5: "settle_legs V ?up qty filled r now_s entry pr cb s4 = (Inr (res, entry'), s')"
      by (auto elim: bind_InrE)
    have "calls s4 = calls s @ [Submit r ''IOC'' (Inr pr), Hedge (open_side ?up) qty ?px cb]"
      using 4 c3 by (auto dest!: hedge_submit_run)
    from settle_legs_run [OF 5 this True] show ?thesis by blast
  qed
qed


lemma returns_fire [total]:
  "calm V \<Longrightarrow> parse_token_id (tc_token_id cfg) = Inr v \<Longrightarrow> returns (fire V cfg b e entry)"
  unfolding fire_def fire_legs_def settle_legs_def unwind_poly_def unwind_hedge_def
  by (intro total) auto

definition sample_taker :: taker_config where
  "sample_taker = \<lparr>tc_token_id = ''7'', tc_strike_price = Fin 0, tc_is_above = True\<rparr>"

definition sample_taker_env :: "unit taker_env" where
  "sample_taker_env =
     \<lparr>world = (), calls = [], next_nonce = 5,
      ss = initial_shared\<lparr>p_true := lit (3 / 4), btc_mid := lit 1000\<rparr>, last_entry = 0\<rparr>"


subsection \<open>The seed bankroll\<close>

text \<open>
  With a bankroll of at most 200 USDC (the value \<open>main\<close> seeds and no code changes) and
  BTC at 10001 dollars or more, every entry attempt is \<open>SKIPPED\<close> before any venue call, whatever the edge: five
  percent of the bankroll never reaches the minimum hedge of 0.001 BTC.
\<close>

theorem taker_skips_on_seed_bankroll:
  assumes "0 \<le> raw bankroll" and "raw bankroll \<le> 200000000"
    and "fle (Fin 10001) (btc_mid (ss s))" and "- (2 ^ 49) \<le> raw exposure"
  shows "fire V cfg bankroll exposure entry s = (Inr (SKIPPED, entry), s)"
proof -
  let ?k = "kelly_size_usdc (p_true (ss s)) (p_market (ss s)) bankroll exposure"
  have "0 \<le> raw ?k" using kelly_caps [OF assms(4)] by blast
  then have "flt (hedge_btc_qty ?k (btc_mid (ss s)) bankroll) (lit (1 / 1000))"
    using assms by (intro hedge_below_minimum)
  then show ?thesis by (simp add: fire_def Let_def bind_def gets_def ret_def)
qed

theorem taker_skips_on_seed_bankroll_witness:
  "fire (still_venue 0) sample_taker (Amount 200000000) (Amount 0) empty_entry
     (sample_taker_env\<lparr>ss := initial_shared\<lparr>p_true := Fin (9 / 10), btc_mid := Fin 60000\<rparr>\<rparr>)
   = (Inr (SKIPPED, empty_entry),
      sample_taker_env\<lparr>ss := initial_shared\<lparr>p_true := Fin (9 / 10), btc_mid := Fin 60000\<rparr>\<rparr>)"
  by (rule taker_skips_on_seed_bankroll) simp_all

subsection \<open>The frame of an entry attempt\<close>

text \<open>\<open>taker_changes s s'\<close>: only the world, the calls, the nonce and the cooldown changed.\<close>

definition taker_changes :: "('w, 'z) taker_env_scheme \<Rightarrow> ('w, 'z) taker_env_scheme \<Rightarrow> bool" where
  "taker_changes s s' \<longleftrightarrow> ss s' = ss s \<and> taker_env.more s' = taker_env.more s"

lemma taker_frame_free: "env_free (\<lambda>s. ss s = a \<and> taker_env.more s = m)"
  by (simp add: env_free_def)

lemma fire_keeps: "keeps (\<lambda>s. ss s = a \<and> taker_env.more s = m) (fire V cfg b e entry)"
  unfolding fire_def fire_legs_def settle_legs_def unwind_poly_def unwind_hedge_def
  by (intro keep keeps_basic keeps_env keeps_env_basic taker_frame_free keeps_modify) simp

lemma in_cooldown_keeps: "keeps (\<lambda>s. ss s = a \<and> taker_env.more s = m) (in_cooldown V)"
  unfolding in_cooldown_def
  by (intro keep keeps_basic keeps_env keeps_env_basic taker_frame_free)

lemma fire_changes: "fire V cfg b e entry s = (Inr x, s') \<Longrightarrow> taker_changes s s'"
  using keepsD [OF fire_keeps, of s "ss s" "taker_env.more s"] by (simp add: taker_changes_def)

lemma in_cooldown_changes: "in_cooldown V s = (Inr x, s') \<Longrightarrow> taker_changes s s'"
  using keepsD [OF in_cooldown_keeps, of s "ss s" "taker_env.more s"] by (simp add: taker_changes_def)

lemma returns_in_cooldown [total]: "returns (in_cooldown V)"
  unfolding in_cooldown_def by (intro total)

end
