(* ===== verification/Maker_Arm.thy ===== *)
theory Maker_Arm
  imports Taker_Arm
begin

text \<open>
  The maker arm, \<open>src/execution/maker_arm.hpp\<close> and \<open>maker_arm.cpp\<close>: two passive quotes around a fair
  price, with requoting, timeout and fill detection.
\<close>

record maker_config =
  mc_token_id :: string
  mc_half_spread :: f64
  mc_size_usdc :: amount

datatype maker_status = ACTIVE | FILLED_BID | FILLED_ASK | TIMED_OUT | REPRICED

record 'w maker_env = "'w taker_env" +
  bid_order_id :: string
  ask_order_id :: string
  quoted_mid :: f64
  quoted_fair :: f64
  quote_time :: int

definition has_active_quotes :: "('w, 'z) maker_env_scheme \<Rightarrow> bool" where
  "has_active_quotes s \<longleftrightarrow> bid_order_id s \<noteq> [] \<or> ask_order_id s \<noteq> []"

definition maker_amounts :: "maker_config \<Rightarrow> u8 \<Rightarrow> f64 \<Rightarrow> u64 \<times> u64" where
  "maker_amounts cfg sd price =
     (let usdc = poly_units (mc_size_usdc cfg);
          sh = (if flt (Fin 0) price then shares_at (mc_size_usdc cfg) price else 0)
      in if sd = 0 then (usdc, sh) else (sh, usdc))"

definition submit_side ::
  "'w venue \<Rightarrow> maker_config \<Rightarrow> u8 \<Rightarrow> f64 \<Rightarrow> (('w, 'z) env_scheme, string option) prog" where
  "submit_side V cfg sd price =
     (let (maker_raw, taker_raw) = maker_amounts cfg sd price
      in if maker_raw = 0 \<or> taker_raw = 0 then ret None
         else bind (system_seconds V) (\<lambda>now.
              bind (build_order V (mc_token_id cfg) maker_raw taker_raw (now + 1800) MAKER_FEE_RATE_BPS sd) (\<lambda>r.
              bind (clob_submit V r ''GTC'') (\<lambda>res.
                ret (if sr_success res then Some (sr_order_id res) else None)))))"

definition cancel_bid :: "'w venue \<Rightarrow> (('w, 'z) maker_env_scheme, unit) prog" where
  "cancel_bid V =
     bind (gets bid_order_id) (\<lambda>i.
       if i \<noteq> [] then bind (clob_cancel V i) (\<lambda>_. modify (\<lambda>s. s\<lparr>bid_order_id := []\<rparr>)) else skip)"

definition cancel_ask :: "'w venue \<Rightarrow> (('w, 'z) maker_env_scheme, unit) prog" where
  "cancel_ask V =
     bind (gets ask_order_id) (\<lambda>i.
       if i \<noteq> [] then bind (clob_cancel V i) (\<lambda>_. modify (\<lambda>s. s\<lparr>ask_order_id := []\<rparr>)) else skip)"

definition cancel_all :: "'w venue \<Rightarrow> (('w, 'z) maker_env_scheme, unit) prog" where
  "cancel_all V = andthen (cancel_bid V) (cancel_ask V)"

definition id_of :: "string option \<Rightarrow> string" where
  "id_of r = (case r of None \<Rightarrow> [] | Some i \<Rightarrow> i)"

definition quote :: "'w venue \<Rightarrow> maker_config \<Rightarrow> f64 \<Rightarrow> (('w, 'z) maker_env_scheme, bool) prog" where
  "quote V cfg fair_price =
     andthen (cancel_all V)
       (let bid = fsub fair_price (mc_half_spread cfg); ask = fadd fair_price (mc_half_spread cfg)
        in if fle bid (lit (1 / 100)) \<or> fle (lit (99 / 100)) ask then ret False
           else bind (submit_side V cfg 0 bid) (\<lambda>b.
                andthen (modify (\<lambda>s. s\<lparr>bid_order_id := id_of b\<rparr>))
                (bind (submit_side V cfg 1 ask) (\<lambda>a.
                andthen (modify (\<lambda>s. s\<lparr>ask_order_id := id_of a\<rparr>))
                (if b = None \<and> a = None then ret False
                 else andthen (modify (\<lambda>s. s\<lparr>quoted_fair := fair_price, quoted_mid := p_market (ss s)\<rparr>))
                   (bind (steady_now V) (\<lambda>now.
                    andthen (modify (\<lambda>s. s\<lparr>quote_time := now\<rparr>)) (ret True))))))))"

definition maker_entry :: "maker_config \<Rightarrow> string \<Rightarrow> f64 \<Rightarrow> bool \<Rightarrow> order_status \<Rightarrow> entry_data" where
  "maker_entry cfg i entry_price is_bid st =
     (let p = (if flt (Fin 0) (os_avg_price st) then os_avg_price st else entry_price);
          n = fdiv (to_double (mc_size_usdc cfg)) p
      in \<lparr>entry_price_poly = p, shares = n, hedge_entry_btc = Fin 0, hedge_qty_btc = Fin 0,
          initial_edge_value = from_double (fmul (mc_half_spread cfg) n),
          poly_order_id = i, coinbase_order_id = [], is_yes_long = is_bid\<rparr>)"

definition check_fill ::
  "'w venue \<Rightarrow> maker_config \<Rightarrow> string \<Rightarrow> f64 \<Rightarrow> bool \<Rightarrow> (('w, 'z) env_scheme, entry_data option) prog" where
  "check_fill V cfg i entry_price is_bid =
     (if i = [] then ret None
      else bind (clob_status V i) (\<lambda>st.
        ret (if os_state st \<noteq> FILLED then None else Some (maker_entry cfg i entry_price is_bid st))))"

definition check_fills ::
  "'w venue \<Rightarrow> maker_config \<Rightarrow> entry_data \<Rightarrow> (('w, 'z) maker_env_scheme, maker_status \<times> entry_data) prog" where
  "check_fills V cfg entry =
     bind (gets (\<lambda>s. (bid_order_id s, ask_order_id s, quoted_fair s))) (\<lambda>(bi, ai, fair).
     bind (check_fill V cfg bi (fsub fair (mc_half_spread cfg)) True) (\<lambda>b.
     case b of
       Some e \<Rightarrow> andthen (modify (\<lambda>s. s\<lparr>ask_order_id := []\<rparr>))
                   (andthen (cancel_all V) (ret (FILLED_BID, e)))
     | None \<Rightarrow>
       bind (check_fill V cfg ai (fadd fair (mc_half_spread cfg)) False) (\<lambda>a.
       case a of
         Some e \<Rightarrow> andthen (modify (\<lambda>s. s\<lparr>bid_order_id := []\<rparr>))
                     (andthen (cancel_all V) (ret (FILLED_ASK, e)))
       | None \<Rightarrow> ret (ACTIVE, entry))))"

definition move_bps :: "f64 \<Rightarrow> f64 \<Rightarrow> f64" where
  "move_bps mid quoted = fmul (fdiv (fabs (fsub mid quoted)) quoted) (lit 10000)"

definition MAX_AGE_MS :: int where
  "MAX_AGE_MS = cast_int i64_min i64_max MAKER_QUOTE_MAX_AGE_MS"

definition manage ::
  "'w venue \<Rightarrow> maker_config \<Rightarrow> entry_data \<Rightarrow> (('w, 'z) maker_env_scheme, maker_status \<times> entry_data) prog" where
  "manage V cfg entry =
     bind (steady_now V) (\<lambda>now.
     bind (gets id) (\<lambda>s.
     if MAX_AGE_MS < (now - quote_time s) sdiv 1000000
     then andthen (cancel_all V) (ret (TIMED_OUT, entry))
     else if flt MAKER_REQUOTE_THRESHOLD_BPS (move_bps (p_market (ss s)) (quoted_mid s))
     then bind (quote V cfg (p_true (ss s))) (\<lambda>ok. ret (if ok then REPRICED else TIMED_OUT, entry))
     else check_fills V cfg entry))"

lemma MAX_AGE_MS_val [num_simps]: "MAX_AGE_MS = 1500"
  by (simp add: MAX_AGE_MS_def MAKER_QUOTE_MAX_AGE_MS_def lit_numeral saturate_def i64_min_def i64_max_def)

subsection \<open>Running the operations\<close>

lemma returns_case_option [total]:
  "(r = None \<Longrightarrow> returns m) \<Longrightarrow> (\<And>x. r = Some x \<Longrightarrow> returns (f x)) \<Longrightarrow> returns (case r of None \<Rightarrow> m | Some x \<Rightarrow> f x)"
  by (cases r) simp_all

lemma returns_case_prod [total]: "(\<And>x y. returns (f x y)) \<Longrightarrow> returns (case p of (x, y) \<Rightarrow> f x y)"
  by (cases p) simp

lemma returns_cancel_all [total]: "calm V \<Longrightarrow> returns (cancel_all V)"
  unfolding cancel_all_def cancel_bid_def cancel_ask_def by (intro total)

lemma returns_submit_side [total]:
  "calm V \<Longrightarrow> parse_token_id (mc_token_id cfg) = Inr v \<Longrightarrow> returns (submit_side V cfg sd p)"
  unfolding submit_side_def by (intro total)

lemma returns_quote [total]:
  "calm V \<Longrightarrow> parse_token_id (mc_token_id cfg) = Inr v \<Longrightarrow> returns (quote V cfg p)"
  unfolding quote_def by (intro total)

lemma returns_check_fill [total]: "returns (check_fill V cfg i p b)"
  unfolding check_fill_def by (intro total)

lemma returns_manage [total]:
  "calm V \<Longrightarrow> parse_token_id (mc_token_id cfg) = Inr v \<Longrightarrow> returns (manage V cfg entry)"
  unfolding manage_def check_fills_def by (intro total)

lemma cancel_bid_run:
  assumes "cancel_bid V s = (Inr x, s')"
  shows "\<exists>w z. s' = (if bid_order_id s = [] then s
     else s\<lparr>world := w, calls := calls s @ [Cancel (bid_order_id s) (Inr z)], bid_order_id := []\<rparr>)"
  using assms unfolding cancel_bid_def
  by (auto elim!: bind_InrE dest!: clob_cancel_run split: if_splits) blast

lemma cancel_ask_run:
  assumes "cancel_ask V s = (Inr x, s')"
  shows "\<exists>w z. s' = (if ask_order_id s = [] then s
     else s\<lparr>world := w, calls := calls s @ [Cancel (ask_order_id s) (Inr z)], ask_order_id := []\<rparr>)"
  using assms unfolding cancel_ask_def
  by (auto elim!: bind_InrE dest!: clob_cancel_run split: if_splits) blast

text \<open>The cancels of \<open>cancel_all\<close>: one per nonempty id, the bid first.\<close>

definition cancel_calls :: "string \<Rightarrow> string \<Rightarrow> event list \<Rightarrow> bool" where
  "cancel_calls bi ai cs \<longleftrightarrow>
     (\<exists>x y. cs = (if bi = [] then [] else [Cancel bi (Inr x)]) @ (if ai = [] then [] else [Cancel ai (Inr y)]))"

lemma cancel_all_run:
  assumes "cancel_all V s = (Inr x, s')"
  shows "\<exists>w cs. cancel_calls (bid_order_id s) (ask_order_id s) cs
     \<and> s' = s\<lparr>world := w, calls := calls s @ cs, bid_order_id := [], ask_order_id := []\<rparr>"
proof -
  from assms obtain t where "cancel_bid V s = (Inr (), t)" and a: "cancel_ask V t = (Inr x, s')"
    unfolding cancel_all_def by (rule andthen_InrE)
  from cancel_bid_run [OF this(1)] obtain w z where t: "t = (if bid_order_id s = [] then s
     else s\<lparr>world := w, calls := calls s @ [Cancel (bid_order_id s) (Inr z)], bid_order_id := []\<rparr>)" by blast
  from cancel_ask_run [OF a] obtain w' z' where s': "s' = (if ask_order_id t = [] then t
     else t\<lparr>world := w', calls := calls t @ [Cancel (ask_order_id t) (Inr z')], ask_order_id := []\<rparr>)" by blast
  show ?thesis
    by (rule exI [of _ "world s'"],
        rule exI [of _ "(if bid_order_id s = [] then [] else [Cancel (bid_order_id s) (Inr z)])
          @ (if ask_order_id s = [] then [] else [Cancel (ask_order_id s) (Inr z')])"])
      (auto simp: cancel_calls_def s' t)
qed

lemma check_fill_run:
  assumes "check_fill V cfg i p b s = (Inr r, s')"
  shows "if i = [] then r = None \<and> s' = s
    else (\<exists>w st. s' = s\<lparr>world := w, calls := calls s @ [Poll i st]\<rparr>
      \<and> r = (if os_state st = FILLED then Some (maker_entry cfg i p b st) else None))"
  using assms unfolding check_fill_def
  by (auto elim!: bind_InrE dest!: clob_status_run split: if_splits) blast+

lemma submit_side_run:
  assumes "submit_side V cfg sd p s = (Inr r, s')"
  shows "(r = None \<and> s' = s)
    \<or> (\<exists>w q x. s' = s\<lparr>world := w, next_nonce := next_nonce s + 1, calls := calls s @ [Submit q ''GTC'' (Inr x)]\<rparr>
        \<and> side q = sd \<and> nonce q = u64_to_uint256 (next_nonce s)
        \<and> makerAmount q = u64_to_uint256 (fst (maker_amounts cfg sd p))
        \<and> takerAmount q = u64_to_uint256 (snd (maker_amounts cfg sd p))
        \<and> r = (if sr_success x then Some (sr_order_id x) else None))"
proof -
  obtain m t where mt: "maker_amounts cfg sd p = (m, t)" by (cases "maker_amounts cfg sd p") blast
  show ?thesis
  proof (cases "m = 0 \<or> t = 0")
    case True
    then show ?thesis using assms by (auto simp: submit_side_def mt)
  next
    case False
    with assms obtain now q x s1 s2 s3 where
      1: "system_seconds V s = (Inr now, s1)"
      and 2: "build_order V (mc_token_id cfg) m t (now + 1800) MAKER_FEE_RATE_BPS sd s1 = (Inr q, s2)"
      and 3: "clob_submit V q ''GTC'' s2 = (Inr x, s3)"
      and 4: "r = (if sr_success x then Some (sr_order_id x) else None)" "s' = s3"
      by (auto simp: submit_side_def mt elim!: bind_InrE)
    from clock_run(1) [OF 1] obtain w1 where s1: "s1 = s\<lparr>world := w1\<rparr>" by blast
    from build_order_run [OF 2] obtain w2 where s2: "s2 = s1\<lparr>world := w2, next_nonce := next_nonce s1 + 1\<rparr>"
      and q: "side q = sd" "nonce q = u64_to_uint256 (next_nonce s1)"
        "makerAmount q = u64_to_uint256 m" "takerAmount q = u64_to_uint256 t" by blast
    from clob_submit_run [OF 3] obtain w3 where
      "s3 = s2\<lparr>world := w3, calls := calls s2 @ [Submit q ''GTC'' (Inr x)]\<rparr>" by blast
    then have "s' = s\<lparr>world := w3, next_nonce := next_nonce s + 1, calls := calls s @ [Submit q ''GTC'' (Inr x)]\<rparr>"
      by (simp add: 4 s1 s2)
    then show ?thesis using q 4(1) by (intro disjI2 exI [of _ w3] exI [of _ q] exI [of _ x]) (simp add: mt s1)
  qed
qed

text \<open>\<open>maker_changes s s'\<close>: only the maker's own fields, the world, the calls and the nonce changed.\<close>

definition maker_changes :: "('w, 'z) maker_env_scheme \<Rightarrow> ('w, 'z) maker_env_scheme \<Rightarrow> bool" where
  "maker_changes s s' \<longleftrightarrow>
     ss s' = ss s \<and> last_entry s' = last_entry s \<and> maker_env.more s' = maker_env.more s"

lemma maker_changes_refl [simp]: "maker_changes s s"
  by (simp add: maker_changes_def)

lemma maker_changes_trans: "maker_changes s t \<Longrightarrow> maker_changes t u \<Longrightarrow> maker_changes s u"
  by (simp add: maker_changes_def)

lemma submit_side_changes:
  "submit_side V cfg sd p s = (Inr r, s') \<Longrightarrow> maker_changes s s'
     \<and> bid_order_id s' = bid_order_id s \<and> ask_order_id s' = ask_order_id s"
  by (drule submit_side_run) (auto simp: maker_changes_def)

lemma cancel_all_changes:
  "cancel_all V s = (Inr r, s') \<Longrightarrow> maker_changes s s' \<and> bid_order_id s' = [] \<and> ask_order_id s' = []"
  by (drule cancel_all_run) (auto simp: maker_changes_def)

lemma quote_run:
  assumes "quote V cfg p s = (Inr ok, s')"
  shows "maker_changes s s' \<and> (\<not> ok \<longrightarrow> bid_order_id s' = [] \<and> ask_order_id s' = [])"
proof -
  from assms obtain t where c: "cancel_all V s = (Inr (), t)" and
    r: "(let bid = fsub p (mc_half_spread cfg); ask = fadd p (mc_half_spread cfg)
        in if fle bid (lit (1 / 100)) \<or> fle (lit (99 / 100)) ask then ret False
           else bind (submit_side V cfg 0 bid) (\<lambda>b.
                andthen (modify (\<lambda>s. s\<lparr>bid_order_id := id_of b\<rparr>))
                (bind (submit_side V cfg 1 ask) (\<lambda>a.
                andthen (modify (\<lambda>s. s\<lparr>ask_order_id := id_of a\<rparr>))
                (if b = None \<and> a = None then ret False
                 else andthen (modify (\<lambda>s. s\<lparr>quoted_fair := p, quoted_mid := p_market (ss s)\<rparr>))
                   (bind (steady_now V) (\<lambda>now.
                    andthen (modify (\<lambda>s. s\<lparr>quote_time := now\<rparr>)) (ret True)))))))) t = (Inr ok, s')"
    unfolding quote_def by (rule andthen_InrE)
  note t = cancel_all_changes [OF c]
  show ?thesis
    using r t
    by (auto simp: Let_def id_of_def split: if_splits elim!: bind_InrE andthen_InrE
        dest!: submit_side_changes clock_run simp: maker_changes_def)
qed

lemma check_fill_changes:
  assumes "check_fill V cfg i p b s = (Inr r, s')"
  shows "maker_changes s s' \<and> bid_order_id s' = bid_order_id s \<and> ask_order_id s' = ask_order_id s
    \<and> quoted_fair s' = quoted_fair s
    \<and> (if i = [] then calls s' = calls s else \<exists>st. calls s' = calls s @ [Poll i st] \<and> (r \<noteq> None \<longleftrightarrow> os_state st = FILLED))
    \<and> (r \<noteq> None \<longrightarrow> i \<noteq> [])"
  using check_fill_run [OF assms] by (cases "i = []") (auto simp: maker_changes_def)

lemma check_fills_cases:
  assumes "check_fills V cfg entry s = (Inr (st, entry'), s')"
  obtains
    (active) "st = ACTIVE" "entry' = entry" "maker_changes s s'"
      "bid_order_id s' = bid_order_id s" "ask_order_id s' = ask_order_id s"
  | (bid) x y where "st = FILLED_BID" "maker_changes s s'" "bid_order_id s' = []" "ask_order_id s' = []"
      "bid_order_id s \<noteq> []" "os_state x = FILLED"
      "calls s' = calls s @ [Poll (bid_order_id s) x, Cancel (bid_order_id s) y]"
  | (ask) x y pre where "st = FILLED_ASK" "maker_changes s s'" "bid_order_id s' = []" "ask_order_id s' = []"
      "ask_order_id s \<noteq> []" "os_state x = FILLED"
      "calls s' = calls s @ pre @ [Poll (ask_order_id s) x, Cancel (ask_order_id s) y]"
      "pre = [] \<or> (\<exists>z. pre = [Poll (bid_order_id s) z])"
proof -
  let ?bi = "bid_order_id s" and ?ai = "ask_order_id s"
  from assms obtain b t where
    cb: "check_fill V cfg ?bi (fsub (quoted_fair s) (mc_half_spread cfg)) True s = (Inr b, t)"
    and r: "(case b of
       Some e \<Rightarrow> andthen (modify (\<lambda>s. s\<lparr>ask_order_id := []\<rparr>))
                   (andthen (cancel_all V) (ret (FILLED_BID, e)))
     | None \<Rightarrow>
       bind (check_fill V cfg ?ai (fadd (quoted_fair s) (mc_half_spread cfg)) False) (\<lambda>a.
       case a of
         Some e \<Rightarrow> andthen (modify (\<lambda>s. s\<lparr>bid_order_id := []\<rparr>))
                     (andthen (cancel_all V) (ret (FILLED_ASK, e)))
       | None \<Rightarrow> ret (ACTIVE, entry))) t = (Inr (st, entry'), s')"
    unfolding check_fills_def by (auto elim!: bind_InrE)
  note b = check_fill_changes [OF cb]
  show thesis
  proof (cases b)
    case (Some e)
    with r obtain u where "cancel_all V (t\<lparr>ask_order_id := []\<rparr>) = (Inr (), u)" "st = FILLED_BID" "s' = u"
      by (auto elim!: andthen_InrE)
    note u = this
    from u b Some obtain x y where
      "calls s' = calls s @ [Poll ?bi x, Cancel ?bi y]" "os_state x = FILLED" "?bi \<noteq> []"
      by (auto dest!: cancel_all_run simp: cancel_calls_def)
    then show thesis using u b cancel_all_changes [OF u(1)]
      by (intro bid) (auto simp: maker_changes_def)
  next
    case None
    with r obtain a u where
      ca: "check_fill V cfg ?ai (fadd (quoted_fair s) (mc_half_spread cfg)) False t = (Inr a, u)"
      and r2: "(case a of
         Some e \<Rightarrow> andthen (modify (\<lambda>s. s\<lparr>bid_order_id := []\<rparr>))
                     (andthen (cancel_all V) (ret (FILLED_ASK, e)))
       | None \<Rightarrow> ret (ACTIVE, entry)) u = (Inr (st, entry'), s')"
      by (auto elim!: bind_InrE)
    note a = check_fill_changes [OF ca]
    show thesis
    proof (cases a)
      case (Some e)
      with r2 obtain v where v: "cancel_all V (u\<lparr>bid_order_id := []\<rparr>) = (Inr (), v)" "st = FILLED_ASK" "s' = v"
        by (auto elim!: andthen_InrE)
      define pre where "pre = drop (length (calls s)) (calls t)"
      have ct: "calls t = calls s @ pre" "pre = [] \<or> (\<exists>z. pre = [Poll ?bi z])"
        using b by (auto simp: pre_def split: if_splits)
      from v a b Some obtain x y where
        "calls s' = calls t @ [Poll ?ai x, Cancel ?ai y]" "os_state x = FILLED" "?ai \<noteq> []"
        by (auto dest!: cancel_all_run simp: cancel_calls_def)
      then show thesis using v a b ct cancel_all_changes [OF v(1)]
        by (intro ask) (auto simp: maker_changes_def)
    next
      case None
      then show thesis using r2 a b by (intro active) (auto simp: maker_changes_def)
    qed
  qed
qed

lemma manage_cases:
  assumes "manage V cfg entry s = (Inr (st, entry'), s')"
  obtains
    (timed_out) "st = TIMED_OUT" "maker_changes s s'" "bid_order_id s' = []" "ask_order_id s' = []"
  | (repriced) "st = REPRICED" "maker_changes s s'"
  | (polled) w where "check_fills V cfg entry (s\<lparr>world := w\<rparr>) = (Inr (st, entry'), s')"
proof -
  from assms obtain now w where
    r: "(if MAX_AGE_MS < (now - quote_time s) sdiv 1000000
     then andthen (cancel_all V) (ret (TIMED_OUT, entry))
     else if flt MAKER_REQUOTE_THRESHOLD_BPS (move_bps (p_market (ss s)) (quoted_mid s))
     then bind (quote V cfg (p_true (ss s))) (\<lambda>ok. ret (if ok then REPRICED else TIMED_OUT, entry))
     else check_fills V cfg entry) (s\<lparr>world := w\<rparr>) = (Inr (st, entry'), s')"
    unfolding manage_def by (auto elim!: bind_InrE dest!: clock_run cong: if_cong)
  consider "andthen (cancel_all V) (ret (TIMED_OUT, entry)) (s\<lparr>world := w\<rparr>) = (Inr (st, entry'), s')"
    | "bind (quote V cfg (p_true (ss s))) (\<lambda>ok. ret (if ok then REPRICED else TIMED_OUT, entry)) (s\<lparr>world := w\<rparr>)
         = (Inr (st, entry'), s')"
    | "check_fills V cfg entry (s\<lparr>world := w\<rparr>) = (Inr (st, entry'), s')"
    using r by (auto split: if_splits)
  then show thesis
  proof cases
    case 1
    then show thesis
      by (intro timed_out) (auto elim!: andthen_InrE dest!: cancel_all_changes simp: maker_changes_def)
  next
    case 2
    then obtain ok where q: "quote V cfg (p_true (ss s)) (s\<lparr>world := w\<rparr>) = (Inr ok, s')"
      "st = (if ok then REPRICED else TIMED_OUT)" by (auto elim!: bind_InrE)
    have "maker_changes s s'" using quote_run [OF q(1)] by (simp add: maker_changes_def)
    then show thesis using quote_run [OF q(1)] q(2) timed_out repriced by (cases ok) auto
  next
    case 3
    then show thesis by (rule polled)
  qed
qed

lemma manage_run:
  assumes "manage V cfg entry s = (Inr (st, entry'), s')"
  shows "maker_changes s s'
    \<and> (st \<in> {TIMED_OUT, FILLED_BID, FILLED_ASK} \<longrightarrow> bid_order_id s' = [] \<and> ask_order_id s' = [])
    \<and> (bid_order_id s = [] \<longrightarrow> ask_order_id s = [] \<longrightarrow> st \<noteq> FILLED_BID \<and> st \<noteq> FILLED_ASK)"
  using assms
proof (cases rule: manage_cases)
  case (polled w)
  then show ?thesis by (cases rule: check_fills_cases) (auto simp: maker_changes_def)
qed (auto simp: maker_changes_def)

text \<open>
  C28. On a fill the maker cancels the order that has just filled and forgets the other
  one: when \<open>manage\<close> reports a bid fill, the calls end with the poll of the bid and a cancel of the
  same bid, no cancel of the resting ask is ever sent (unless the two ids are equal), and both ids are
  cleared, so no later \<open>cancel_all\<close> can reach the ask. The comment in the code says \<open>cancel ask side\<close>.
\<close>

theorem maker_fill_orphans_other_side:
  assumes "manage V cfg entry s = (Inr (FILLED_BID, entry'), s')"
  shows "\<exists>x y. calls s' = calls s @ [Poll (bid_order_id s) x, Cancel (bid_order_id s) y]
    \<and> os_state x = FILLED \<and> bid_order_id s' = [] \<and> ask_order_id s' = []"
  using assms
proof (cases rule: manage_cases)
  case (polled w)
  then show ?thesis by (cases rule: check_fills_cases) auto
qed simp_all

definition sample_maker :: maker_config where
  "sample_maker = \<lparr>mc_token_id = ''7'', mc_half_spread = lit (1 / 200), mc_size_usdc = Amount 100000000\<rparr>"

definition quoting_env :: "unit maker_env" where
  "quoting_env =
     \<lparr>world = (), calls = [], next_nonce = 5, ss = initial_shared, last_entry = 0,
      bid_order_id = ''b1'', ask_order_id = ''a1'', quoted_mid = Fin (1 / 2), quoted_fair = Fin (1 / 2),
      quote_time = 0\<rparr>"

definition filling_venue :: "unit venue" where
  "filling_venue = (still_venue 0)\<lparr>v_status := (\<lambda>i w.
     (\<lparr>os_state = FILLED, os_size_matched = Fin 1, os_avg_price = Fin (1 / 2)\<rparr>, w))\<rparr>"

lemma no_move: "\<not> flt MAKER_REQUOTE_THRESHOLD_BPS (move_bps (Fin (1 / 2)) (Fin (1 / 2)))"
  by (simp add: move_bps_def fsub_def MAKER_REQUOTE_THRESHOLD_BPS_def lit_half lit_numeral)

lemma quoting_fill:
  "\<exists>e s'. manage filling_venue sample_maker empty_entry quoting_env = (Inr (FILLED_BID, e), s')"
  by (simp add: manage_def steady_now_def observe_def filling_venue_def still_venue_def quoting_env_def
      bind_def gets_def MAX_AGE_MS_val initial_shared_def lit_half no_move check_fills_def check_fill_def
      clob_status_def call_noexcept_def ret_def andthen_def modify_def cancel_all_def cancel_bid_def
      cancel_ask_def clob_cancel_def call_def skip_def)

theorem maker_fill_orphans_other_side_witness:
  "\<exists>e s' x y. manage filling_venue sample_maker empty_entry quoting_env = (Inr (FILLED_BID, e), s')
     \<and> calls s' = [Poll ''b1'' x, Cancel ''b1'' y] \<and> os_state x = FILLED"
proof -
  obtain e s' where m: "manage filling_venue sample_maker empty_entry quoting_env = (Inr (FILLED_BID, e), s')"
    using quoting_fill by blast
  have "bid_order_id quoting_env = ''b1''" "calls quoting_env = []" by (simp_all add: quoting_env_def)
  with maker_fill_orphans_other_side [OF m] m show ?thesis
    by (metis append_Nil)
qed

end
