(* ===== verification/Order_State_Machine.thy ===== *)
theory Order_State_Machine
  imports Maker_Arm
begin

text \<open>
  The per-market order state machine, \<open>src/execution/order_state_machine.hpp\<close> and
  \<open>order_state_machine.cpp\<close>. The record extends the arms' state by the machine's own fields; a
  handler is a program over it. The handlers are \<open>noexcept\<close>: a throw ends the process, which the
  model shows as the \<open>Inl\<close> result of the iteration.
\<close>

datatype osm_state = IDLE | TAKER_EVAL | TAKER_PEND | MAKER_QUOTED | POSITION_OPEN | CLOSING

record osm_config =
  condition_id :: string
  token_id :: string
  strike_price :: f64
  resolution_us :: i64
  is_above :: bool
  maker_half_spread_usdc :: f64
  maker_size_usdc :: amount

record 'w osm = "'w maker_env" +
  pos :: position_manager
  st :: osm_state
  stop_flag :: bool
  flatten_flag :: bool
  entries_stopped :: bool
  quotes_cancelled :: bool
  positions_closed :: bool
  force_closed :: bool
  close_poly_order_id :: string
  close_coinbase_order_id :: string

definition taker_cfg :: "osm_config \<Rightarrow> taker_config" where
  "taker_cfg c = \<lparr>tc_token_id = token_id c, tc_strike_price = strike_price c, tc_is_above = is_above c\<rparr>"

definition maker_cfg :: "osm_config \<Rightarrow> maker_config" where
  "maker_cfg c = \<lparr>mc_token_id = token_id c, mc_half_spread = maker_half_spread_usdc c,
                  mc_size_usdc = maker_size_usdc c\<rparr>"

definition time_left :: "osm_config \<Rightarrow> int \<Rightarrow> f64" where
  "time_left c now_us = fdiv (f64_of_int (sint (resolution_us c - word_of_int now_us))) (lit 1000000)"

definition time_remaining_s :: "'w venue \<Rightarrow> osm_config \<Rightarrow> (('w, 'z) osm_scheme, f64) prog" where
  "time_remaining_s V c = bind (system_micros V) (\<lambda>now. ret (time_left c now))"

definition compute_e_min_taker :: "shared_state \<Rightarrow> f64" where
  "compute_e_min_taker sh =
     (let live_half = fdiv (fsub (poly_best_ask sh) (poly_best_bid sh)) (lit 2);
          half_spread = (if flt (lit (1 / 1000)) live_half \<and> flt live_half (lit (1 / 2)) then live_half
                         else fdiv HALF_SPREAD_DEFAULT_CENTS (lit 100))
      in fdiv (fadd (fadd (fadd FEE_TAKER_CENTS (fmul half_spread (lit 100))) FRICTION_SETTLEMENT_CENTS)
                 ALPHA_BUFFER_CENTS) (lit 100))"

definition edge_of :: "shared_state \<Rightarrow> f64" where
  "edge_of sh = fsub (p_true sh) (p_market sh)"

definition transition :: "osm_state \<Rightarrow> (('w, 'z) osm_scheme, unit) prog" where
  "transition next = modify (\<lambda>s. s\<lparr>st := next\<rparr>)"

definition entry_cost :: "entry_data \<Rightarrow> f64" where
  "entry_cost e = fmul (shares e) (entry_price_poly e)"

definition open_position :: "entry_data \<Rightarrow> (('w, 'z) osm_scheme, unit) prog" where
  "open_position e = modify (\<lambda>s. s\<lparr>pos := pm_open e (pos s),
     ss := (ss s)\<lparr>total_exposure_usdc := fadd (total_exposure_usdc (ss s)) (entry_cost e),
                   open_position_count := open_position_count (ss s) + 1\<rparr>\<rparr>)"

definition release_position :: "(('w, 'z) osm_scheme, unit) prog" where
  "release_position = modify (\<lambda>s. s\<lparr>
     ss := (ss s)\<lparr>total_exposure_usdc := fsub (total_exposure_usdc (ss s)) (entry_cost (data (pos s))),
                   open_position_count := open_position_count (ss s) - 1\<rparr>,
     pos := pm_close (pos s)\<rparr>)"

definition close_price_of :: "shared_state \<Rightarrow> f64" where
  "close_price_of sh = (if fle (poly_best_bid sh) (Fin 0) then lit (1 / 100) else poly_best_bid sh)"

definition close_amounts :: "shared_state \<Rightarrow> entry_data \<Rightarrow> u64 \<times> u64" where
  "close_amounts sh d =
     (cast_u64 (fmul (shares d) (lit 1000000)),
      cast_u64 (fmul (fmul (shares d) (close_price_of sh)) (lit 1000000)))"

definition close_poly_leg :: "'w venue \<Rightarrow> osm_config \<Rightarrow> (('w, 'z) osm_scheme, unit) prog" where
  "close_poly_leg V c =
     bind (gets (\<lambda>s. close_amounts (ss s) (data (pos s)))) (\<lambda>(maker_raw, taker_raw).
       if 0 < maker_raw \<and> 0 < taker_raw
       then bind (system_seconds V) (\<lambda>now.
            bind (build_order V (token_id c) maker_raw taker_raw (now + IOC_EXPIRY_SECONDS) TAKER_FEE_RATE_BPS 1) (\<lambda>r.
            bind (clob_submit V r ''IOC'') (\<lambda>res.
              modify (\<lambda>s. s\<lparr>close_poly_order_id := sr_order_id res\<rparr>))))
       else skip)"

definition close_hedge_leg :: "'w venue \<Rightarrow> osm_config \<Rightarrow> (('w, 'z) osm_scheme, unit) prog" where
  "close_hedge_leg V c =
     bind (gets (\<lambda>s. (hedge_qty_btc (data (pos s)), btc_mid (ss s)))) (\<lambda>(q, btc).
       if fle (lit (1 / 1000)) q
       then bind (hedge_submit V (if is_above c then ''BUY'' else ''SELL'') q btc) (\<lambda>cb.
              modify (\<lambda>s. s\<lparr>close_coinbase_order_id := hr_order_id cb\<rparr>))
       else skip)"

text \<open>The order type does not depend on \<open>market_order\<close>: the source says \<open>market_order ? "IOC" : "IOC"\<close>.\<close>

definition close_position :: "'w venue \<Rightarrow> osm_config \<Rightarrow> bool \<Rightarrow> (('w, 'z) osm_scheme, unit) prog" where
  "close_position V c market_order =
     bind (gets (\<lambda>s. is_open (pos s))) (\<lambda>op.
       if \<not> op then transition IDLE
       else andthen (close_poly_leg V c) (andthen (close_hedge_leg V c) (transition CLOSING)))"

definition handle_idle :: "'w venue \<Rightarrow> osm_config \<Rightarrow> (('w, 'z) osm_scheme, unit) prog" where
  "handle_idle V c =
     bind (gets id) (\<lambda>s.
       if is_open (pos s) then close_position V c False
       else if entries_stopped s then skip
       else if MAX_OPEN_POSITIONS \<le> sint (open_position_count (ss s)) then skip
       else let edge = edge_of (ss s); e_min = compute_e_min_taker (ss s)
            in bind (if fle e_min edge then bind (in_cooldown V) (\<lambda>cd. ret (\<not> cd)) else ret False) (\<lambda>take.
               if take then transition TAKER_EVAL
               else if quotes_cancelled s then skip
               else if regime (ss s) = SIDEWAYS \<and> flt (fabs edge) e_min
               then bind (quote V (maker_cfg c) (p_true (ss s))) (\<lambda>ok.
                      if ok then transition MAKER_QUOTED else skip)
               else skip))"

definition handle_taker_eval :: "'w venue \<Rightarrow> osm_config \<Rightarrow> (('w, 'z) osm_scheme, unit) prog" where
  "handle_taker_eval V c =
     bind (gets ss) (\<lambda>sh.
     bind (fire V (taker_cfg c) (from_double (bankroll_usdc sh)) (from_double (total_exposure_usdc sh))
             empty_entry) (\<lambda>(res, entry).
       case res of
         SUCCESS \<Rightarrow> andthen (open_position entry) (transition POSITION_OPEN)
       | SKIPPED \<Rightarrow> transition IDLE
       | LEG_FAIL \<Rightarrow> transition IDLE
       | ERROR \<Rightarrow> transition IDLE))"

definition handle_position_open :: "'w venue \<Rightarrow> osm_config \<Rightarrow> (('w, 'z) osm_scheme, unit) prog" where
  "handle_position_open V c =
     bind (gets id) (\<lambda>s.
       if force_closed s then close_position V c True
       else if positions_closed s then close_position V c False
       else case pm_evaluate (ss s) (pos s) of (reason, pm) \<Rightarrow>
            andthen (modify (\<lambda>s. s\<lparr>pos := pm\<rparr>))
              (if reason \<noteq> NONE then close_position V c (reason = HARD_STOP) else skip))"

definition handle_late_fill :: "'w venue \<Rightarrow> osm_config \<Rightarrow> entry_data \<Rightarrow> (('w, 'z) osm_scheme, unit) prog" where
  "handle_late_fill V c entry =
     (let unhedged = entry\<lparr>hedge_qty_btc := Fin 0\<rparr>;
          break_even = fadd (entry_price_poly unhedged) (fdiv FEE_TAKER_CENTS (lit 100))
      in andthen (open_position unhedged)
         (bind (gets (\<lambda>s. poly_best_bid (ss s))) (\<lambda>best_bid.
            if fle break_even best_bid then close_position V c False
            else transition POSITION_OPEN)))"

definition handle_maker_quoted :: "'w venue \<Rightarrow> osm_config \<Rightarrow> (('w, 'z) osm_scheme, unit) prog" where
  "handle_maker_quoted V c =
     bind (gets id) (\<lambda>s.
       if quotes_cancelled s
       then andthen (cancel_all V)
            (bind (manage V (maker_cfg c) empty_entry) (\<lambda>(status, entry).
               if status = FILLED_BID \<or> status = FILLED_ASK then handle_late_fill V c entry
               else transition IDLE))
       else bind (if fle (compute_e_min_taker (ss s)) (edge_of (ss s))
                  then bind (in_cooldown V) (\<lambda>cd. ret (\<not> cd)) else ret False) (\<lambda>take.
            if take then andthen (cancel_all V) (transition TAKER_EVAL)
            else bind (manage V (maker_cfg c) empty_entry) (\<lambda>(status, entry).
              case status of
                FILLED_BID \<Rightarrow> andthen (open_position entry) (transition POSITION_OPEN)
              | FILLED_ASK \<Rightarrow> andthen (open_position entry) (transition POSITION_OPEN)
              | TIMED_OUT \<Rightarrow> transition IDLE
              | ACTIVE \<Rightarrow> skip
              | REPRICED \<Rightarrow> skip)))"

definition handle_closing :: "'w venue \<Rightarrow> (('w, 'z) osm_scheme, unit) prog" where
  "handle_closing V =
     bind (gets close_poly_order_id) (\<lambda>i.
       if i \<noteq> []
       then bind (clob_status V i) (\<lambda>x.
            if os_state x = FILLED \<or> os_state x = CANCELLED
            then andthen release_position
                 (andthen (modify (\<lambda>s. s\<lparr>close_poly_order_id := [], close_coinbase_order_id := []\<rparr>))
                   (transition IDLE))
            else skip)
       else andthen release_position (transition IDLE))"

definition deadline_flags :: "f64 \<Rightarrow> ('w, 'z) osm_scheme \<Rightarrow> ('w, 'z) osm_scheme" where
  "deadline_flags t s = s\<lparr>
     entries_stopped := entries_stopped s \<or> fle t (lit 120),
     quotes_cancelled := quotes_cancelled s \<or> fle t (lit 45),
     positions_closed := positions_closed s \<or> fle t (lit 30),
     force_closed := force_closed s \<or> fle t (lit 10)\<rparr>"

definition dispatch :: "'w venue \<Rightarrow> osm_config \<Rightarrow> (('w, 'z) osm_scheme, unit) prog" where
  "dispatch V c =
     bind (gets st) (\<lambda>x. case x of
         IDLE \<Rightarrow> handle_idle V c
       | TAKER_EVAL \<Rightarrow> handle_taker_eval V c
       | TAKER_PEND \<Rightarrow> skip
       | MAKER_QUOTED \<Rightarrow> handle_maker_quoted V c
       | POSITION_OPEN \<Rightarrow> handle_position_open V c
       | CLOSING \<Rightarrow> handle_closing V)"

definition evaluate :: "'w venue \<Rightarrow> osm_config \<Rightarrow> (('w, 'z) osm_scheme, unit) prog" where
  "evaluate V c =
     bind (time_remaining_s V c) (\<lambda>t.
     andthen (modify (deadline_flags t))
       (if flt t (Fin 0)
        then bind (gets (\<lambda>s. is_open (pos s))) (\<lambda>op. if op then close_position V c True else skip)
        else dispatch V c))"

text \<open>One turn of the loop of \<open>run\<close>; the result says whether the loop goes on.\<close>

definition run_iteration :: "'w venue \<Rightarrow> osm_config \<Rightarrow> (('w, 'z) osm_scheme, bool) prog" where
  "run_iteration V c =
     bind (gets id) (\<lambda>s.
       if stop_flag s then ret False
       else andthen (if flatten_flag s
                     then andthen (close_position V c True) (modify (\<lambda>s. s\<lparr>flatten_flag := False\<rparr>))
                     else skip)
            (andthen (evaluate V c)
            (bind (time_remaining_s V c) (\<lambda>t.
             bind (gets (\<lambda>s. is_open (pos s))) (\<lambda>op.
               ret (\<not> (flt t (lit (- 60)) \<and> \<not> op)))))))"

fun run_turns :: "'w venue \<Rightarrow> osm_config \<Rightarrow> nat \<Rightarrow> (('w, 'z) osm_scheme, bool) prog" where
  "run_turns V c 0 = ret True"
| "run_turns V c (Suc n) = bind (run_iteration V c) (\<lambda>go. if go then run_turns V c n else ret False)"

definition stop :: "('w, 'z) osm_scheme \<Rightarrow> ('w, 'z) osm_scheme" where
  "stop s = s\<lparr>stop_flag := True\<rparr>"

definition emergency_flatten :: "('w, 'z) osm_scheme \<Rightarrow> ('w, 'z) osm_scheme" where
  "emergency_flatten s = s\<lparr>flatten_flag := True\<rparr>"

definition notify_stop_entries :: "('w, 'z) osm_scheme \<Rightarrow> ('w, 'z) osm_scheme" where
  "notify_stop_entries s = s\<lparr>entries_stopped := True\<rparr>"

definition notify_cancel_quotes :: "('w, 'z) osm_scheme \<Rightarrow> ('w, 'z) osm_scheme" where
  "notify_cancel_quotes s = s\<lparr>quotes_cancelled := True\<rparr>"

definition notify_close_positions :: "('w, 'z) osm_scheme \<Rightarrow> ('w, 'z) osm_scheme" where
  "notify_close_positions s = s\<lparr>positions_closed := True\<rparr>"

definition notify_force_close :: "('w, 'z) osm_scheme \<Rightarrow> ('w, 'z) osm_scheme" where
  "notify_force_close s = s\<lparr>force_closed := True\<rparr>"

subsection \<open>Frames\<close>

lemma more_osm:
  assumes "maker_env.more s' = maker_env.more (s :: ('w, 'z) osm_scheme)"
  shows "pos s' = pos s" "st s' = st s" "stop_flag s' = stop_flag s" "flatten_flag s' = flatten_flag s"
    "entries_stopped s' = entries_stopped s" "quotes_cancelled s' = quotes_cancelled s"
    "positions_closed s' = positions_closed s" "force_closed s' = force_closed s"
    "close_poly_order_id s' = close_poly_order_id s"
    "close_coinbase_order_id s' = close_coinbase_order_id s" "osm.more s' = osm.more s"
  using assms by (cases s; cases s'; simp)+

lemma taker_more_maker:
  assumes "taker_env.more s' = taker_env.more (s :: ('w, 'z) maker_env_scheme)"
  shows "maker_env.more s' = maker_env.more s"
  using assms by (cases s; cases s') simp

text \<open>\<open>arm_changes s s'\<close>: an arm ran; the shared state and the machine's own fields are as before.\<close>

definition arm_changes :: "('w, 'z) osm_scheme \<Rightarrow> ('w, 'z) osm_scheme \<Rightarrow> bool" where
  "arm_changes s s' \<longleftrightarrow> ss s' = ss s \<and> maker_env.more s' = maker_env.more s"

lemma arm_changesD:
  assumes "arm_changes s s'"
  shows "ss s' = ss s" "pos s' = pos s" "st s' = st s" "stop_flag s' = stop_flag s" "flatten_flag s' = flatten_flag s"
    "entries_stopped s' = entries_stopped s" "quotes_cancelled s' = quotes_cancelled s"
    "positions_closed s' = positions_closed s" "force_closed s' = force_closed s"
    "close_poly_order_id s' = close_poly_order_id s"
    "close_coinbase_order_id s' = close_coinbase_order_id s"
  using assms more_osm unfolding arm_changes_def by blast+

lemma arm_changes_maker: "maker_changes s s' \<Longrightarrow> arm_changes s s'"
  by (simp add: arm_changes_def maker_changes_def)

lemma arm_changes_taker: "taker_changes s s' \<Longrightarrow> arm_changes s s'"
  unfolding arm_changes_def taker_changes_def using taker_more_maker by blast

lemma arm_changes_world: "arm_changes s (s\<lparr>world := w\<rparr>)"
  by (simp add: arm_changes_def)

lemma arm_runs:
  "fire V cfg b e entry s = (Inr x, s') \<Longrightarrow> arm_changes s s'"
  "in_cooldown V s = (Inr y, s') \<Longrightarrow> arm_changes s s'"
  "cancel_all V s = (Inr u, s') \<Longrightarrow> arm_changes s s'"
  "quote V mc p s = (Inr ok, s') \<Longrightarrow> arm_changes s s'"
  "manage V mc entry s = (Inr (sta, e'), s') \<Longrightarrow> arm_changes s s'"
  by (blast intro: arm_changes_taker arm_changes_maker
      dest: fire_changes in_cooldown_changes cancel_all_changes quote_run manage_run)+

lemma arm_changes_upd:
  "arm_changes s (s\<lparr>world := w, calls := c\<rparr>)" "arm_changes s (s\<lparr>world := w, next_nonce := n\<rparr>)"
  by (simp_all add: arm_changes_def)

lemma arm_changes_trans: "arm_changes s t \<Longrightarrow> arm_changes t u \<Longrightarrow> arm_changes s u"
  by (simp add: arm_changes_def)

lemma time_remaining_run: "time_remaining_s V c s = (Inr t, s') \<Longrightarrow> \<exists>w. s' = s\<lparr>world := w\<rparr>"
  unfolding time_remaining_s_def by (auto elim!: bind_InrE dest!: clock_run)

subsection \<open>Closing\<close>

text \<open>What a close leaves alone.\<close>

definition close_frame :: "('w, 'z) osm_scheme \<Rightarrow> ('w, 'z) osm_scheme \<Rightarrow> bool" where
  "close_frame s s' \<longleftrightarrow>
     ss s' = ss s \<and> pos s' = pos s \<and> stop_flag s' = stop_flag s \<and> flatten_flag s' = flatten_flag s
     \<and> entries_stopped s' = entries_stopped s \<and> quotes_cancelled s' = quotes_cancelled s
     \<and> positions_closed s' = positions_closed s \<and> force_closed s' = force_closed s
     \<and> bid_order_id s' = bid_order_id s \<and> ask_order_id s' = ask_order_id s \<and> last_entry s' = last_entry s"

definition sells_position :: "osm_config \<Rightarrow> shared_state \<Rightarrow> entry_data \<Rightarrow> event list \<Rightarrow> bool" where
  "sells_position c sh d cs \<longleftrightarrow>
     (case close_amounts sh d of (m, t) \<Rightarrow>
        if 0 < m \<and> 0 < t
        then \<exists>q x. cs = [Submit q ''IOC'' (Inr x)] \<and> side q = 1
               \<and> parse_token_id (token_id c) = Inr (tokenId q)
               \<and> makerAmount q = u64_to_uint256 m \<and> takerAmount q = u64_to_uint256 t
        else cs = [])"

definition unhedges_position :: "osm_config \<Rightarrow> shared_state \<Rightarrow> entry_data \<Rightarrow> event list \<Rightarrow> bool" where
  "unhedges_position c sh d cs \<longleftrightarrow>
     (if fle (lit (1 / 1000)) (hedge_qty_btc d)
      then \<exists>x. cs = [Hedge (close_side (is_above c)) (hedge_qty_btc d) (btc_mid sh) x]
      else cs = [])"

lemma close_poly_leg_run:
  assumes "close_poly_leg V c s = (Inr u, s')"
  shows "close_frame s s' \<and> st s' = st s
    \<and> (\<exists>cs. calls s' = calls s @ cs \<and> sells_position c (ss s) (data (pos s)) cs)"
proof -
  obtain m t where mt: "close_amounts (ss s) (data (pos s)) = (m, t)"
    by (cases "close_amounts (ss s) (data (pos s))") blast
  show ?thesis
  proof (cases "0 < m \<and> 0 < t")
    case False
    then have "s' = s" using assms by (auto simp: close_poly_leg_def mt elim!: bind_InrE)
    then show ?thesis using False by (auto simp: close_frame_def sells_position_def mt)
  next
    case True
    with assms obtain now q x s1 s2 s3 where
      1: "system_seconds V s = (Inr now, s1)"
      and 2: "build_order V (token_id c) m t (now + IOC_EXPIRY_SECONDS) TAKER_FEE_RATE_BPS 1 s1 = (Inr q, s2)"
      and 3: "clob_submit V q ''IOC'' s2 = (Inr x, s3)"
      and s': "s' = s3\<lparr>close_poly_order_id := sr_order_id x\<rparr>"
      unfolding close_poly_leg_def by (auto simp: mt elim!: bind_InrE)
    from clock_run(1) [OF 1] obtain w1 where s1: "s1 = s\<lparr>world := w1\<rparr>" by blast
    from build_order_run [OF 2] obtain w2 where s2: "s2 = s1\<lparr>world := w2, next_nonce := next_nonce s1 + 1\<rparr>"
      and q: "side q = 1" "parse_token_id (token_id c) = Inr (tokenId q)"
        "makerAmount q = u64_to_uint256 m" "takerAmount q = u64_to_uint256 t" by blast
    from clob_submit_run [OF 3] obtain w3 where
      s3: "s3 = s2\<lparr>world := w3, calls := calls s2 @ [Submit q ''IOC'' (Inr x)]\<rparr>" by blast
    have "sells_position c (ss s) (data (pos s)) [Submit q ''IOC'' (Inr x)]"
      using q True by (simp add: sells_position_def mt)
    then show ?thesis by (simp add: s' s3 s2 s1 close_frame_def)
  qed
qed

lemma close_hedge_leg_run:
  assumes "close_hedge_leg V c s = (Inr u, s')"
  shows "close_frame s s' \<and> st s' = st s
    \<and> (\<exists>cs. calls s' = calls s @ cs \<and> unhedges_position c (ss s) (data (pos s)) cs)"
proof (cases "fle (lit (1 / 1000)) (hedge_qty_btc (data (pos s)))")
  case False
  then have "s' = s" using assms by (auto simp: close_hedge_leg_def elim!: bind_InrE)
  then show ?thesis using False by (simp add: close_frame_def unhedges_position_def)
next
  case True
  with assms obtain x s1 where
    1: "hedge_submit V (close_side (is_above c)) (hedge_qty_btc (data (pos s))) (btc_mid (ss s)) s = (Inr x, s1)"
    and s': "s' = s1\<lparr>close_coinbase_order_id := hr_order_id x\<rparr>"
    unfolding close_hedge_leg_def close_side_def by (auto elim!: bind_InrE)
  from hedge_submit_run [OF 1] obtain w where
    s1: "s1 = s\<lparr>world := w, calls := calls s @ [Hedge (close_side (is_above c)) (hedge_qty_btc (data (pos s))) (btc_mid (ss s)) x]\<rparr>"
    by blast
  show ?thesis using True by (simp add: s' s1 close_frame_def unhedges_position_def)
qed

lemma close_frame_trans: "close_frame s t \<Longrightarrow> close_frame t u \<Longrightarrow> close_frame s u"
  by (simp add: close_frame_def)

lemma close_position_closed: "\<not> is_open (pos s) \<Longrightarrow> close_position V c b s = (Inr (), s\<lparr>st := IDLE\<rparr>)"
  by (simp add: close_position_def bind_def gets_def transition_def modify_def)

lemma close_position_run:
  assumes "close_position V c b s = (Inr u, s')" and "is_open (pos s)"
  shows "close_frame s s' \<and> st s' = CLOSING
    \<and> (\<exists>cs hs. calls s' = calls s @ cs @ hs \<and> sells_position c (ss s) (data (pos s)) cs
        \<and> unhedges_position c (ss s) (data (pos s)) hs)"
proof -
  from assms obtain s1 s2 where
    1: "close_poly_leg V c s = (Inr (), s1)" and 2: "close_hedge_leg V c s1 = (Inr (), s2)"
    and s': "s' = s2\<lparr>st := CLOSING\<rparr>"
    unfolding close_position_def transition_def by (auto elim!: bind_InrE andthen_InrE)
  from close_poly_leg_run [OF 1] obtain cs where
    f1: "close_frame s s1" and c1: "calls s1 = calls s @ cs" "sells_position c (ss s) (data (pos s)) cs" by blast
  from close_hedge_leg_run [OF 2] obtain hs where
    f2: "close_frame s1 s2" and c2: "calls s2 = calls s1 @ hs" "unhedges_position c (ss s1) (data (pos s1)) hs" by blast
  have e: "ss s1 = ss s" "pos s1 = pos s" using f1 by (simp_all add: close_frame_def)
  have "close_frame s s'"
    using close_frame_trans [OF f1 f2] by (simp add: s' close_frame_def)
  moreover have "st s' = CLOSING" "calls s' = calls s @ cs @ hs" by (simp_all add: s' c1 c2)
  ultimately show ?thesis using c1(2) c2(2) unfolding e by blast
qed

lemma close_position_open:
  assumes "close_position V c b s = (Inr u, s')"
  shows "close_frame s s' \<and> st s' = (if is_open (pos s) then CLOSING else IDLE)"
proof (cases "is_open (pos s)")
  case True
  then show ?thesis using close_position_run [OF assms] by simp
next
  case False
  then have "s' = s\<lparr>st := IDLE\<rparr>" using assms close_position_closed [OF False, of V c b] by simp
  then show ?thesis using False by (simp add: close_frame_def)
qed

end
