(* ===== verification/Osm_Safety.thy ===== *)
theory Osm_Safety
  imports Order_State_Machine
begin

text \<open>
  What the order state machine guarantees: the state invariant (a position is open exactly in the
  states \<open>POSITION_OPEN\<close> and \<open>CLOSING\<close>), the accounting of the shared position count, the deadlines,
  and the behaviours at the end of a market's life.
\<close>

subsection \<open>The state invariant and the accounting\<close>

definition holding :: "osm_state \<Rightarrow> bool" where
  "holding x \<longleftrightarrow> x = POSITION_OPEN \<or> x = CLOSING"

definition osm_inv :: "('w, 'z) osm_scheme \<Rightarrow> bool" where
  "osm_inv s \<longleftrightarrow> (is_open (pos s) \<longleftrightarrow> holding (st s)) \<and> st s \<noteq> TAKER_PEND"

definition own_count :: "('w, 'z) osm_scheme \<Rightarrow> u32" where
  "own_count s = (if is_open (pos s) then 1 else 0)"

text \<open>The position count without this machine's own position.\<close>

definition others_count :: "('w, 'z) osm_scheme \<Rightarrow> u32" where
  "others_count s = open_position_count (ss s) - own_count s"

definition step_ok :: "('w, 'z) osm_scheme \<Rightarrow> ('w, 'z) osm_scheme \<Rightarrow> bool" where
  "step_ok s s' \<longleftrightarrow> osm_inv s' \<and> others_count s' = others_count s"

lemmas step_defs = step_ok_def osm_inv_def others_count_def own_count_def holding_def

lemma step_ok_arm: "osm_inv s \<Longrightarrow> arm_changes s s' \<Longrightarrow> step_ok s s'"
  using arm_changesD [of s s'] by (simp add: step_defs)

lemma step_ok_trans: "step_ok s t \<Longrightarrow> step_ok t u \<Longrightarrow> step_ok s u"
  by (simp add: step_ok_def)

lemma step_ok_refl: "osm_inv s \<Longrightarrow> step_ok s s"
  by (simp add: step_ok_def)

lemma step_ok_close: "close_position V c b s = (Inr u, s') \<Longrightarrow> step_ok s s'"
  by (drule close_position_open) (auto simp: step_defs close_frame_def split: if_splits)

lemma step_ok_transition:
  "transition x s = (Inr u, s') \<Longrightarrow> is_open (pos s) \<longleftrightarrow> holding x \<Longrightarrow> x \<noteq> TAKER_PEND \<Longrightarrow> step_ok s s'"
  by (auto simp: transition_def step_defs)

lemma step_ok_opened:
  assumes "andthen (open_position e) (transition POSITION_OPEN) s = (Inr u, s')" and "\<not> is_open (pos s)"
  shows "step_ok s s'"
  using assms by (auto simp: open_position_def transition_def step_defs pm_open_def elim!: andthen_InrE)

lemma step_ok_released:
  assumes "andthen release_position (transition IDLE) s = (Inr u, s')" and "is_open (pos s)"
  shows "step_ok s s'"
  using assms by (auto simp: release_position_def transition_def step_defs pm_close_def elim!: andthen_InrE)

lemma step_ok_released2:
  assumes "andthen release_position (andthen (modify (\<lambda>s. s\<lparr>close_poly_order_id := [], close_coinbase_order_id := []\<rparr>))
      (transition IDLE)) s = (Inr u, s')" and "is_open (pos s)"
  shows "step_ok s s'"
  using assms by (auto simp: release_position_def transition_def step_defs pm_close_def elim!: andthen_InrE)

lemma closed_after_arm: "arm_changes s s' \<Longrightarrow> is_open (pos s') = is_open (pos s) \<and> st s' = st s"
  using arm_changesD [of s s'] by simp

lemma idle_edge_run:
  assumes "(if b then bind (in_cooldown V) (\<lambda>cd. ret (\<not> cd)) else ret False) s = (Inr r, s')"
  shows "arm_changes s s'"
proof (cases b)
  case True
  with assms obtain cd where "in_cooldown V s = (Inr cd, s')" by (auto elim: bind_InrE)
  then show ?thesis by (rule arm_runs(2))
qed (use assms in \<open>simp add: arm_changes_def\<close>)

lemma handle_idle_ok:
  assumes "handle_idle V c s = (Inr u, s')" and "osm_inv s" and "st s = IDLE"
  shows "step_ok s s'"
proof -
  have nopen: "\<not> is_open (pos s)" using assms by (simp add: osm_inv_def holding_def)
  let ?b = "fle (compute_e_min_taker (ss s)) (edge_of (ss s))"
  let ?rest = "\<lambda>take. if take then transition TAKER_EVAL
       else if quotes_cancelled s then skip
       else if regime (ss s) = SIDEWAYS \<and> flt (fabs (edge_of (ss s))) (compute_e_min_taker (ss s))
       then bind (quote V (maker_cfg c) (p_true (ss s))) (\<lambda>ok. if ok then transition MAKER_QUOTED else skip)
       else skip"
  have run: "(if entries_stopped s then skip
       else if MAX_OPEN_POSITIONS \<le> sint (open_position_count (ss s)) then skip
       else bind (if ?b then bind (in_cooldown V) (\<lambda>cd. ret (\<not> cd)) else ret False) ?rest) s = (Inr u, s')"
    using assms(1) by (simp only: handle_idle_def bind_gets id_apply nopen if_False Let_def)
  consider "s' = s" | "bind (if ?b then bind (in_cooldown V) (\<lambda>cd. ret (\<not> cd)) else ret False) ?rest s = (Inr u, s')"
    using run by (auto simp only: skip_Inr split: if_split_asm)
  then consider "s' = s"
    | take t where "(if ?b then bind (in_cooldown V) (\<lambda>cd. ret (\<not> cd)) else ret False) s = (Inr take, t)"
        "?rest take t = (Inr u, s')"
    by cases (blast, erule bind_InrE, blast)
  then show ?thesis
  proof cases
    case 1
    then show ?thesis using assms(2) by (simp add: step_ok_refl)
  next
    case 2
    note a = idle_edge_run [OF 2(1)]
    note t = step_ok_arm [OF assms(2) a] closed_after_arm [OF a]
    then have ti: "osm_inv t" by (simp add: step_ok_def)
    have "step_ok t s'"
    proof (cases take)
      case True
      then show ?thesis using 2(2) t(2) nopen by (auto intro: step_ok_transition simp: holding_def)
    next
      case False
      with 2(2) consider "s' = t"
        | ok v where "quote V (maker_cfg c) (p_true (ss s)) t = (Inr ok, v)"
            "(if ok then transition MAKER_QUOTED else skip) v = (Inr u, s')"
        by (auto elim!: bind_InrE split: if_splits)
      then show ?thesis
      proof cases
        case 2
        note q = arm_runs(4) [OF 2(1)]
        have v: "step_ok t v" "\<not> is_open (pos v)" "osm_inv v"
          using step_ok_arm [OF ti q] closed_after_arm [OF q] t(2) nopen by (simp_all add: step_ok_def)
        have "step_ok v s'"
          using 2(2) v by (cases ok) (auto intro: step_ok_transition step_ok_refl simp: holding_def)
        then show ?thesis using v(1) step_ok_trans by blast
      qed (use ti in \<open>simp add: step_ok_refl\<close>)
    qed
    then show ?thesis using t(1) step_ok_trans by blast
  qed
qed

lemma handle_taker_eval_ok:
  assumes "handle_taker_eval V c s = (Inr u, s')" and "osm_inv s" and "st s = TAKER_EVAL"
  shows "step_ok s s'"
proof -
  have nopen: "\<not> is_open (pos s)" using assms by (simp add: osm_inv_def holding_def)
  from assms(1) obtain res entry t where
    f: "fire V (taker_cfg c) (from_double (bankroll_usdc (ss s))) (from_double (total_exposure_usdc (ss s)))
          empty_entry s = (Inr (res, entry), t)"
    and r: "(case res of
         SUCCESS \<Rightarrow> andthen (open_position entry) (transition POSITION_OPEN)
       | SKIPPED \<Rightarrow> transition IDLE
       | LEG_FAIL \<Rightarrow> transition IDLE
       | ERROR \<Rightarrow> transition IDLE) t = (Inr u, s')"
    unfolding handle_taker_eval_def by (auto elim!: bind_InrE)
  note a = arm_runs(1) [OF f]
  have t: "step_ok s t" "\<not> is_open (pos t)" using step_ok_arm [OF assms(2) a] closed_after_arm [OF a] nopen by simp_all
  have "step_ok t s'"
    using r t(2) by (cases res) (auto intro: step_ok_transition step_ok_opened simp: holding_def)
  then show ?thesis using t(1) step_ok_trans by blast
qed

lemma handle_position_open_ok:
  assumes "handle_position_open V c s = (Inr u, s')" and "osm_inv s" and "st s = POSITION_OPEN"
  shows "step_ok s s'"
proof -
  obtain reason pm where e: "pm_evaluate (ss s) (pos s) = (reason, pm)" by (cases "pm_evaluate (ss s) (pos s)") blast
  note pm = pm_evaluate_keeps [OF e]
  from assms(1) consider b where "close_position V c b s = (Inr u, s')"
    | "(if reason \<noteq> NONE then close_position V c (reason = HARD_STOP) else skip) (s\<lparr>pos := pm\<rparr>) = (Inr u, s')"
    unfolding handle_position_open_def by (auto simp: e elim!: bind_InrE andthen_InrE split: if_splits)
  then show ?thesis
  proof cases
    case 1
    then show ?thesis by (rule step_ok_close)
  next
    case 2
    have t: "step_ok s (s\<lparr>pos := pm\<rparr>)" using pm assms(2) by (simp add: step_defs)
    then have "osm_inv (s\<lparr>pos := pm\<rparr>)" by (simp add: step_ok_def)
    then have "step_ok (s\<lparr>pos := pm\<rparr>) s'"
      using 2 by (auto simp: step_ok_refl dest: step_ok_close split: if_splits)
    then show ?thesis using t step_ok_trans by blast
  qed
qed

lemma handle_closing_ok:
  assumes "handle_closing V s = (Inr u, s')" and "osm_inv s" and "st s = CLOSING"
  shows "step_ok s s'"
proof -
  have op: "is_open (pos s)" using assms by (simp add: osm_inv_def holding_def)
  show ?thesis
  proof (cases "close_poly_order_id s = []")
    case True
    then show ?thesis using assms(1) op unfolding handle_closing_def
      by (auto elim!: bind_InrE intro: step_ok_released)
  next
    case False
    with assms(1) obtain x t where p: "clob_status V (close_poly_order_id s) s = (Inr x, t)"
      and r: "(if os_state x = FILLED \<or> os_state x = CANCELLED
            then andthen release_position
                 (andthen (modify (\<lambda>s. s\<lparr>close_poly_order_id := [], close_coinbase_order_id := []\<rparr>))
                   (transition IDLE))
            else skip) t = (Inr u, s')"
      unfolding handle_closing_def by (auto elim!: bind_InrE)
    from clob_status_run [OF p] have a: "arm_changes s t" by (auto simp: arm_changes_def)
    have t: "step_ok s t" "is_open (pos t)" "osm_inv t"
      using step_ok_arm [OF assms(2) a] closed_after_arm [OF a] op by (simp_all add: step_ok_def)
    have "step_ok t s'" using r t by (auto intro: step_ok_released2 step_ok_refl split: if_splits)
    then show ?thesis using t(1) step_ok_trans by blast
  qed
qed

text \<open>After the quote cancellation deadline a fill is never reported: the ids are gone.\<close>

lemma manage_after_cancel:
  assumes "cancel_all V s = (Inr (), t)" and "manage V mc e t = (Inr (status, entry), t')"
  shows "arm_changes s t' \<and> status \<noteq> FILLED_BID \<and> status \<noteq> FILLED_ASK"
proof -
  have "bid_order_id t = []" "ask_order_id t = []" using cancel_all_changes [OF assms(1)] by simp_all
  then have "status \<noteq> FILLED_BID \<and> status \<noteq> FILLED_ASK" using manage_run [OF assms(2)] by blast
  then show ?thesis using arm_changes_trans [OF arm_runs(3) [OF assms(1)] arm_runs(5) [OF assms(2)]] by blast
qed

lemma handle_maker_quoted_late:
  assumes "handle_maker_quoted V c s = (Inr u, s')" and "quotes_cancelled s"
  obtains t where "arm_changes s t" "s' = t\<lparr>st := IDLE\<rparr>"
proof -
  have "andthen (cancel_all V)
            (bind (manage V (maker_cfg c) empty_entry) (\<lambda>(status, entry).
               if status = FILLED_BID \<or> status = FILLED_ASK then handle_late_fill V c entry
               else transition IDLE)) s = (Inr u, s')"
    using assms by (simp only: handle_maker_quoted_def bind_gets id_apply if_True)
  then obtain t1 where 1: "cancel_all V s = (Inr (), t1)" and
    "bind (manage V (maker_cfg c) empty_entry) (\<lambda>(status, entry).
               if status = FILLED_BID \<or> status = FILLED_ASK then handle_late_fill V c entry
               else transition IDLE) t1 = (Inr u, s')" by (rule andthen_InrE)
  then obtain status entry t2 where 2: "manage V (maker_cfg c) empty_entry t1 = (Inr (status, entry), t2)"
    and 3: "(if status = FILLED_BID \<or> status = FILLED_ASK then handle_late_fill V c entry
               else transition IDLE) t2 = (Inr u, s')" by (auto elim: bind_InrE)
  from manage_after_cancel [OF 1 2] show thesis
    using 3 that [of t2] by (simp add: transition_def)
qed

lemma handle_maker_quoted_ok:
  assumes "handle_maker_quoted V c s = (Inr u, s')" and "osm_inv s" and "st s = MAKER_QUOTED"
  shows "step_ok s s'"
proof -
  have nopen: "\<not> is_open (pos s)" using assms by (simp add: osm_inv_def holding_def)
  show ?thesis
  proof (cases "quotes_cancelled s")
    case True
    with assms(1) obtain t where "arm_changes s t" "s' = t\<lparr>st := IDLE\<rparr>" by (rule handle_maker_quoted_late)
    then show ?thesis using nopen arm_changesD [of s t] by (simp add: step_defs)
  next
    case False
    let ?b = "fle (compute_e_min_taker (ss s)) (edge_of (ss s))"
    let ?rest = "\<lambda>take. if take then andthen (cancel_all V) (transition TAKER_EVAL)
            else bind (manage V (maker_cfg c) empty_entry) (\<lambda>(status, entry).
              case status of
                FILLED_BID \<Rightarrow> andthen (open_position entry) (transition POSITION_OPEN)
              | FILLED_ASK \<Rightarrow> andthen (open_position entry) (transition POSITION_OPEN)
              | TIMED_OUT \<Rightarrow> transition IDLE
              | ACTIVE \<Rightarrow> skip
              | REPRICED \<Rightarrow> skip)"
    have "bind (if ?b then bind (in_cooldown V) (\<lambda>cd. ret (\<not> cd)) else ret False) ?rest s = (Inr u, s')"
      using assms(1) by (simp only: handle_maker_quoted_def bind_gets id_apply False if_False)
    then obtain take t where 1: "(if ?b then bind (in_cooldown V) (\<lambda>cd. ret (\<not> cd)) else ret False) s = (Inr take, t)"
      and 2: "?rest take t = (Inr u, s')" by (rule bind_InrE)
    note a = idle_edge_run [OF 1]
    have t: "step_ok s t" "\<not> is_open (pos t)" "osm_inv t"
      using step_ok_arm [OF assms(2) a] closed_after_arm [OF a] nopen by (simp_all add: step_ok_def)
    have "step_ok t s'"
    proof (cases take)
      case True
      with 2 obtain v where "cancel_all V t = (Inr (), v)" and tr: "transition TAKER_EVAL v = (Inr u, s')"
        by (auto elim: andthen_InrE)
      note c = arm_runs(3) [OF this(1)]
      have "step_ok t v" "\<not> is_open (pos v)" using step_ok_arm [OF t(3) c] closed_after_arm [OF c] t by simp_all
      then show ?thesis using step_ok_transition [OF tr] step_ok_trans by (auto simp: holding_def)
    next
      case False
      with 2 obtain status entry v where m: "manage V (maker_cfg c) empty_entry t = (Inr (status, entry), v)"
        and r: "(case status of
                FILLED_BID \<Rightarrow> andthen (open_position entry) (transition POSITION_OPEN)
              | FILLED_ASK \<Rightarrow> andthen (open_position entry) (transition POSITION_OPEN)
              | TIMED_OUT \<Rightarrow> transition IDLE
              | ACTIVE \<Rightarrow> skip
              | REPRICED \<Rightarrow> skip) v = (Inr u, s')" by (auto elim: bind_InrE)
      note c = arm_runs(5) [OF m]
      have v: "step_ok t v" "\<not> is_open (pos v)" "osm_inv v"
        using step_ok_arm [OF t(3) c] closed_after_arm [OF c] t by (simp_all add: step_ok_def)
      have "step_ok v s'"
        using r v by (cases status)
          (auto intro: step_ok_transition step_ok_opened step_ok_refl simp: holding_def)
      then show ?thesis using v(1) step_ok_trans by blast
    qed
    then show ?thesis using t(1) step_ok_trans by blast
  qed
qed

lemma dispatch_ok:
  assumes "dispatch V c s = (Inr u, s')" and "osm_inv s"
  shows "step_ok s s'"
  using assms
  by (cases "st s")
    (auto simp: dispatch_def step_ok_refl intro: handle_idle_ok handle_taker_eval_ok handle_maker_quoted_ok
      handle_position_open_ok handle_closing_ok)

lemma evaluate_run:
  assumes "evaluate V c s = (Inr u, s')"
  obtains t w where
    "time_remaining_s V c s = (Inr t, s\<lparr>world := w\<rparr>)"
    "(if flt t (Fin 0) then (if is_open (pos s) then close_position V c True else skip) else dispatch V c)
       (deadline_flags t (s\<lparr>world := w\<rparr>)) = (Inr u, s')"
proof -
  from assms obtain t s1 where 1: "time_remaining_s V c s = (Inr t, s1)" and
    2: "andthen (modify (deadline_flags t))
       (if flt t (Fin 0)
        then bind (gets (\<lambda>s. is_open (pos s))) (\<lambda>op. if op then close_position V c True else skip)
        else dispatch V c) s1 = (Inr u, s')"
    unfolding evaluate_def by (rule bind_InrE)
  from time_remaining_run [OF 1] obtain w where s1: "s1 = s\<lparr>world := w\<rparr>" by blast
  have "pos (deadline_flags t s1) = pos s" by (simp add: s1 deadline_flags_def)
  with 2 have "(if flt t (Fin 0) then (if is_open (pos s) then close_position V c True else skip) else dispatch V c)
       (deadline_flags t (s\<lparr>world := w\<rparr>)) = (Inr u, s')"
    by (cases "flt t (Fin 0)") (simp_all add: s1)
  then show thesis using that 1 s1 by blast
qed

lemma deadline_flags_ok: "osm_inv s \<Longrightarrow> step_ok s (deadline_flags t (s\<lparr>world := w\<rparr>))"
  by (simp add: step_defs deadline_flags_def)

lemma evaluate_ok:
  assumes "evaluate V c s = (Inr u, s')" and "osm_inv s"
  shows "step_ok s s'"
  using assms(1)
proof (rule evaluate_run)
  fix t w
  let ?s = "deadline_flags t (s\<lparr>world := w\<rparr>)"
  assume r: "(if flt t (Fin 0) then (if is_open (pos s) then close_position V c True else skip) else dispatch V c)
       ?s = (Inr u, s')"
  have d: "step_ok s ?s" by (rule deadline_flags_ok [OF assms(2)])
  then have i: "osm_inv ?s" by (simp add: step_ok_def)
  have "step_ok ?s s'"
    using r i by (auto intro: step_ok_close dispatch_ok step_ok_refl split: if_split_asm)
  then show ?thesis using d step_ok_trans by blast
qed

lemma step_ok_flatten: "step_ok s x \<Longrightarrow> step_ok s (x\<lparr>flatten_flag := b\<rparr>)"
proof -
  have "osm_inv (x\<lparr>flatten_flag := b\<rparr>) = osm_inv x" by (simp add: osm_inv_def)
  moreover have "others_count (x\<lparr>flatten_flag := b\<rparr>) = others_count x"
    by (simp add: others_count_def own_count_def)
  ultimately show "step_ok s x \<Longrightarrow> ?thesis" by (simp add: step_ok_def)
qed

text \<open>The parts of an iteration of a machine that is not stopped.\<close>

lemma iteration_run:
  assumes "run_iteration V c s = (Inr go, s')" and "\<not> stop_flag s"
  obtains s1 s2 t where
    "(if flatten_flag s then andthen (close_position V c True) (modify (\<lambda>s. s\<lparr>flatten_flag := False\<rparr>))
      else skip) s = (Inr (), s1)"
    "evaluate V c s1 = (Inr (), s2)" "time_remaining_s V c s2 = (Inr t, s')"
proof -
  have "andthen (if flatten_flag s
                   then andthen (close_position V c True) (modify (\<lambda>s. s\<lparr>flatten_flag := False\<rparr>))
                   else skip)
          (andthen (evaluate V c)
          (bind (time_remaining_s V c) (\<lambda>t.
           bind (gets (\<lambda>s. is_open (pos s))) (\<lambda>op.
             ret (\<not> (flt t (lit (- 60)) \<and> \<not> op)))))) s = (Inr go, s')"
    using assms by (simp only: run_iteration_def bind_gets id_apply if_False)
  then show thesis using that by (auto elim!: andthen_InrE bind_InrE)
qed

lemma iteration_ok:
  assumes "run_iteration V c s = (Inr go, s')" and "osm_inv s"
  shows "step_ok s s'"
proof (cases "stop_flag s")
  case True
  then show ?thesis using assms by (simp add: run_iteration_def step_ok_refl)
next
  case False
  from assms(1) this show ?thesis
  proof (rule iteration_run)
    fix s1 s2 t
    assume 1: "(if flatten_flag s then andthen (close_position V c True) (modify (\<lambda>s. s\<lparr>flatten_flag := False\<rparr>))
                     else skip) s = (Inr (), s1)"
      and 2: "evaluate V c s1 = (Inr (), s2)" and 3: "time_remaining_s V c s2 = (Inr t, s')"
    have s1: "step_ok s s1"
    proof (cases "flatten_flag s")
      case True
      with 1 obtain x where "close_position V c True s = (Inr (), x)" "s1 = x\<lparr>flatten_flag := False\<rparr>"
        by (auto elim: andthen_InrE)
      then show ?thesis using step_ok_close step_ok_flatten by blast
    qed (use 1 assms(2) in \<open>simp add: step_ok_refl\<close>)
    then have "step_ok s1 s2" using evaluate_ok [OF 2] by (simp add: step_ok_def)
    moreover have "step_ok s2 s'" using time_remaining_run [OF 3] calculation by (auto simp: step_defs)
    ultimately show ?thesis using s1 by (simp add: step_ok_def)
  qed
qed

text \<open>The iterations of one machine are turns of a thread over the shared position count.\<close>

definition machine_turn :: "'w venue \<Rightarrow> osm_config \<Rightarrow> ('w, 'z) osm_scheme \<Rightarrow> ('w, 'z) osm_scheme \<Rightarrow> bool" where
  "machine_turn V c s s' \<longleftrightarrow> (\<exists>go. run_iteration V c s = (Inr go, s'))"

interpretation machine: counted_thread "machine_turn V c" osm_inv "\<lambda>s. open_position_count (ss s)" own_count for V c
  by unfold_locales (auto simp: machine_turn_def step_ok_def others_count_def dest: iteration_ok)

text \<open>
  C7. Every iteration of the loop that returns keeps the state invariant (a position is
  open exactly in \<open>POSITION_OPEN\<close> and \<open>CLOSING\<close>, \<open>TAKER_PEND\<close> is never entered) and moves the shared
  \<open>open_position_count\<close> by exactly the change of this machine's own position, whatever the venues
  answer and whichever handler runs, the emergency flatten included.
\<close>

theorem iteration_keeps_accounts:
  assumes "run_iteration V c s = (Inr go, s')" and "osm_inv s"
  shows "osm_inv s' \<and> others_count s' = others_count s"
  using machine.turn_inv [OF assms(2)] machine.turn_rest [OF assms(2)] assms(1)
  unfolding machine_turn_def others_count_def by blast

definition sample_market :: osm_config where
  "sample_market =
     \<lparr>condition_id = ''c1'', token_id = ''7'', strike_price = Fin 0, resolution_us = 100000000, is_above = True,
      maker_half_spread_usdc = lit (5 / 1000), maker_size_usdc = MAX_MAKER_QUOTE_USDC\<rparr>"

definition new_osm :: "shared_state \<Rightarrow> unit osm" where
  "new_osm sh =
     \<lparr>world = (), calls = [], next_nonce = 0, ss = sh, last_entry = 0, bid_order_id = [], ask_order_id = [],
      quoted_mid = Fin 0, quoted_fair = Fin 0, quote_time = 0, pos = new_position_manager, st = IDLE,
      stop_flag = False, flatten_flag = False, entries_stopped = False, quotes_cancelled = False,
      positions_closed = False, force_closed = False, close_poly_order_id = [],
      close_coinbase_order_id = []\<rparr>"

lemma e_min_roundings:
  "fl (1 / 50) = Fin (5764607523034235 / 288230376151711744)"
  "fl (1 / 10) = Fin (3602879701896397 / 36028797018963968)"
  "fl (3 / 4) = Fin (3 / 4)"
  "fl (1 / 200) = Fin (5764607523034235 / 1152921504606846976)"
  "fl (144115188075855875 / 288230376151711744) = Fin (1 / 2)"
  "fl (149879795598890107 / 288230376151711744) = Fin (1170935903116329 / 2251799813685248)"
  "fl (22337854151757661 / 36028797018963968) = Fin (5584463537939415 / 9007199254740992)"
  "fl (1 / 1000) = Fin (1152921504606847 / 1152921504606846976)"
  using fl_eqI [of "- 6" "1 / 50" 5764607523034235]
    fl_eqI [of "- 4" "1 / 10" 7205759403792794]
    fl_eqI [of "- 1" "3 / 4" 6755399441055744]
    fl_eqI [of "- 8" "1 / 200" 5764607523034235]
    fl_eqI [of "- 1" "144115188075855875 / 288230376151711744" 4503599627370496]
    fl_eqI [of "- 1" "149879795598890107 / 288230376151711744" 4683743612465316]
    fl_eqI [of "- 1" "22337854151757661 / 36028797018963968" 5584463537939415]
    fl_eqI [of "- 10" "1 / 1000" 4611686018427388]
  by (simp_all add: pow2_def)

lemma e_min_initial: "compute_e_min_taker initial_shared = fdiv (fl (12339862978995159 / 9007199254740992)) (Fin 100)"
proof -
  have h: "lit (1 / 2) = Fin (1 / 2)" "HALF_SPREAD_DEFAULT_CENTS = Fin (1 / 2)"
    using fl_eqI [of "- 1" "1 / 2" 4503599627370496]
    by (simp_all add: lit_def pow2_def HALF_SPREAD_DEFAULT_CENTS_def)
  have c: "FEE_TAKER_CENTS = Fin (5764607523034235 / 288230376151711744)"
    "FRICTION_SETTLEMENT_CENTS = Fin (3602879701896397 / 36028797018963968)"
    "ALPHA_BUFFER_CENTS = Fin (3 / 4)"
    by (simp_all add: FEE_TAKER_CENTS_def FRICTION_SETTLEMENT_CENTS_def ALPHA_BUFFER_CENTS_def lit_def e_min_roundings)
  show ?thesis
    by (simp add: compute_e_min_taker_def initial_shared_def h c fsub_def lit_numeral fl_numeral e_min_roundings)
      (simp add: lit_def h c fl_numeral e_min_roundings)
qed

lemma e_min_default: "fle (compute_e_min_taker initial_shared) (Fin (1 / 4))"
proof -
  have "fle (fl (12339862978995159 / 9007199254740992)) (fl 2)" by (rule fl_mono) simp
  then have "fle (fl (12339862978995159 / 9007199254740992)) (Fin 2)" by (simp add: fl_numeral)
  from fdiv_fle_mono [OF this, of 100]
  have "fle (compute_e_min_taker initial_shared) (fl (1 / 50))" by (simp add: e_min_initial)
  then show ?thesis by (simp add: e_min_roundings fle_trans)
qed

lemma e_min_positive: "flt (Fin 0) (compute_e_min_taker initial_shared)"
proof -
  have "fle (fl 1) (fl (12339862978995159 / 9007199254740992))" by (rule fl_mono) simp
  then have "fle (Fin 1) (fl (12339862978995159 / 9007199254740992))" by simp
  from fdiv_fle_mono [OF this, of 100]
  have l: "fle (fl (1 / 100)) (compute_e_min_taker initial_shared)" by (simp add: e_min_initial)
  have "fle (fl (1 / 200)) (fl (1 / 100))" by (rule fl_mono) simp
  then have "fle (fl (1 / 200)) (compute_e_min_taker initial_shared)" using l fle_trans by blast
  then show ?thesis by (cases "compute_e_min_taker initial_shared") (simp_all add: e_min_roundings)
qed

lemma returns_osm_basic [total]:
  "returns (transition x)" "returns (open_position e)" "returns release_position"
  "returns (time_remaining_s V c)" "returns (handle_closing V)"
  unfolding transition_def open_position_def release_position_def time_remaining_s_def handle_closing_def
  by (intro total)+

lemma returns_close_position [total]:
  "calm V \<Longrightarrow> parse_token_id (token_id c) = Inr v \<Longrightarrow> returns (close_position V c b)"
  unfolding close_position_def close_poly_leg_def close_hedge_leg_def by (intro total)

lemma returns_taker_result [total]:
  "returns a \<Longrightarrow> returns b \<Longrightarrow> returns d \<Longrightarrow> returns e \<Longrightarrow>
     returns (case r of SUCCESS \<Rightarrow> a | SKIPPED \<Rightarrow> b | LEG_FAIL \<Rightarrow> d | ERROR \<Rightarrow> e)"
  by (cases r) simp_all

lemma returns_maker_status [total]:
  "returns a \<Longrightarrow> returns b \<Longrightarrow> returns d \<Longrightarrow> returns e \<Longrightarrow> returns f \<Longrightarrow>
     returns (case r of ACTIVE \<Rightarrow> a | FILLED_BID \<Rightarrow> b | FILLED_ASK \<Rightarrow> d | TIMED_OUT \<Rightarrow> e | REPRICED \<Rightarrow> f)"
  by (cases r) simp_all

lemma returns_handlers [total]:
  assumes "calm V" and "parse_token_id (token_id c) = Inr v"
  shows "returns (handle_idle V c)" "returns (handle_taker_eval V c)" "returns (handle_maker_quoted V c)"
    "returns (handle_position_open V c)"
proof -
  have p: "parse_token_id (tc_token_id (taker_cfg c)) = Inr v"
    "parse_token_id (mc_token_id (maker_cfg c)) = Inr v"
    using assms(2) by (simp_all add: taker_cfg_def maker_cfg_def)
  show "returns (handle_idle V c)"
    unfolding handle_idle_def using assms p by (intro total)
  show "returns (handle_taker_eval V c)"
    unfolding handle_taker_eval_def using assms p by (intro total)
  show "returns (handle_maker_quoted V c)"
    unfolding handle_maker_quoted_def handle_late_fill_def using assms p by (intro total)
  show "returns (handle_position_open V c)"
    unfolding handle_position_open_def using assms p by (intro total)
qed

lemma returns_evaluate [total]:
  assumes "calm V" and "parse_token_id (token_id c) = Inr v"
  shows "returns (evaluate V c)"
proof -
  have "returns (case x of IDLE \<Rightarrow> handle_idle V c | TAKER_EVAL \<Rightarrow> handle_taker_eval V c
       | TAKER_PEND \<Rightarrow> skip | MAKER_QUOTED \<Rightarrow> handle_maker_quoted V c
       | POSITION_OPEN \<Rightarrow> handle_position_open V c | CLOSING \<Rightarrow> handle_closing V)" for x
    using returns_handlers [OF assms] by (cases x) (simp_all add: total)
  then show ?thesis unfolding evaluate_def dispatch_def using assms by (intro total)
qed

lemma returns_run_iteration [total]:
  "calm V \<Longrightarrow> parse_token_id (token_id c) = Inr v \<Longrightarrow> returns (run_iteration V c)"
  unfolding run_iteration_def by (intro total)

lemma token_sample: "parse_token_id (token_id sample_market) = Inr (u64_to_uint256 7)"
  by (simp add: sample_market_def token_7)

theorem iteration_keeps_accounts_witness:
  "\<exists>go s'. run_iteration (still_venue 1000000000) sample_market (new_osm initial_shared) = (Inr go, s')
     \<and> osm_inv s'"
proof -
  from returnsE [OF returns_run_iteration [OF calm_still token_sample], of 1000000000 "new_osm initial_shared"]
  obtain go s' where r: "run_iteration (still_venue 1000000000) sample_market (new_osm initial_shared) = (Inr go, s')"
    by blast
  have "osm_inv (new_osm initial_shared)"
    by (simp add: osm_inv_def new_osm_def new_position_manager_def holding_def)
  from iteration_keeps_accounts [OF r this] r show ?thesis by blast
qed

subsection \<open>Deadlines\<close>

text \<open>
  C3. The closing deadline. An evaluation that finds between 0 and 30 seconds left and
  an open position leaves \<open>POSITION_OPEN\<close> for \<open>CLOSING\<close>: it sells the whole position by one IOC order at
  the current bid (when both order amounts are positive) and buys back the whole hedge (when it is
  at least 0.001 BTC), whatever the profit is; the position data is kept for the release.
\<close>

theorem position_closed_before_resolution:
  assumes "evaluate V c s = (Inr u, s')" and "st s = POSITION_OPEN" and "is_open (pos s)"
    and "time_remaining_s V c s = (Inr t, s1)" and "fle (Fin 0) t" and "fle t (lit 30)"
  shows "st s' = CLOSING \<and> pos s' = pos s
    \<and> (\<exists>cs hs. calls s' = calls s @ cs @ hs \<and> sells_position c (ss s) (data (pos s)) cs
         \<and> unhedges_position c (ss s) (data (pos s)) hs)"
  using assms(1)
proof (rule evaluate_run)
  fix t' w
  let ?s = "deadline_flags t' (s\<lparr>world := w\<rparr>)"
  assume t': "time_remaining_s V c s = (Inr t', s\<lparr>world := w\<rparr>)" and
    r: "(if flt t' (Fin 0) then (if is_open (pos s) then close_position V c True else skip) else dispatch V c)
       ?s = (Inr u, s')"
  have t: "t' = t" using t' assms(4) by simp
  have nf: "\<not> flt t (Fin 0)" using assms(5) by (rule fle_not_flt)
  have f: "st ?s = POSITION_OPEN" "positions_closed ?s" "pos ?s = pos s" "ss ?s = ss s" "calls ?s = calls s"
    using assms(2,6) by (simp_all add: deadline_flags_def t)
  have "dispatch V c ?s = (Inr u, s')" using r nf by (simp add: t)
  then have "handle_position_open V c ?s = (Inr u, s')" by (simp add: dispatch_def f)
  then obtain b where "close_position V c b ?s = (Inr u, s')"
    by (auto simp: handle_position_open_def f split: if_splits)
  from close_position_run [OF this] f assms(3) show ?thesis by (simp add: close_frame_def)
qed

text \<open>
  The late-fill path is unreachable: once quotes are cancelled (T-45s), a quoted machine
  always goes to \<open>IDLE\<close> with the position and the shared accounts untouched; a fill that raced with the
  cancel is never recorded, because \<open>cancel_all\<close> forgets the order ids before \<open>manage\<close> could poll them.
\<close>

theorem late_fill_never_handled:
  assumes "handle_maker_quoted V c s = (Inr u, s')" and "quotes_cancelled s"
  shows "st s' = IDLE \<and> pos s' = pos s \<and> ss s' = ss s"
  using assms by (rule handle_maker_quoted_late) (simp add: arm_changesD)

lemma no_take_in_cooldown:
  assumes "(if b then bind (in_cooldown V) (\<lambda>cd. ret (\<not> cd)) else ret False) s = (Inr tk, t)"
    and "last_entry s \<noteq> 0" and "\<And>w. (fst (v_steady_ns V w) - last_entry s) sdiv 1000000 < 30000"
  shows "\<not> tk"
proof (cases b)
  case True
  obtain now w where w: "v_steady_ns V (world s) = (now, w)" by (cases "v_steady_ns V (world s)") blast
  have "in_cooldown V s = (Inr True, s\<lparr>world := w\<rparr>)"
    using assms(2) assms(3) [of "world s"] by (simp add: in_cooldown_run w)
  then show ?thesis using assms(1) True by (simp add: bind_def)
qed (use assms in simp)

lemma handle_idle_cooldown:
  assumes "handle_idle V c s = (Inr u, s')" and "\<not> is_open (pos s)" and "st s = IDLE"
    and "last_entry s \<noteq> 0" and "\<And>w. (fst (v_steady_ns V w) - last_entry s) sdiv 1000000 < 30000"
  shows "st s' \<noteq> TAKER_EVAL"
proof -
  let ?b = "fle (compute_e_min_taker (ss s)) (edge_of (ss s))"
  let ?rest = "\<lambda>take. if take then transition TAKER_EVAL
       else if quotes_cancelled s then skip
       else if regime (ss s) = SIDEWAYS \<and> flt (fabs (edge_of (ss s))) (compute_e_min_taker (ss s))
       then bind (quote V (maker_cfg c) (p_true (ss s))) (\<lambda>ok. if ok then transition MAKER_QUOTED else skip)
       else skip"
  have run: "(if entries_stopped s then skip
       else if MAX_OPEN_POSITIONS \<le> sint (open_position_count (ss s)) then skip
       else bind (if ?b then bind (in_cooldown V) (\<lambda>cd. ret (\<not> cd)) else ret False) ?rest) s = (Inr u, s')"
    using assms(1,2) by (simp only: handle_idle_def bind_gets id_apply if_False Let_def)
  consider "s' = s" | "bind (if ?b then bind (in_cooldown V) (\<lambda>cd. ret (\<not> cd)) else ret False) ?rest s = (Inr u, s')"
    using run by (auto simp only: skip_Inr split: if_split_asm)
  then show ?thesis
  proof cases
    case 2
    then obtain take t where 1: "(if ?b then bind (in_cooldown V) (\<lambda>cd. ret (\<not> cd)) else ret False) s = (Inr take, t)"
      and r: "?rest take t = (Inr u, s')" by (rule bind_InrE)
    have nt: "\<not> take" using no_take_in_cooldown [OF 1 assms(4,5)] .
    have stt: "st t = IDLE" using closed_after_arm [OF idle_edge_run [OF 1]] assms(3) by simp
    from r nt consider "s' = t"
      | ok v where "quote V (maker_cfg c) (p_true (ss s)) t = (Inr ok, v)"
          "(if ok then transition MAKER_QUOTED else skip) v = (Inr u, s')"
      by (auto elim!: bind_InrE split: if_splits)
    then show ?thesis
    proof cases
      case 2
      then show ?thesis using closed_after_arm [OF arm_runs(4) [OF 2(1)]] stt
        by (cases ok) (auto simp: transition_def)
    qed (simp add: stt)
  qed (simp add: assms(3))
qed

lemma handle_maker_quoted_cooldown:
  assumes "handle_maker_quoted V c s = (Inr u, s')" and "st s = MAKER_QUOTED"
    and "last_entry s \<noteq> 0" and "\<And>w. (fst (v_steady_ns V w) - last_entry s) sdiv 1000000 < 30000"
  shows "st s' \<noteq> TAKER_EVAL"
proof (cases "quotes_cancelled s")
  case True
  with assms(1) obtain t where "s' = t\<lparr>st := IDLE\<rparr>" by (rule handle_maker_quoted_late)
  then show ?thesis by simp
next
  case False
  let ?b = "fle (compute_e_min_taker (ss s)) (edge_of (ss s))"
  let ?rest = "\<lambda>take. if take then andthen (cancel_all V) (transition TAKER_EVAL)
            else bind (manage V (maker_cfg c) empty_entry) (\<lambda>(status, entry).
              case status of
                FILLED_BID \<Rightarrow> andthen (open_position entry) (transition POSITION_OPEN)
              | FILLED_ASK \<Rightarrow> andthen (open_position entry) (transition POSITION_OPEN)
              | TIMED_OUT \<Rightarrow> transition IDLE
              | ACTIVE \<Rightarrow> skip
              | REPRICED \<Rightarrow> skip)"
  have "bind (if ?b then bind (in_cooldown V) (\<lambda>cd. ret (\<not> cd)) else ret False) ?rest s = (Inr u, s')"
    using assms(1) by (simp only: handle_maker_quoted_def bind_gets id_apply False if_False)
  then obtain take t where 1: "(if ?b then bind (in_cooldown V) (\<lambda>cd. ret (\<not> cd)) else ret False) s = (Inr take, t)"
    and 2: "?rest take t = (Inr u, s')" by (rule bind_InrE)
  have nt: "\<not> take" using no_take_in_cooldown [OF 1 assms(3,4)] .
  have stt: "st t = MAKER_QUOTED" using closed_after_arm [OF idle_edge_run [OF 1]] assms(2) by simp
  from 2 nt obtain status entry v where m: "manage V (maker_cfg c) empty_entry t = (Inr (status, entry), v)"
    and r: "(case status of
                FILLED_BID \<Rightarrow> andthen (open_position entry) (transition POSITION_OPEN)
              | FILLED_ASK \<Rightarrow> andthen (open_position entry) (transition POSITION_OPEN)
              | TIMED_OUT \<Rightarrow> transition IDLE
              | ACTIVE \<Rightarrow> skip
              | REPRICED \<Rightarrow> skip) v = (Inr u, s')" by (auto elim: bind_InrE)
  have "st v = MAKER_QUOTED" using closed_after_arm [OF arm_runs(5) [OF m]] stt by simp
  then show ?thesis using r by (cases status) (auto simp: transition_def open_position_def)
qed


subsection \<open>Concrete runs of the deadline properties\<close>

text \<open>The clock \<open>s\<close> seconds after the epoch; the sample market resolves at 100 seconds.\<close>

lemma sample_time_left:
  "time_left sample_market 80000000 = Fin 20" "time_left sample_market 20000000 = Fin 80"
  "time_left sample_market 200000000 = Fin (- 100)"
proof -
  have w: "sint (100000000 - 80000000 :: i64) = 20000000" "sint (100000000 - 20000000 :: i64) = 80000000"
    "sint (100000000 - 200000000 :: i64) = - 100000000" by simp_all
  have f: "f64_of_int 20000000 = Fin 20000000" "f64_of_int 80000000 = Fin 80000000"
    "f64_of_int (- 100000000) = Fin (- 100000000)"
    using fl_of_int [of "- 100000000"] by (simp_all add: f64_of_int_def fl_numeral)
  have m: "fl (- 100) = Fin (- 100)" using fl_of_int [of "- 100"] by simp
  show "time_left sample_market 80000000 = Fin 20" "time_left sample_market 20000000 = Fin 80"
    "time_left sample_market 200000000 = Fin (- 100)"
    using w f m by (simp_all add: time_left_def sample_market_def lit_numeral fl_numeral)
qed

lemma sample_time:
  "time_remaining_s (still_venue 80000000000) sample_market s = (Inr (Fin 20), s)"
  "time_remaining_s (still_venue 20000000000) sample_market s = (Inr (Fin 80), s)"
  "time_remaining_s (still_venue 200000000000) sample_market s = (Inr (Fin (- 100)), s)"
  by (simp_all add: time_remaining_s_def system_micros_def observe_def still_venue_def bind_def ret_def
      signed_divide_int_def sample_time_left)

definition holding_osm :: "unit osm" where
  "holding_osm = (new_osm initial_shared)\<lparr>st := POSITION_OPEN,
     pos := pm_open (empty_entry\<lparr>shares := Fin 2, is_yes_long := True\<rparr>) new_position_manager\<rparr>"

theorem position_closed_before_resolution_witness:
  "\<exists>s'. evaluate (still_venue 80000000000) sample_market holding_osm = (Inr (), s') \<and> st s' = CLOSING"
proof -
  from returnsE [OF returns_evaluate [OF calm_still token_sample], of 80000000000 holding_osm]
  obtain s' where r: "evaluate (still_venue 80000000000) sample_market holding_osm = (Inr (), s')" by auto
  have "st holding_osm = POSITION_OPEN" "is_open (pos holding_osm)"
    by (simp_all add: holding_osm_def pm_open_def)
  from position_closed_before_resolution [OF r this sample_time(1)] r show ?thesis
    by (auto simp: lit_numeral)
qed

theorem late_fill_never_handled_witness:
  "\<exists>s'. handle_maker_quoted (still_venue 0) sample_market
        ((new_osm initial_shared)\<lparr>st := MAKER_QUOTED, quotes_cancelled := True, bid_order_id := ''b''\<rparr>) = (Inr (), s')
     \<and> st s' = IDLE"
proof -
  let ?s = "(new_osm initial_shared)\<lparr>st := MAKER_QUOTED, quotes_cancelled := True, bid_order_id := ''b''\<rparr>"
  from returnsE [OF returns_handlers(3) [OF calm_still token_sample], of 0 ?s]
  obtain s' where r: "handle_maker_quoted (still_venue 0) sample_market ?s = (Inr (), s')" by auto
  from late_fill_never_handled [OF r] r show ?thesis by auto
qed


subsection \<open>The end of the market\<close>

lemma close_position_calls:
  assumes "close_position V c b s = (Inr u, s')" and "is_open (pos s)"
    and "close_amounts (ss s) (data (pos s)) = (m, k)" and "0 < m" and "0 < k"
  shows "close_frame s s' \<and> (\<exists>q x hs. calls s' = calls s @ [Submit q ''IOC'' x] @ hs \<and> side q = 1)"
  using close_position_run [OF assms(1,2)] assms(3-5) by (auto simp: sells_position_def)

lemma expired_evaluate:
  assumes "calm V" and "parse_token_id (token_id c) = Inr v" and "is_open (pos s)"
    and "\<And>w. flt (time_left c (fst (v_system_ns V w) sdiv 1000)) (Fin 0)"
    and "close_amounts (ss s) (data (pos s)) = (m, k)" and "0 < m" and "0 < k"
  obtains s' where "evaluate V c s = (Inr (), s')" "pos s' = pos s" "ss s' = ss s" "stop_flag s' = stop_flag s"
    "st s' = CLOSING" "\<exists>q x hs. calls s' = calls s @ [Submit q ''IOC'' x] @ hs"
proof -
  from returnsE [OF returns_evaluate [OF assms(1,2)], of s]
  obtain s' where e: "evaluate V c s = (Inr (), s')" by auto
  from e show thesis
  proof (rule evaluate_run)
    fix t w
    let ?s = "deadline_flags t (s\<lparr>world := w\<rparr>)"
    assume t: "time_remaining_s V c s = (Inr t, s\<lparr>world := w\<rparr>)" and
      r: "(if flt t (Fin 0) then (if is_open (pos s) then close_position V c True else skip) else dispatch V c)
       ?s = (Inr (), s')"
    obtain ns w' where ns: "v_system_ns V (world s) = (ns, w')" by (cases "v_system_ns V (world s)") blast
    have "t = time_left c (ns sdiv 1000)"
      using t by (simp add: time_remaining_s_def system_micros_def observe_def bind_def ret_def ns)
    then have "flt t (Fin 0)" using assms(4) [of "world s"] by (simp add: ns)
    then have cl: "close_position V c True ?s = (Inr (), s')" using r assms(3) by simp
    have f: "pos ?s = pos s" "ss ?s = ss s" "calls ?s = calls s" "stop_flag ?s = stop_flag s"
      by (simp_all add: deadline_flags_def)
    have op: "is_open (pos ?s)" using assms(3) by (simp add: f)
    have am: "close_amounts (ss ?s) (data (pos ?s)) = (m, k)" using assms(5) by (simp add: f)
    from close_position_calls [OF cl op am assms(6,7)] close_position_open [OF cl] op
    show thesis using that [OF e] f by (simp add: close_frame_def) blast
  qed
qed

definition ioc_submits :: "event list \<Rightarrow> nat" where
  "ioc_submits cs = length (filter (\<lambda>e. case e of Submit r t x \<Rightarrow> t = ''IOC'' | _ \<Rightarrow> False) cs)"

lemma ioc_submits_append [simp]: "ioc_submits (xs @ ys) = ioc_submits xs + ioc_submits ys"
  by (simp add: ioc_submits_def)

end
