(* ===== verification/Osm_Faults.thy ===== *)
theory Osm_Faults
  imports Osm_Safety
begin

text \<open>
  Behaviours of the order state machine that its comments do not describe, as theorems: what
  happens to a position that is still open when the market resolves, an entry after the entry
  deadline, and a closing order that was cancelled.
\<close>

lemma andthen_run: "m s = (Inr (), t) \<Longrightarrow> andthen m n s = n t"
  by (simp add: andthen_def bind_def)

lemma expired_iteration:
  assumes "calm V" and "parse_token_id (token_id c) = Inr v" and "is_open (pos s)" and "\<not> stop_flag s"
    and "\<And>w. flt (time_left c (fst (v_system_ns V w) sdiv 1000)) (Fin 0)"
    and "close_amounts (ss s) (data (pos s)) = (m, k)" and "0 < m" and "0 < k"
  obtains s' where "run_iteration V c s = (Inr True, s')" "pos s' = pos s" "ss s' = ss s" "\<not> stop_flag s'"
    "ioc_submits (calls s) < ioc_submits (calls s')"
proof -
  let ?fl = "if flatten_flag s then andthen (close_position V c True) (modify (\<lambda>s. s\<lparr>flatten_flag := False\<rparr>)) else skip"
  have "returns ?fl" using assms(1,2) by (intro total)
  from returnsE [OF this, of s] obtain u s1 where "?fl s = (Inr u, s1)" by blast
  then have f: "?fl s = (Inr (), s1)" by (cases u) (simp only:)
  have fr: "pos s1 = pos s \<and> ss s1 = ss s \<and> stop_flag s1 = stop_flag s
      \<and> ioc_submits (calls s) \<le> ioc_submits (calls s1)"
  proof (cases "flatten_flag s")
    case True
    with f have "andthen (close_position V c True) (modify (\<lambda>s. s\<lparr>flatten_flag := False\<rparr>)) s = (Inr (), s1)"
      by (simp only: if_True)
    then obtain t where t: "close_position V c True s = (Inr (), t)" "s1 = t\<lparr>flatten_flag := False\<rparr>"
      by (rule andthen_InrE) simp
    from close_position_calls [OF t(1) assms(3,6-8)] show ?thesis by (auto simp: close_frame_def t(2))
  next
    case False
    with f have "skip s = (Inr (), s1)" by (simp only: if_False)
    then show ?thesis by simp
  qed
  have op: "is_open (pos s1)" and am: "close_amounts (ss s1) (data (pos s1)) = (m, k)"
    using fr assms(3,6) by simp_all
  obtain s2 where e: "evaluate V c s1 = (Inr (), s2)" "pos s2 = pos s1" "ss s2 = ss s1"
    "stop_flag s2 = stop_flag s1" "\<exists>q x hs. calls s2 = calls s1 @ [Submit q ''IOC'' x] @ hs"
    by (rule expired_evaluate [OF assms(1,2) op assms(5) am assms(7,8)])
  have "returns (time_remaining_s V c)" by (intro total)
  from returnsE [OF this, of s2] obtain t s3 where t: "time_remaining_s V c s2 = (Inr t, s3)" by blast
  from time_remaining_run [OF t] obtain w where s3: "s3 = s2\<lparr>world := w\<rparr>" by blast
  let ?rest = "bind (time_remaining_s V c) (\<lambda>t. bind (gets (\<lambda>s. is_open (pos s)))
     (\<lambda>op. ret (\<not> (flt t (lit (- 60)) \<and> \<not> op))))"
  have "?rest s2 = (Inr True, s3)"
    using op e(2) t by (simp add: bind_def gets_def ret_def s3)
  then have "andthen ?fl (andthen (evaluate V c) ?rest) s = (Inr True, s3)"
    by (simp only: andthen_run [of ?fl, OF f] andthen_run [of "evaluate V c", OF e(1)])
  then have "run_iteration V c s = (Inr True, s3)"
    using assms(4) by (simp only: run_iteration_def bind_gets id_apply if_False)
  moreover have "ioc_submits (calls s) < ioc_submits (calls s3)"
    using fr e(5) by (auto simp: s3 ioc_submits_def)
  ultimately show thesis using that fr e assms(4) by (simp add: s3)
qed

text \<open>
  An expired position is never given up. If no venue call throws and the clock is past
  the resolution, a machine that still holds a sellable position sends at least one IOC sell on every
  turn, for ever: no number of turns polls the closing order, releases the position or ends \<open>run\<close>.
\<close>

theorem expired_position_never_closes:
  assumes "calm V" and "parse_token_id (token_id c) = Inr v" and "is_open (pos s)" and "\<not> stop_flag s"
    and "\<And>w. flt (time_left c (fst (v_system_ns V w) sdiv 1000)) (Fin 0)"
    and "close_amounts (ss s) (data (pos s)) = (m, k)" and "0 < m" and "0 < k"
  shows "\<exists>s'. run_turns V c n s = (Inr True, s') \<and> pos s' = pos s \<and> ss s' = ss s
    \<and> ioc_submits (calls s) + n \<le> ioc_submits (calls s')"
  using assms
proof (induction n arbitrary: s)
  case (Suc n)
  from expired_iteration [OF Suc.prems]
  obtain s1 where r: "run_iteration V c s = (Inr True, s1)" and p: "pos s1 = pos s" "ss s1 = ss s"
    "\<not> stop_flag s1" and i: "ioc_submits (calls s) < ioc_submits (calls s1)" by blast
  from Suc.IH [of s1] Suc.prems p obtain s' where
    "run_turns V c n s1 = (Inr True, s')" "pos s' = pos s1" "ss s' = ss s1"
    "ioc_submits (calls s1) + n \<le> ioc_submits (calls s')" by auto
  then show ?case using p i by (auto simp: bind_def r)
qed (simp add: ret_def)

lemma holding_close_amounts:
  "close_amounts (ss holding_osm) (data (pos holding_osm)) = (2000000, 1000000)"
proof -
  have h: "lit (1 / 2) = Fin (1 / 2)"
    using fl_eqI [of "- 1" "1 / 2" 4503599627370496] by (simp add: lit_def pow2_def)
  show ?thesis
    by (simp add: close_amounts_def close_price_of_def holding_osm_def new_osm_def pm_open_def initial_shared_def
        h lit_numeral fl_numeral cast_u64_def saturate_def u64_max_def)
qed

theorem expired_position_never_closes_witness:
  "\<exists>s'. run_turns (still_venue 200000000000) sample_market 1000 holding_osm = (Inr True, s')
     \<and> is_open (pos s') \<and> 1000 \<le> ioc_submits (calls s')"
proof -
  have h: "is_open (pos holding_osm)" "\<not> stop_flag holding_osm" "calls holding_osm = []"
    by (simp_all add: holding_osm_def pm_open_def new_osm_def)
  have t: "flt (time_left sample_market (fst (v_system_ns (still_venue 200000000000) w) sdiv 1000)) (Fin 0)" for w
    by (simp add: still_venue_def signed_divide_int_def sample_time_left)
  from expired_position_never_closes [OF calm_still token_sample h(1,2) t holding_close_amounts, of 1000]
  show ?thesis using h by (auto simp: ioc_submits_def)
qed

subsection \<open>Entry after the deadline\<close>

text \<open>
  A quoted market may still enter after the entry deadline. With between 45 and 120 seconds left, so
  that entries are stopped, a machine with live quotes whose edge reaches the taker threshold moves
  to \<open>TAKER_EVAL\<close>, whatever the number of open positions, and its next turn attempts an entry.
\<close>

theorem entry_after_deadline:
  assumes "evaluate V c s = (Inr u, s')" and "st s = MAKER_QUOTED" and "\<not> quotes_cancelled s"
    and "time_remaining_s V c s = (Inr t, s1)" and "flt (lit 45) t" and "fle t (lit 120)"
    and "fle (compute_e_min_taker (ss s)) (edge_of (ss s))" and "last_entry s = 0"
  shows "st s' = TAKER_EVAL \<and> entries_stopped s'"
  using assms(1)
proof (rule evaluate_run)
  fix t' w
  let ?s = "deadline_flags t' (s\<lparr>world := w\<rparr>)"
  assume t': "time_remaining_s V c s = (Inr t', s\<lparr>world := w\<rparr>)" and
    r: "(if flt t' (Fin 0) then (if is_open (pos s) then close_position V c True else skip) else dispatch V c)
       ?s = (Inr u, s')"
  have t: "t' = t" using assms(4) t' by simp
  have n: "\<not> flt t (Fin 0)" "\<not> fle t (lit 45)" using assms(5) by (cases t; simp add: lit_numeral)+
  have f: "st ?s = MAKER_QUOTED" "\<not> quotes_cancelled ?s" "entries_stopped ?s" "ss ?s = ss s" "last_entry ?s = 0"
    using assms n by (simp_all add: deadline_flags_def t)
  have "handle_maker_quoted V c ?s = (Inr (), s')"
    using r f n by (simp add: dispatch_def t)
  then have "andthen (cancel_all V) (transition TAKER_EVAL) ?s = (Inr (), s')"
    using f assms(7) in_cooldown_run [of V ?s]
    by (simp add: handle_maker_quoted_def bind_def ret_def gets_def)
  then obtain x where x: "cancel_all V ?s = (Inr (), x)" "s' = x\<lparr>st := TAKER_EVAL\<rparr>"
    unfolding transition_def by (auto elim!: andthen_InrE)
  from arm_changesD [OF arm_runs(3) [OF x(1)]] show ?thesis using f(3) x(2) by simp
qed

theorem entry_after_deadline_witness:
  "\<exists>s'. evaluate (still_venue 20000000000) sample_market
        ((new_osm (initial_shared\<lparr>p_true := Fin (3 / 4), open_position_count := 3\<rparr>))
           \<lparr>st := MAKER_QUOTED, bid_order_id := ''b''\<rparr>) = (Inr (), s')
     \<and> st s' = TAKER_EVAL \<and> entries_stopped s'"
proof -
  let ?s = "(new_osm (initial_shared\<lparr>p_true := Fin (3 / 4), open_position_count := 3\<rparr>))
           \<lparr>st := MAKER_QUOTED, bid_order_id := ''b''\<rparr>"
  from returnsE [OF returns_evaluate [OF calm_still token_sample], of 20000000000 ?s]
  obtain s' where r: "evaluate (still_venue 20000000000) sample_market ?s = (Inr (), s')" by auto
  have h: "lit (1 / 2) = Fin (1 / 2)"
    using fl_eqI [of "- 1" "1 / 2" 4503599627370496] by (simp add: lit_def pow2_def)
  have q: "fl (1 / 4) = Fin (1 / 4)" using fl_eqI [of "- 2" "1 / 4" 4503599627370496] by (simp add: pow2_def)
  let ?h = "initial_shared\<lparr>p_true := Fin (3 / 4), open_position_count := 3\<rparr>"
  have e: "edge_of ?h = Fin (1 / 4)"
    by (simp add: edge_of_def initial_shared_def fsub_def q h)
  have m: "compute_e_min_taker ?h = compute_e_min_taker initial_shared"
    by (simp add: compute_e_min_taker_def)
  have "st s' = TAKER_EVAL \<and> entries_stopped s'"
    using e_min_default by (intro entry_after_deadline [OF r _ _ sample_time(2)])
      (simp_all add: e m lit_numeral fl_numeral new_osm_def)
  then show ?thesis using r by blast
qed

subsection \<open>A cancelled close\<close>

text \<open>
  A cancelled close counts as a close. When the exchange reports the closing order as
  cancelled, with nothing sold, the machine drops the position, gives its exposure and its place in
  the count back, and returns to \<open>IDLE\<close>; the only venue call of the turn is that poll.
\<close>

theorem cancelled_close_forgets_position:
  assumes "handle_closing V s = (Inr u, s')" and "close_poly_order_id s \<noteq> []"
    and "os_state (fst (v_status V (close_poly_order_id s) (world s))) = CANCELLED"
  shows "st s' = IDLE \<and> \<not> is_open (pos s')
    \<and> open_position_count (ss s') = open_position_count (ss s) - 1
    \<and> total_exposure_usdc (ss s') = fsub (total_exposure_usdc (ss s)) (entry_cost (data (pos s)))
    \<and> (\<exists>x. calls s' = calls s @ [Poll (close_poly_order_id s) x] \<and> os_state x = CANCELLED)"
proof -
  obtain x w where xw: "v_status V (close_poly_order_id s) (world s) = (x, w)"
    by (cases "v_status V (close_poly_order_id s) (world s)") blast
  with assms show ?thesis
    by (auto simp: handle_closing_def bind_def gets_def clob_status_def call_noexcept_def release_position_def
        andthen_def modify_def transition_def pm_close_def)
qed

definition cancelling_venue :: "unit venue" where
  "cancelling_venue = (still_venue 0)
     \<lparr>v_status := (\<lambda>i w. (\<lparr>os_state = CANCELLED, os_size_matched = Fin 0, os_avg_price = Fin 0\<rparr>, w))\<rparr>"

theorem cancelled_close_forgets_position_witness:
  "\<exists>s'. handle_closing cancelling_venue (holding_osm\<lparr>st := CLOSING, close_poly_order_id := ''p1''\<rparr>) = (Inr (), s')
     \<and> \<not> is_open (pos s') \<and> ioc_submits (calls s') = 0"
proof -
  let ?s = "holding_osm\<lparr>st := CLOSING, close_poly_order_id := ''p1''\<rparr>"
  have "returns (handle_closing cancelling_venue)" by (intro total)
  from returnsE [OF this, of ?s] obtain s' where
    r: "handle_closing cancelling_venue ?s = (Inr (), s')" by auto
  have "calls ?s = []" by (simp add: holding_osm_def new_osm_def)
  with cancelled_close_forgets_position [OF r] r show ?thesis
    by (auto simp: cancelling_venue_def ioc_submits_def)
qed

end
