(* ===== verification/Nonce_Order.thy ===== *)
theory Nonce_Order
  imports Osm_Faults
begin

text \<open>
  The order of nonces, as a step relation that the machine follows on every path, throws included: it
  says which nonces the submitted orders carry: every one was drawn from the counter
  (\<open>NonceManager::next\<close>, \<open>src/wallet/nonce_manager.cpp\<close>) during the run, and they were drawn in
  the order of submission.
\<close>

context step_relation
begin

lemma follows_taker_result: "follows R a \<Longrightarrow> follows R b \<Longrightarrow> follows R d \<Longrightarrow> follows R e \<Longrightarrow>
    follows R (case r of SUCCESS \<Rightarrow> a | SKIPPED \<Rightarrow> b | LEG_FAIL \<Rightarrow> d | ERROR \<Rightarrow> e)"
  by (cases r) simp_all

lemma follows_maker_status: "follows R a \<Longrightarrow> follows R b \<Longrightarrow> follows R d \<Longrightarrow> follows R e \<Longrightarrow> follows R f \<Longrightarrow>
    follows R (case r of ACTIVE \<Rightarrow> a | FILLED_BID \<Rightarrow> b | FILLED_ASK \<Rightarrow> d | TIMED_OUT \<Rightarrow> e | REPRICED \<Rightarrow> f)"
  by (cases r) simp_all

lemma follows_osm_state: "follows R a \<Longrightarrow> follows R b \<Longrightarrow> follows R d \<Longrightarrow> follows R e \<Longrightarrow> follows R f \<Longrightarrow>
    follows R g \<Longrightarrow> follows R (case r of IDLE \<Rightarrow> a | TAKER_EVAL \<Rightarrow> b | TAKER_PEND \<Rightarrow> d | MAKER_QUOTED \<Rightarrow> e
      | POSITION_OPEN \<Rightarrow> f | CLOSING \<Rightarrow> g)"
  by (cases r) simp_all

lemmas osm_rules = follows_rules follows_taker_result follows_maker_status follows_osm_state

end

subsection \<open>The nonces of a run\<close>

definition submitted_nonces :: "event list \<Rightarrow> uint256 list" where
  "submitted_nonces cs = concat (map (\<lambda>e. case e of Submit r t x \<Rightarrow> [nonce r] | _ \<Rightarrow> []) cs)"

lemma submitted_nonces_simps [simp]:
  "submitted_nonces [] = []"
  "submitted_nonces (xs @ ys) = submitted_nonces xs @ submitted_nonces ys"
  "submitted_nonces (Submit r t x # cs) = nonce r # submitted_nonces cs"
  "submitted_nonces (Cancel i z # cs) = submitted_nonces cs"
  "submitted_nonces (Poll i y # cs) = submitted_nonces cs"
  "submitted_nonces (Hedge sd q p h # cs) = submitted_nonces cs"
  "submitted_nonces (HedgeCancel i b # cs) = submitted_nonces cs"
  by (simp_all add: submitted_nonces_def)

definition drawn :: "u64 \<Rightarrow> nat \<Rightarrow> uint256" where
  "drawn n i = u64_to_uint256 (n + of_nat i)"

definition nonce_trace :: "('w, 'z) env_scheme \<Rightarrow> ('w, 'z) env_scheme \<Rightarrow> bool" where
  "nonce_trace s s' \<longleftrightarrow>
     (\<exists>cs k ks. calls s' = calls s @ cs \<and> next_nonce s' = next_nonce s + of_nat k
        \<and> submitted_nonces cs = map (drawn (next_nonce s)) ks \<and> sorted_wrt (<) ks \<and> (\<forall>i \<in> set ks. i < k))"

lemma nonce_traceI:
  "calls s' = calls s @ cs \<Longrightarrow> next_nonce s' = next_nonce s + of_nat k \<Longrightarrow>
     submitted_nonces cs = map (drawn (next_nonce s)) ks \<Longrightarrow> sorted_wrt (<) ks \<Longrightarrow> \<forall>i \<in> set ks. i < k \<Longrightarrow>
     nonce_trace s s'"
  unfolding nonce_trace_def by blast

lemma nonce_trace_quiet:
  "calls s' = calls s @ cs \<Longrightarrow> submitted_nonces cs = [] \<Longrightarrow> next_nonce s' = next_nonce s \<Longrightarrow> nonce_trace s s'"
  by (rule nonce_traceI [where k = 0 and ks = "[]"]) simp_all

lemma nonce_trace_trans:
  assumes "nonce_trace s t" and "nonce_trace t u"
  shows "nonce_trace s u"
proof -
  from assms obtain cs k ks ds j js where
    c: "calls t = calls s @ cs" "calls u = calls t @ ds" and
    n: "next_nonce t = next_nonce s + of_nat k" "next_nonce u = next_nonce t + of_nat j" and
    m: "submitted_nonces cs = map (drawn (next_nonce s)) ks" "submitted_nonces ds = map (drawn (next_nonce t)) js" and
    o: "sorted_wrt (<) ks" "sorted_wrt (<) js" and b: "\<forall>i \<in> set ks. i < k" "\<forall>i \<in> set js. i < j"
    unfolding nonce_trace_def by metis
  show ?thesis
  proof (rule nonce_traceI)
    show "calls u = calls s @ (cs @ ds)" using c by simp
    show "next_nonce u = next_nonce s + of_nat (k + j)" using n by simp
    show "submitted_nonces (cs @ ds) = map (drawn (next_nonce s)) (ks @ map ((+) k) js)"
      using m n by (simp add: drawn_def add.assoc)
    show "sorted_wrt (<) (ks @ map ((+) k) js)"
      using o b by (auto simp: sorted_wrt_append sorted_wrt_map intro: trans_less_add1)
    show "\<forall>i \<in> set (ks @ map ((+) k) js). i < k + j" using b by auto
  qed
qed

interpretation nonces: step_relation nonce_trace
  by unfold_locales (auto intro: nonce_trace_quiet [where cs = "[]"] nonce_trace_trans)

named_theorems nonce_rules "programs whose orders carry fresh nonces"

lemmas [nonce_rules] = nonces.osm_rules

lemma follows_observe: "follows nonce_trace (observe f)" "follows nonce_trace (attempt g)"
  by (auto simp: follows_def observe_def attempt_def split: prod.splits intro!: nonce_trace_quiet [where cs = "[]"])

lemma follows_clocks [nonce_rules]:
  "follows nonce_trace (system_seconds V)" "follows nonce_trace (system_micros V)"
  "follows nonce_trace (steady_now V)"
  unfolding system_seconds_def system_micros_def steady_now_def
  by (intro nonce_rules follows_observe)+

lemma follows_other_calls [nonce_rules]:
  "follows nonce_trace (clob_cancel V i)" "follows nonce_trace (clob_status V i)"
  "follows nonce_trace (hedge_submit V sd q p)" "follows nonce_trace (hedge_cancel V i)"
  unfolding clob_cancel_def clob_status_def hedge_submit_def hedge_cancel_def
  by (auto simp: follows_def call_def call_noexcept_def split: prod.splits intro!: nonce_trace_quiet)

lemma follows_modify:
  "(\<And>s. calls (g s) = calls s \<and> next_nonce (g s) = next_nonce s) \<Longrightarrow> follows nonce_trace (modify g)"
  by (auto simp: follows_def modify_def intro!: nonce_trace_quiet [where cs = "[]"])

text \<open>Drawing a nonce, building an order with it and submitting that order.\<close>

lemma clob_submit_end:
  "next_nonce (snd (clob_submit V r t s)) = next_nonce s
   \<and> (\<exists>cs. calls (snd (clob_submit V r t s)) = calls s @ cs \<and> submitted_nonces cs \<in> {[], [nonce r]})"
proof -
  obtain sg w where "v_sign V (hash_order r) (world s) = (sg, w)"
    by (cases "v_sign V (hash_order r) (world s)") blast
  then show ?thesis
    by (cases sg) (auto simp: clob_submit_def bind_def attempt_def call_def split: prod.splits)
qed

lemma fresh_submit:
  assumes "nonce r = u64_to_uint256 (next_nonce s)"
  shows "nonce_trace s (snd (clob_submit V r t (s\<lparr>world := w, next_nonce := next_nonce s + 1\<rparr>)))"
proof -
  let ?s = "s\<lparr>world := w, next_nonce := next_nonce s + 1\<rparr>"
  from clob_submit_end [of V r t ?s] obtain cs where
    c: "calls (snd (clob_submit V r t ?s)) = calls s @ cs" "submitted_nonces cs \<in> {[], [nonce r]}" by auto
  have n: "next_nonce (snd (clob_submit V r t ?s)) = next_nonce s + of_nat 1"
    using clob_submit_end [of V r t ?s] by simp
  from c(2) consider "submitted_nonces cs = []" | "submitted_nonces cs = [nonce r]" by blast
  then show ?thesis
  proof cases
    case 1
    show ?thesis by (rule nonce_traceI [OF c(1) n, where ks = "[]"]) (use 1 in simp_all)
  next
    case 2
    show ?thesis by (rule nonce_traceI [OF c(1) n, where ks = "[0]"]) (use 2 assms in \<open>simp_all add: drawn_def\<close>)
  qed
qed

lemma build_order_throw:
  "build_order V tok m k ex fee sd s = (Inl e, s') \<Longrightarrow> \<exists>w. s' = s\<lparr>world := w\<rparr>"
  by (auto simp: build_order_def bind_def attempt_def lift_sum_def nonce_next_def ret_def
      split: prod.splits sum.splits)

lemma follows_fresh_submit:
  assumes b: "\<And>e s'. m s = (Inl e, s') \<Longrightarrow> \<exists>w. s' = s\<lparr>world := w\<rparr>"
    and r: "\<And>q s'. m s = (Inr q, s') \<Longrightarrow>
      nonce (h q) = u64_to_uint256 (next_nonce s) \<and> (\<exists>w. s' = s\<lparr>world := w, next_nonce := next_nonce s + 1\<rparr>)"
    and g: "\<And>q x. follows nonce_trace (g q x)"
  shows "nonce_trace s (snd (bind m (\<lambda>q. bind (clob_submit V (h q) t) (g q)) s))"
proof (cases "m s")
  case (Pair y s1)
  show ?thesis
  proof (cases y)
    case (Inl e)
    with b Pair obtain w where "s1 = s\<lparr>world := w\<rparr>" by blast
    then show ?thesis
      by (auto simp: bind_def Pair Inl intro!: nonce_trace_quiet [where cs = "[]"])
  next
    case (Inr q)
    with r Pair obtain w where q: "nonce (h q) = u64_to_uint256 (next_nonce s)" and
      s1: "s1 = s\<lparr>world := w, next_nonce := next_nonce s + 1\<rparr>" by blast
    obtain z s2 where z: "clob_submit V (h q) t s1 = (z, s2)" by (cases "clob_submit V (h q) t s1") blast
    have t: "nonce_trace s s2" using fresh_submit [OF q, of V t w] by (simp add: z s1 [symmetric])
    show ?thesis
    proof (cases z)
      case (Inr x)
      have "nonce_trace s2 (snd (g q x s2))" using g by (simp add: follows_def)
      from nonce_trace_trans [OF t this] show ?thesis
        by (simp add: bind_def Pair z Inr \<open>y = Inr q\<close>)
    qed (use t in \<open>simp add: bind_def Pair z \<open>y = Inr q\<close>\<close>)
  qed
qed

lemma follows_build_submit [nonce_rules]:
  "(\<And>q x. follows nonce_trace (g q x)) \<Longrightarrow>
     follows nonce_trace (bind (build_order V tok m k ex fee sd) (\<lambda>q. bind (clob_submit V q t) (g q)))"
  unfolding follows_def
  by (intro allI, rule follows_fresh_submit [where h = "\<lambda>q. q"])
    (auto dest!: build_order_throw build_order_run simp: follows_def)

lemma self_world: "\<exists>w. s\<lparr>next_nonce := n\<rparr> = s\<lparr>world := w, next_nonce := n\<rparr>"
  by (rule exI [of _ "world s"]) simp

lemma follows_unwind_poly [nonce_rules]: "follows nonce_trace (unwind_poly V r now)"
proof -
  have "follows nonce_trace (bind nonce_next (\<lambda>n. bind (clob_submit V (unwind_order r sl n now) ''FOK'') (\<lambda>_. skip)))" for sl
    unfolding follows_def
    by (intro allI, rule follows_fresh_submit [where h = "\<lambda>n. unwind_order r sl n now"])
      (auto simp: nonce_next_def unwind_order_def self_world intro: nonces.osm_rules)
  then show ?thesis unfolding unwind_poly_def by (rule nonces.follows_bind [OF follows_observe(2)])
qed

lemma follows_modifies [nonce_rules]:
  "follows nonce_trace (transition x)" "follows nonce_trace (open_position e)" "follows nonce_trace release_position"
  "follows nonce_trace (modify (last_entry_update f))"
  "follows nonce_trace (modify (bid_order_id_update h))" "follows nonce_trace (modify (ask_order_id_update h))"
  "follows nonce_trace (modify (\<lambda>s. s\<lparr>quoted_fair := a, quoted_mid := p s\<rparr>))"
  "follows nonce_trace (modify (quote_time_update f))"
  "follows nonce_trace (modify (close_poly_order_id_update h))"
  "follows nonce_trace (modify (close_coinbase_order_id_update h))"
  "follows nonce_trace (modify (\<lambda>s. s\<lparr>close_poly_order_id := i, close_coinbase_order_id := j\<rparr>))"
  "follows nonce_trace (modify (pos_update pf))" "follows nonce_trace (modify (flatten_flag_update bf))"
  "follows nonce_trace (modify (deadline_flags t))"
  unfolding transition_def open_position_def release_position_def deadline_flags_def
  by (auto intro!: follows_modify)

subsection \<open>The arms and the machine\<close>

lemma follows_taker [nonce_rules]:
  "follows nonce_trace (in_cooldown V)" "follows nonce_trace (fire V cfg b e entry)"
  unfolding in_cooldown_def fire_def fire_legs_def settle_legs_def unwind_hedge_def
  by (intro nonce_rules)+

lemma follows_maker [nonce_rules]:
  "follows nonce_trace (cancel_all V)" "follows nonce_trace (submit_side V mc sd p)"
  "follows nonce_trace (quote V mc p)" "follows nonce_trace (manage V mc entry)"
  unfolding cancel_all_def cancel_bid_def cancel_ask_def submit_side_def quote_def manage_def check_fills_def
    check_fill_def
  by (intro nonce_rules)+

lemma follows_close [nonce_rules]: "follows nonce_trace (close_position V c b)"
  unfolding close_position_def close_poly_leg_def close_hedge_leg_def by (intro nonce_rules)

lemma follows_handlers [nonce_rules]:
  "follows nonce_trace (handle_idle V c)" "follows nonce_trace (handle_taker_eval V c)"
  "follows nonce_trace (handle_maker_quoted V c)" "follows nonce_trace (handle_position_open V c)"
  "follows nonce_trace (handle_closing V)"
  unfolding handle_idle_def handle_taker_eval_def handle_maker_quoted_def handle_late_fill_def
    handle_position_open_def handle_closing_def
  by (intro nonce_rules)+

lemma follows_run_iteration [nonce_rules]: "follows nonce_trace (run_iteration V c)"
  unfolding run_iteration_def evaluate_def dispatch_def time_remaining_s_def by (intro nonce_rules)

lemma follows_run_turns: "follows nonce_trace (run_turns V c n)"
  by (induction n) (auto intro: nonce_rules)

text \<open>
  Order nonces. However many turns a machine runs, and however they end (a throw included), the
  orders it submitted carry nonces drawn from the counter in the order of submission; as long as
  the counter has not gone once around its 64 bits, no two of them are equal.
\<close>

theorem order_nonces_increase:
  assumes "run_turns V c n s = (r, s')"
  shows "\<exists>cs k ks. calls s' = calls s @ cs \<and> next_nonce s' = next_nonce s + of_nat k
    \<and> submitted_nonces cs = map (drawn (next_nonce s)) ks \<and> sorted_wrt (<) ks \<and> (\<forall>i \<in> set ks. i < k)
    \<and> (2 ^ 64 < k \<or> distinct (submitted_nonces cs))"
proof -
  have "nonce_trace s s'" using follows_run_turns [of V c n] assms unfolding follows_def by (metis snd_conv)
  then obtain cs k ks where 1: "calls s' = calls s @ cs" "next_nonce s' = next_nonce s + of_nat k"
    "submitted_nonces cs = map (drawn (next_nonce s)) ks" "sorted_wrt (<) ks" "\<forall>i \<in> set ks. i < k"
    unfolding nonce_trace_def by blast
  have "distinct (submitted_nonces cs)" if "k \<le> 2 ^ 64"
  proof -
    have "inj_on (drawn (next_nonce s)) (set ks)"
    proof (rule inj_onI)
      fix i j assume ij: "i \<in> set ks" "j \<in> set ks" "drawn (next_nonce s) i = drawn (next_nonce s) j"
      then have "(of_nat i :: u64) = of_nat j" by (simp add: drawn_def u64_to_uint256_inject)
      then have "i mod 2 ^ 64 = j mod 2 ^ 64" by (simp only: word_of_nat_eq_iff take_bit_eq_mod) simp
      moreover have "i < 2 ^ 64" "j < 2 ^ 64" using 1(5) ij(1,2) that by (meson less_le_trans)+
      ultimately show "i = j" by simp
    qed
    then show ?thesis using 1(3,4) by (simp add: distinct_map strict_sorted_iff)
  qed
  with 1 show ?thesis by (meson not_le)
qed

theorem order_nonces_increase_witness:
  "\<exists>r s' cs k. run_turns (still_venue 200000000000) sample_market 2 holding_osm = (r, s')
     \<and> calls s' = calls holding_osm @ cs \<and> next_nonce s' = next_nonce holding_osm + of_nat k
     \<and> (2 ^ 64 < k \<or> distinct (submitted_nonces cs))"
proof -
  obtain r s' where r: "run_turns (still_venue 200000000000) sample_market 2 holding_osm = (r, s')"
    by (cases "run_turns (still_venue 200000000000) sample_market 2 holding_osm") blast
  from order_nonces_increase [OF r] r show ?thesis by blast
qed

end
