(* ===== verification/Text_Numbers.thy ===== *)
theory Text_Numbers
  imports Codec Fp64
begin

text \<open>
  The text-to-number routines of the C and C++ standard library that the network code uses:
  \<open>std::stod\<close> (over \<open>strtod\<close>), \<open>std::stoll\<close>, \<open>std::stoull\<close> in base 16, \<open>sscanf\<close> with
  \<open>%nd\<close>, and \<open>timegm\<close>. They are modelled on character lists, with the C locale; a string is
  read up to its first zero character, as through \<open>c_str()\<close>.
\<close>

definition c_str :: "string \<Rightarrow> string" where
  "c_str = takeWhile (\<lambda>c. of_char c \<noteq> (0 :: nat))"

definition is_space :: "char \<Rightarrow> bool" where
  "is_space c \<longleftrightarrow> (let n = of_char c :: nat in n = 32 \<or> (9 \<le> n \<and> n \<le> 13))"

definition skip_space :: "string \<Rightarrow> string" where
  "skip_space = dropWhile is_space"

definition to_lower :: "char \<Rightarrow> char" where
  "to_lower c = (let n = of_char c :: nat in if 65 \<le> n \<and> n \<le> 90 then char_of (n + 32) else c)"

text \<open>The value of a hexadecimal digit, \<open>hex_nibble\<close> of \<open>src/wallet/key_manager.cpp\<close>.\<close>

definition hex_nibble :: "char \<Rightarrow> nat option" where
  "hex_nibble c =
     (let n = of_char c :: nat
      in if 48 \<le> n \<and> n \<le> 57 then Some (n - 48)
         else if 97 \<le> n \<and> n \<le> 102 then Some (n - 97 + 10)
         else if 65 \<le> n \<and> n \<le> 70 then Some (n - 65 + 10)
         else None)"

definition digit_in :: "nat \<Rightarrow> char \<Rightarrow> bool" where
  "digit_in b c = (case hex_nibble c of None \<Rightarrow> False | Some d \<Rightarrow> d < b)"

definition number_in :: "nat \<Rightarrow> string \<Rightarrow> nat" where
  "number_in b = foldl (\<lambda>a c. a * b + the (hex_nibble c)) 0"

definition read_sign :: "string \<Rightarrow> bool \<times> string" where
  "read_sign s =
     (case s of [] \<Rightarrow> (False, [])
      | c # r \<Rightarrow> if c = CHR ''-'' then (True, r) else if c = CHR ''+'' then (False, r) else (False, s))"

definition hex_prefix :: "string \<Rightarrow> bool" where
  "hex_prefix s \<longleftrightarrow> (case s of z # x # r \<Rightarrow> z = CHR ''0'' \<and> to_lower x = CHR ''x'' | _ \<Rightarrow> False)"

subsection \<open>Floating-point text\<close>

definition read_mantissa :: "nat \<Rightarrow> string \<Rightarrow> (nat \<times> nat \<times> string) option" where
  "read_mantissa b s =
     (let i = takeWhile (digit_in b) s; r = drop (length i) s;
          dot = (r \<noteq> [] \<and> hd r = CHR ''.'');
          f = (if dot then takeWhile (digit_in b) (tl r) else [])
      in if i = [] \<and> f = [] then None
         else Some (number_in b (i @ f), length f, if dot then drop (length f) (tl r) else r))"

definition read_exponent :: "char \<Rightarrow> string \<Rightarrow> int" where
  "read_exponent e s =
     (case s of [] \<Rightarrow> 0
      | c # r \<Rightarrow>
          if to_lower c = e
          then (case read_sign r of (neg, r') \<Rightarrow>
                  let n = int (number_in 10 (takeWhile (digit_in 10) r')) in if neg then - n else n)
          else 0)"

definition scale_by :: "nat \<Rightarrow> int \<Rightarrow> rat" where
  "scale_by b e = (if 0 \<le> e then of_nat b ^ nat e else 1 / of_nat b ^ nat (- e))"

text \<open>The number read and whether \<open>errno\<close> is \<open>ERANGE\<close>; \<open>None\<close> when nothing was converted.\<close>

definition range_error :: "rat \<Rightarrow> bool" where
  "range_error v \<longleftrightarrow>
     fl v = PInf \<or> fl v = NInf \<or> (v \<noteq> 0 \<and> \<bar>v\<bar> < pow2 (- 1022) \<and> fl v \<noteq> Fin v)"

definition starts_with :: "string \<Rightarrow> string \<Rightarrow> bool" where
  "starts_with p s \<longleftrightarrow> take (length p) s = p"

definition strtod :: "string \<Rightarrow> (f64 \<times> bool) option" where
  "strtod s =
     (case read_sign (skip_space s) of (neg, t) \<Rightarrow>
        let sg = (\<lambda>v :: rat. if neg then - v else v);
            number = (\<lambda>b e step. map_option
              (\<lambda>(m, k, r). let v = sg (of_nat m * scale_by b (- int k) * scale_by step (read_exponent e r))
                           in (fl v, range_error v)))
        in if starts_with ''inf'' (map to_lower t) then Some (if neg then NInf else PInf, False)
           else if starts_with ''nan'' (map to_lower t) then Some (NaN, False)
           else case (if hex_prefix t then number 16 (CHR ''p'') 2 (read_mantissa 16 (drop 2 t)) else None) of
                  Some x \<Rightarrow> Some x
                | None \<Rightarrow> number 10 (CHR ''e'') 10 (read_mantissa 10 t))"

definition stod :: "string \<Rightarrow> exn + f64" where
  "stod s =
     (case strtod (c_str s) of
        None \<Rightarrow> Inl (Invalid_Argument ''stod'')
      | Some (x, err) \<Rightarrow> if err then Inl (Out_Of_Range ''stod'') else Inr x)"

subsection \<open>Integer text\<close>

definition stoll :: "string \<Rightarrow> exn + i64" where
  "stoll s =
     (case read_sign (skip_space (c_str s)) of (neg, t) \<Rightarrow>
        let ds = takeWhile (digit_in 10) t; n = (if neg then - int (number_in 10 ds) else int (number_in 10 ds))
        in if ds = [] then Inl (Invalid_Argument ''stoll'')
           else if i64_range n then Inr (word_of_int n) else Inl (Out_Of_Range ''stoll''))"

definition stoull16 :: "string \<Rightarrow> exn + u64" where
  "stoull16 s =
     (case read_sign (skip_space (c_str s)) of (neg, t) \<Rightarrow>
        let u = (if hex_prefix t \<and> drop 2 t \<noteq> [] \<and> digit_in 16 (hd (drop 2 t)) then drop 2 t else t);
            ds = takeWhile (digit_in 16) u; n = number_in 16 ds
        in if ds = [] then Inl (Invalid_Argument ''stoull'')
           else if 2 ^ 64 \<le> n then Inl (Out_Of_Range ''stoull'')
           else Inr (if neg then - of_nat n else of_nat n))"

text \<open>One \<open>%wd\<close> conversion: white space is skipped, a sign counts towards the width.\<close>

definition scan_int :: "nat \<Rightarrow> string \<Rightarrow> (int \<times> string) option" where
  "scan_int w s =
     (let t = skip_space s; (neg, u) = read_sign t;
          n = w - (length t - length u);
          ds = takeWhile is_digit (take n u)
      in if ds = [] then None
         else Some (if neg then - int (dec_val ds) else int (dec_val ds), drop (length ds) u))"

definition expect :: "char \<Rightarrow> string \<Rightarrow> string option" where
  "expect c s = (case s of [] \<Rightarrow> None | d # r \<Rightarrow> if d = c then Some r else None)"

subsection \<open>Calendar\<close>

definition leaps_before :: "int \<Rightarrow> int" where
  "leaps_before y = (y - 1) div 4 - (y - 1) div 100 + (y - 1) div 400"

definition is_leap :: "int \<Rightarrow> bool" where
  "is_leap y \<longleftrightarrow> y mod 4 = 0 \<and> (y mod 100 \<noteq> 0 \<or> y mod 400 = 0)"

definition days_to_year :: "int \<Rightarrow> int" where
  "days_to_year y = 365 * (y - 1970) + leaps_before y - leaps_before 1970"

definition days_to_month :: "bool \<Rightarrow> nat \<Rightarrow> int" where
  "days_to_month leap m =
     [0, 31, 59, 90, 120, 151, 181, 212, 243, 273, 304, 334] ! m + (if leap \<and> 1 < m then 1 else 0)"

text \<open>\<open>timegm\<close> with the year in full and months from 0; out-of-range months carry into the year.\<close>

definition timegm :: "int \<Rightarrow> int \<Rightarrow> int \<Rightarrow> int \<Rightarrow> int \<Rightarrow> int \<Rightarrow> int" where
  "timegm year mon mday h mi sec =
     (let y = year + mon div 12; m = nat (mon mod 12)
      in (days_to_year y + days_to_month (is_leap y) m + mday - 1) * 86400 + h * 3600 + mi * 60 + sec)"

text \<open>
  \<open>iso8601_to_us\<close>, the same function in \<open>src/data/feed_manager.cpp\<close> and (behind a test for
  the empty string, which \<open>sscanf\<close> rejects as well) \<open>src/data/market_scanner.cpp\<close>.
\<close>

definition scan_fields :: "string \<Rightarrow> (int \<times> int \<times> int \<times> int \<times> int \<times> int) option" where
  "scan_fields s =
     Option.bind (scan_int 4 s) (\<lambda>(y, s). Option.bind (expect (CHR ''-'') s) (\<lambda>s.
     Option.bind (scan_int 2 s) (\<lambda>(mo, s). Option.bind (expect (CHR ''-'') s) (\<lambda>s.
     Option.bind (scan_int 2 s) (\<lambda>(d, s). Option.bind (expect (CHR ''T'') s) (\<lambda>s.
     Option.bind (scan_int 2 s) (\<lambda>(h, s). Option.bind (expect (CHR '':'') s) (\<lambda>s.
     Option.bind (scan_int 2 s) (\<lambda>(mi, s). Option.bind (expect (CHR '':'') s) (\<lambda>s.
     Option.bind (scan_int 2 s) (\<lambda>(sec, s). Some (y, mo, d, h, mi, sec))))))))))))"

definition scan_fraction :: "string \<Rightarrow> f64" where
  "scan_fraction s =
     (let r = dropWhile (\<lambda>c. c \<noteq> CHR ''.'') s
      in if r = [] then Fin 0 else case strtod r of None \<Rightarrow> Fin 0 | Some (x, _) \<Rightarrow> x)"

definition iso8601_to_us :: "string \<Rightarrow> i64" where
  "iso8601_to_us s =
     (let p = c_str s
      in case scan_fields p of
           None \<Rightarrow> 0
         | Some (y, mo, d, h, mi, sec) \<Rightarrow>
             let epoch = timegm y (mo - 1) d h mi sec
             in if epoch = - 1 then 0
                else word_of_int epoch * 1000000
                     + word_of_int (cast_int i64_min i64_max (fmul (scan_fraction p) (lit 1000000))))"

text \<open>The scanner's copy, with its test for the empty string.\<close>

definition scanner_iso8601_to_us :: "string \<Rightarrow> i64" where
  "scanner_iso8601_to_us s = (if s = [] then 0 else iso8601_to_us s)"

subsection \<open>Reading zero-padded fields\<close>

lemma pad_zero_digits: "\<forall>c \<in> set (pad_zero w (show_nat n)). is_digit c"
  using show_nat_digits [of n] by (auto simp: pad_zero_def is_digit_def)

lemma digit_not_space: "is_digit c \<Longrightarrow> \<not> is_space c \<and> c \<noteq> CHR ''-'' \<and> c \<noteq> CHR ''+'' \<and> c \<noteq> CHR ''.''
  \<and> of_char c \<noteq> (0 :: nat)"
  by (auto simp: is_digit_def is_space_def Let_def)

lemma scan_int_padded:
  assumes "n < 10 ^ w" and "0 < w"
  shows "scan_int w (pad_zero w (show_nat n) @ r) = Some (int n, r)"
proof -
  let ?d = "pad_zero w (show_nat n)"
  have l: "length ?d = w" using length_show_nat_le [OF assms] by (simp add: length_pad_zero)
  then obtain c t where ct: "?d = c # t" using assms(2) by (cases ?d) auto
  have dc: "is_digit c" using pad_zero_digits [of w n] ct by simp
  have s: "skip_space (?d @ r) = ?d @ r" "read_sign (?d @ r) = (False, ?d @ r)"
    using digit_not_space [OF dc] by (simp_all add: ct skip_space_def read_sign_def)
  have "takeWhile is_digit ?d = ?d" using pad_zero_digits [of w n] by (simp add: takeWhile_eq_all_conv)
  moreover have "dec_val ?d = n" by simp
  moreover have "?d \<noteq> []" using ct by simp
  ultimately show ?thesis using l by (simp only: scan_int_def s Let_def prod.case diff_self_eq_0 diff_zero)
      (simp only: take_append order_refl take_all diff_self_eq_0 take_0 append_Nil2 if_False drop_append drop_all drop_0 append_Nil)
qed

text \<open>The text of a UTC time to the second, as the exchanges send it.\<close>

definition utc_text :: "nat \<Rightarrow> nat \<Rightarrow> nat \<Rightarrow> nat \<Rightarrow> nat \<Rightarrow> nat \<Rightarrow> string" where
  "utc_text y mo d h mi sec =
     pad_zero 4 (show_nat y) @ ''-'' @ pad_zero 2 (show_nat mo) @ ''-'' @ pad_zero 2 (show_nat d) @ ''T''
     @ pad_zero 2 (show_nat h) @ '':'' @ pad_zero 2 (show_nat mi) @ '':'' @ pad_zero 2 (show_nat sec) @ ''Z''"

lemma scan_fields_utc:
  assumes "y < 10000" "mo < 100" "d < 100" "h < 100" "mi < 100" "sec < 100"
  shows "scan_fields (utc_text y mo d h mi sec) = Some (int y, int mo, int d, int h, int mi, int sec)"
  using assms scan_int_padded [of _ 2] scan_int_padded [of y 4]
  by (simp add: scan_fields_def utc_text_def expect_def)

lemma utc_text_chars: "c \<in> set (utc_text y mo d h mi sec) \<Longrightarrow> c \<noteq> CHR ''.'' \<and> of_char c \<noteq> (0 :: nat)"
  using pad_zero_digits digit_not_space by (fastforce simp: utc_text_def)

lemma iso8601_utc_text:
  assumes "y < 10000" "mo < 100" "d < 100" "h < 100" "mi < 100" "sec < 100"
    and "timegm (int y) (int mo - 1) (int d) (int h) (int mi) (int sec) \<noteq> - 1"
  shows "iso8601_to_us (utc_text y mo d h mi sec)
      = word_of_int (timegm (int y) (int mo - 1) (int d) (int h) (int mi) (int sec)) * 1000000
    \<and> iso8601_to_us (pad_zero 4 (show_nat y) @ ''-'' @ pad_zero 2 (show_nat mo) @ ''-'' @ pad_zero 2 (show_nat d)) = 0
    \<and> iso8601_to_us [] = 0 \<and> scanner_iso8601_to_us = iso8601_to_us"
proof (intro conjI)
  let ?t = "utc_text y mo d h mi sec"
  have c: "c_str ?t = ?t" and f: "dropWhile (\<lambda>c. c \<noteq> CHR ''.'') ?t = []"
    using utc_text_chars by (simp_all add: c_str_def takeWhile_eq_all_conv dropWhile_eq_Nil_conv)
  have "scan_fraction ?t = Fin 0" by (simp add: scan_fraction_def f)
  then show "iso8601_to_us ?t = word_of_int (timegm (int y) (int mo - 1) (int d) (int h) (int mi) (int sec)) * 1000000"
    using scan_fields_utc [OF assms(1-6)] assms(7)
    by (simp add: iso8601_to_us_def c lit_numeral fl_numeral saturate_def i64_min_def i64_max_def)
  let ?d = "pad_zero 4 (show_nat y) @ ''-'' @ pad_zero 2 (show_nat mo) @ ''-'' @ pad_zero 2 (show_nat d)"
  have "c_str ?d = ?d"
    using pad_zero_digits digit_not_space by (fastforce simp: c_str_def takeWhile_eq_all_conv)
  moreover have "scan_fields ?d = None"
    using scan_int_padded [of mo 2] scan_int_padded [of y 4] scan_int_padded [of d 2 "[]"] assms
    by (simp add: scan_fields_def expect_def)
  ultimately show "iso8601_to_us ?d = 0" by (simp add: iso8601_to_us_def)
  show e: "iso8601_to_us [] = 0"
    by (simp add: iso8601_to_us_def c_str_def scan_fields_def scan_int_def skip_space_def read_sign_def)
  show "scanner_iso8601_to_us = iso8601_to_us" by (rule ext) (simp add: scanner_iso8601_to_us_def e)
qed

text \<open>
  The timestamp parser of the scanner and the feed reads every UTC time that is written with
  zero-padded fields, to the microsecond count of that civil time; a date without a time of day, and
  the empty text, are read as 0, which the scanner takes as \<open>no resolution time\<close>.
\<close>

theorem iso8601_reads_utc:
  assumes "y < 10000" "mo < 100" "d < 100" "h < 100" "mi < 100" "sec < 100"
    and "timegm (int y) (int mo - 1) (int d) (int h) (int mi) (int sec) \<noteq> - 1"
  shows "iso8601_to_us (utc_text y mo d h mi sec)
      = word_of_int (timegm (int y) (int mo - 1) (int d) (int h) (int mi) (int sec)) * 1000000
    \<and> iso8601_to_us (pad_zero 4 (show_nat y) @ ''-'' @ pad_zero 2 (show_nat mo) @ ''-'' @ pad_zero 2 (show_nat d)) = 0
    \<and> iso8601_to_us [] = 0 \<and> scanner_iso8601_to_us = iso8601_to_us"
  using iso8601_utc_text [OF assms] .

theorem iso8601_reads_utc_witness:
  "iso8601_to_us (utc_text 2024 1 15 12 0 0) = 1705320000000000"
  using iso8601_reads_utc [of 2024 1 15 12 0 0]
  by (simp add: timegm_def days_to_year_def leaps_before_def days_to_month_def is_leap_def)

end
