(* ===== verification/Json_Lib.thy ===== *)
theory Json_Lib
  imports Text_Numbers
begin

text \<open>
  The JSON library (nlohmann/json, not part of the repository) as a record of the functions the
  code calls, over an arbitrary type of JSON values. Every definition that reads or writes JSON
  takes such a record. \<open>j_items\<close> are the elements that iteration, \<open>size()\<close> and \<open>empty()\<close>
  see; \<open>j_value_bool\<close> and \<open>j_value_string\<close> are \<open>value(key, default)\<close>.
\<close>

record 'j json_lib =
  j_parse :: "string \<Rightarrow> exn + 'j"
  j_dump :: "'j \<Rightarrow> string"
  j_contains :: "'j \<Rightarrow> string \<Rightarrow> bool"
  j_at :: "'j \<Rightarrow> string \<Rightarrow> exn + 'j"
  j_nth :: "'j \<Rightarrow> nat \<Rightarrow> exn + 'j"
  j_items :: "'j \<Rightarrow> 'j list"
  j_is_null :: "'j \<Rightarrow> bool"
  j_string :: "'j \<Rightarrow> exn + string"
  j_int64 :: "'j \<Rightarrow> exn + i64"
  j_value_bool :: "'j \<Rightarrow> string \<Rightarrow> bool \<Rightarrow> exn + bool"
  j_value_string :: "'j \<Rightarrow> string \<Rightarrow> string \<Rightarrow> exn + string"
  j_object :: "(string \<times> 'j) list \<Rightarrow> 'j"
  j_array :: "'j list \<Rightarrow> 'j"
  j_text :: "string \<Rightarrow> 'j"
  j_number :: "int \<Rightarrow> 'j"

text \<open>Sequencing of results that may be exceptions.\<close>

definition sbind :: "exn + 'a \<Rightarrow> ('a \<Rightarrow> exn + 'b) \<Rightarrow> exn + 'b" where
  "sbind r f = (case r of Inl e \<Rightarrow> Inl e | Inr x \<Rightarrow> f x)"

lemma sbind_simps [simp]: "sbind (Inl e) f = Inl e" "sbind (Inr x) f = f x"
  by (simp_all add: sbind_def)

lemma sbind_InrE:
  assumes "sbind r f = Inr y"
  obtains x where "r = Inr x" "f x = Inr y"
  using assms by (cases r) auto

definition j_get_string :: "'j json_lib \<Rightarrow> 'j \<Rightarrow> string \<Rightarrow> exn + string" where
  "j_get_string J x k = sbind (j_at J x k) (j_string J)"

subsection \<open>A concrete library\<close>

text \<open>
  A small instance for concrete runs: values as trees, and a parser given as a table of texts. An
  access of the wrong kind is an error, as in the library.
\<close>

datatype jv = JNull | JBool bool | JNum int | JStr string | JArr "jv list" | JObj "(string \<times> jv) list"

fun jv_at :: "jv \<Rightarrow> string \<Rightarrow> exn + jv" where
  "jv_at (JObj kvs) k = (case map_of kvs k of None \<Rightarrow> Inl (Json_Error k) | Some v \<Rightarrow> Inr v)"
| "jv_at _ k = Inl (Json_Error k)"

fun jv_nth :: "jv \<Rightarrow> nat \<Rightarrow> exn + jv" where
  "jv_nth (JArr xs) i = (if i < length xs then Inr (xs ! i) else Inl (Json_Error ''index''))"
| "jv_nth _ i = Inl (Json_Error ''index'')"

fun jv_items :: "jv \<Rightarrow> jv list" where
  "jv_items (JArr xs) = xs"
| "jv_items (JObj kvs) = map snd kvs"
| "jv_items JNull = []"
| "jv_items v = [v]"

fun jv_string :: "jv \<Rightarrow> exn + string" where
  "jv_string (JStr s) = Inr s"
| "jv_string _ = Inl (Json_Error ''string'')"

fun jv_int64 :: "jv \<Rightarrow> exn + i64" where
  "jv_int64 (JNum n) = Inr (word_of_int n)"
| "jv_int64 _ = Inl (Json_Error ''number'')"

fun jv_value :: "(jv \<Rightarrow> exn + 'a) \<Rightarrow> jv \<Rightarrow> string \<Rightarrow> 'a \<Rightarrow> exn + 'a" where
  "jv_value f (JObj kvs) k d = (case map_of kvs k of None \<Rightarrow> Inr d | Some v \<Rightarrow> f v)"
| "jv_value f _ k d = Inl (Json_Error k)"

fun jv_bool :: "jv \<Rightarrow> exn + bool" where
  "jv_bool (JBool b) = Inr b"
| "jv_bool _ = Inl (Json_Error ''bool'')"

definition table_json :: "(string \<times> jv) list \<Rightarrow> jv json_lib" where
  "table_json tab =
     \<lparr>j_parse = (\<lambda>s. case map_of tab s of None \<Rightarrow> Inl (Json_Error ''parse'') | Some v \<Rightarrow> Inr v),
      j_dump = (\<lambda>v. case map_of (map prod.swap tab) v of None \<Rightarrow> [] | Some s \<Rightarrow> s),
      j_contains = (\<lambda>v k. \<not> isl (jv_at v k)), j_at = jv_at, j_nth = jv_nth, j_items = jv_items,
      j_is_null = (\<lambda>v. v = JNull), j_string = jv_string, j_int64 = jv_int64,
      j_value_bool = jv_value jv_bool, j_value_string = jv_value jv_string,
      j_object = JObj, j_array = JArr, j_text = JStr, j_number = JNum\<rparr>"

end
