(* ===== verification/Nonce_Manager.thy ===== *)
theory Nonce_Manager
  imports Json_Lib Effects
begin

text \<open>
  The nonce counter and where it is seeded from: \<open>src/wallet/nonce_manager.hpp\<close>,
  \<open>nonce_manager.cpp\<close> and the JSON-RPC client \<open>src/infra/rpc_client.cpp\<close>. The HTTPS post is a
  parameter over an arbitrary world (empty text on failure, as \<open>https_post\<close> returns).
\<close>

subsection \<open>JSON-RPC with fallback\<close>

type_synonym 'w https = "string \<Rightarrow> string \<Rightarrow> int \<Rightarrow> 'w \<Rightarrow> string \<times> 'w"

definition RPC_PRIMARY :: string where
  "RPC_PRIMARY = ''https://polygon-mainnet.g.alchemy.com/v2/GDGDDWXXD03eSte0IseXw''"

definition RPC_FALLBACK :: string where
  "RPC_FALLBACK = ''https://polygon-rpc.com''"

definition RPC_TIMEOUT_MS :: int where
  "RPC_TIMEOUT_MS = 3000"

definition has_result :: "'j json_lib \<Rightarrow> string \<Rightarrow> bool" where
  "has_result J resp \<longleftrightarrow>
     resp \<noteq> [] \<and> (case j_parse J resp of Inl _ \<Rightarrow> False | Inr j \<Rightarrow> j_contains J j ''result'')"

definition rpc_body :: "string \<Rightarrow> string \<Rightarrow> string" where
  "rpc_body meth params_json =
     ''{'' @ [CHR 0x22] @ ''jsonrpc'' @ [CHR 0x22] @ '':'' @ [CHR 0x22] @ ''2.0'' @ [CHR 0x22] @ '',''
     @ [CHR 0x22] @ ''method'' @ [CHR 0x22] @ '':'' @ [CHR 0x22] @ meth @ [CHR 0x22] @ '',''
     @ [CHR 0x22] @ ''params'' @ [CHR 0x22] @ '':'' @ params_json
     @ '','' @ [CHR 0x22] @ ''id'' @ [CHR 0x22] @ '':1}''"

definition post :: "'w https \<Rightarrow> string \<Rightarrow> string \<Rightarrow> ('w, string) prog" where
  "post net url body = (\<lambda>w. case net url body RPC_TIMEOUT_MS w of (resp, w') \<Rightarrow> (Inr resp, w'))"

definition rpc_call :: "'j json_lib \<Rightarrow> 'w https \<Rightarrow> string \<Rightarrow> string \<Rightarrow> ('w, string) prog" where
  "rpc_call J net meth params_json =
     (let body = rpc_body meth params_json
      in bind (post net RPC_PRIMARY body) (\<lambda>resp.
         if has_result J resp then ret resp
         else bind (post net RPC_FALLBACK body) (\<lambda>resp2.
              if has_result J resp2 then ret resp2
              else throw (Runtime_Error (''rpc_client: both primary and fallback failed for '' @ meth)))))"

definition strip_0x :: "string \<Rightarrow> string" where
  "strip_0x h = (if 2 < length h \<and> hex_prefix h then drop 2 h else h)"

definition get_transaction_count :: "'j json_lib \<Rightarrow> 'w https \<Rightarrow> string \<Rightarrow> ('w, u64) prog" where
  "get_transaction_count J net hex_address =
     bind (rpc_call J net ''eth_getTransactionCount''
             (''['' @ [CHR 0x22] @ hex_address @ [CHR 0x22] @ '','' @ [CHR 0x22] @ ''pending'' @ [CHR 0x22] @ '']'')) (\<lambda>resp.
     lift_sum (sbind (j_parse J resp) (\<lambda>j.
               sbind (j_get_string J j ''result'') (\<lambda>h. stoull16 (strip_0x h)))))"

definition send_raw_transaction :: "'j json_lib \<Rightarrow> 'w https \<Rightarrow> string \<Rightarrow> ('w, string) prog" where
  "send_raw_transaction J net signed_hex =
     bind (rpc_call J net ''eth_sendRawTransaction'' (''['' @ [CHR 0x22] @ signed_hex @ [CHR 0x22] @ '']'')) (\<lambda>resp.
     lift_sum (sbind (j_parse J resp) (\<lambda>j.
       if j_contains J j ''error''
       then sbind (j_at J j ''error'') (\<lambda>er. sbind (j_value_string J er ''message'' ''unknown'')
              (\<lambda>m. Inl (Runtime_Error (''eth_sendRawTransaction error: '' @ m))))
       else j_get_string J j ''result'')))"

lemma rpc_call_result:
  assumes "rpc_call J net meth params w = (Inr resp, w')"
  shows "has_result J resp"
  using assms by (auto simp: rpc_call_def Let_def post_def throw_def split: prod.splits if_splits elim!: bind_InrE)

subsection \<open>The counter\<close>

text \<open>
  The program state of the manager's own operations: the counter and the world behind the RPC.
  \<open>next\<close> is the operation \<open>nonce_next\<close> of the execution arms.
\<close>

record 'w nonce_state =
  counter_value :: u64
  nworld :: 'w

definition on_world :: "('w, 'a) prog \<Rightarrow> ('w nonce_state, 'a) prog" where
  "on_world m = (\<lambda>s. case m (nworld s) of (r, w) \<Rightarrow> (r, s\<lparr>nworld := w\<rparr>))"

definition sync :: "'j json_lib \<Rightarrow> 'w https \<Rightarrow> string \<Rightarrow> ('w nonce_state, unit) prog" where
  "sync J net wallet_hex =
     bind (on_world (get_transaction_count J net wallet_hex)) (\<lambda>v. modify (\<lambda>s. s\<lparr>counter_value := v\<rparr>))"

definition take_next :: "('w nonce_state, u64) prog" where
  "take_next = (\<lambda>s. (Inr (counter_value s), s\<lparr>counter_value := counter_value s + 1\<rparr>))"

text \<open>Without another thread the compare-and-swap loop of \<open>force_resync\<close> takes the larger value.\<close>

definition force_resync :: "'j json_lib \<Rightarrow> 'w https \<Rightarrow> string \<Rightarrow> ('w nonce_state, unit) prog" where
  "force_resync J net wallet_hex =
     bind (on_world (get_transaction_count J net wallet_hex)) (\<lambda>fresh.
       modify (\<lambda>s. if fresh > counter_value s then s\<lparr>counter_value := fresh\<rparr> else s))"

text \<open>
  Startup without an RPC. The counter is changed by a \<open>sync\<close> only if one of the two endpoints
  answered with a result that is a hexadecimal number below 2^64; when both fail, or the answer does
  not parse, \<open>sync\<close> throws and the counter keeps its value, and so does a resync, which moreover never
  moves the counter back.
\<close>

theorem nonce_seed_failure_keeps_counter:
  "(case sync J net a s of
     (Inl e, s') \<Rightarrow> counter_value s' = counter_value s \<and> fst (get_transaction_count J net a (nworld s)) = Inl e
   | (Inr _, s') \<Rightarrow> fst (get_transaction_count J net a (nworld s)) = Inr (counter_value s'))
   \<and> counter_value s \<le> counter_value (snd (force_resync J net a s))"
  by (auto simp: sync_def force_resync_def bind_def on_world_def modify_def split: prod.splits sum.splits)

subsection \<open>Threads\<close>

text \<open>
  The counter under concurrency: any number of threads draw nonces (\<open>fetch_add\<close>), one thread runs
  \<open>force_resync\<close>, whose loop is split at its atomic accesses. A weak compare-and-swap may fail
  even when the values agree; a failure reloads \<open>current\<close>. \<open>wrapped\<close> records that the 64-bit
  counter has passed its end.
\<close>

datatype resync = Idle | Fetched u64 | Looping u64 u64

record counter =
  cvalue :: u64
  issued :: "u64 list"
  rs :: resync
  wrapped :: bool

inductive counter_step :: "counter \<Rightarrow> counter \<Rightarrow> bool" where
  draw: "counter_step s (s\<lparr>issued := issued s @ [cvalue s], wrapped := wrapped s \<or> cvalue s = - 1, cvalue := cvalue s + 1\<rparr>)"
| fetch: "rs s = Idle \<Longrightarrow> counter_step s (s\<lparr>rs := Fetched fresh\<rparr>)"
| load: "rs s = Fetched fresh \<Longrightarrow> counter_step s (s\<lparr>rs := Looping fresh (cvalue s)\<rparr>)"
| swap: "rs s = Looping fresh cur \<Longrightarrow> fresh > cur \<Longrightarrow> cvalue s = cur \<Longrightarrow>
    counter_step s (s\<lparr>cvalue := fresh, rs := Idle\<rparr>)"
| retry: "rs s = Looping fresh cur \<Longrightarrow> fresh > cur \<Longrightarrow> counter_step s (s\<lparr>rs := Looping fresh (cvalue s)\<rparr>)"
| leave: "rs s = Looping fresh cur \<Longrightarrow> \<not> fresh > cur \<Longrightarrow> counter_step s (s\<lparr>rs := Idle\<rparr>)"

inductive counter_reachable :: "counter \<Rightarrow> counter \<Rightarrow> bool" for s0 where
  start: "counter_reachable s0 s0"
| step: "counter_reachable s0 s \<Longrightarrow> counter_step s t \<Longrightarrow> counter_reachable s0 t"

inductive_cases counter_stepE: "counter_step s t"

definition counter_inv :: "counter \<Rightarrow> bool" where
  "counter_inv s \<longleftrightarrow> wrapped s \<or> (sorted_wrt (<) (issued s) \<and> (\<forall>n \<in> set (issued s). n < cvalue s))"

lemma word_less_add1:
  assumes "(v :: u64) \<noteq> - 1"
  shows "v < v + 1"
proof -
  have "uint v \<noteq> 2 ^ 64 - 1"
  proof
    assume "uint v = 2 ^ 64 - 1"
    then have "v = word_of_int (2 ^ 64 - 1)" by (metis word_of_int_uint)
    with assms show False by simp
  qed
  moreover have "uint v < 2 ^ 64" using uint_lt2p [of v] by simp
  ultimately have "uint (v + 1) = uint v + 1"
    by (simp add: uint_word_ariths(1))
  then show ?thesis by (simp add: word_less_def)
qed

lemma counter_step_inv:
  assumes "counter_step s t" and "counter_inv s"
  shows "counter_inv t"
  using assms(1)
proof cases
  case draw
  have "\<forall>n \<in> set (issued s). n < cvalue s + 1" if "cvalue s \<noteq> - 1" "\<forall>n \<in> set (issued s). n < cvalue s"
    using that word_less_add1 order_less_trans by blast
  then show ?thesis using assms(2) word_less_add1 [of "cvalue s"]
    by (auto simp: counter_inv_def sorted_wrt_append draw)
next
  case (swap fresh cur)
  then show ?thesis using assms(2) order_less_trans by (fastforce simp: counter_inv_def)
qed (use assms(2) in \<open>simp_all add: counter_inv_def\<close>)

text \<open>
  C29. Unique nonces. In every interleaving of threads drawing nonces with a thread running
  \<open>force_resync\<close>, spurious failures of its compare-and-swap included, the nonces handed out are
  strictly increasing until the 64-bit counter wraps: no nonce is handed out twice.
\<close>

theorem nonces_unique_across_threads:
  assumes "counter_reachable s0 s" and "issued s0 = []" and "\<not> wrapped s"
  shows "sorted_wrt (<) (issued s) \<and> distinct (issued s)"
proof -
  have "counter_inv s" using assms(1)
    by (induction rule: counter_reachable.induct)
      (use assms(2) counter_step_inv in \<open>auto simp: counter_inv_def\<close>)
  then show ?thesis using assms(3) by (simp add: counter_inv_def strict_sorted_iff)
qed

definition fresh_counter :: counter where
  "fresh_counter = \<lparr>cvalue = 5, issued = [], rs = Idle, wrapped = False\<rparr>"

theorem nonces_unique_across_threads_witness:
  "\<exists>s. counter_reachable fresh_counter s \<and> issued s = [5, 6, 9] \<and> distinct (issued s)"
proof -
  let ?s1 = "\<lparr>cvalue = 6, issued = [5], rs = Idle, wrapped = False\<rparr>"
  let ?s2 = "\<lparr>cvalue = 6, issued = [5], rs = Fetched 9, wrapped = False\<rparr>"
  let ?s3 = "\<lparr>cvalue = 6, issued = [5], rs = Looping 9 6, wrapped = False\<rparr>"
  let ?s4 = "\<lparr>cvalue = 7, issued = [5, 6], rs = Looping 9 6, wrapped = False\<rparr>"
  let ?s5 = "\<lparr>cvalue = 7, issued = [5, 6], rs = Looping 9 7, wrapped = False\<rparr>"
  let ?s6 = "\<lparr>cvalue = 9, issued = [5, 6], rs = Idle, wrapped = False\<rparr>"
  let ?s7 = "\<lparr>cvalue = 10, issued = [5, 6, 9], rs = Idle, wrapped = False\<rparr>"
  have steps: "counter_step fresh_counter ?s1" "counter_step ?s1 ?s2" "counter_step ?s2 ?s3" "counter_step ?s3 ?s4"
    "counter_step ?s4 ?s5" "counter_step ?s5 ?s6" "counter_step ?s6 ?s7"
    using counter_step.draw [of fresh_counter] counter_step.fetch [of ?s1 9] counter_step.load [of ?s2 9]
      counter_step.draw [of ?s3] counter_step.retry [of ?s4 9 6] counter_step.swap [of ?s5 9 7] counter_step.draw [of ?s6]
    by (simp_all add: fresh_counter_def)
  note r = counter_reachable.start [of fresh_counter]
  note r = counter_reachable.step [OF r steps(1)]
  note r = counter_reachable.step [OF r steps(2)]
  note r = counter_reachable.step [OF r steps(3)]
  note r = counter_reachable.step [OF r steps(4)]
  note r = counter_reachable.step [OF r steps(5)]
  note r = counter_reachable.step [OF r steps(6)]
  note r = counter_reachable.step [OF r steps(7)]
  from nonces_unique_across_threads [OF r] show ?thesis using r
    by (intro exI [of _ ?s7]) (simp add: fresh_counter_def)
qed

end
