(* ===== verification/Window_Buffer.thy ===== *)
theory Window_Buffer
  imports Prelude
begin

text \<open>
  Circular buffers read as queues. The watchdog and the volatility estimator both keep their recent
  samples in an array with a read index and a count, overwrite the oldest when it is full, and drop
  expired samples from the front. \<open>window\<close> is the queue such an array stands for; the locale
  \<open>sliding_window\<close> is the contract of the two operations, and what follows from it.
\<close>

subsection \<open>The queue of an array\<close>

definition window :: "nat \<Rightarrow> 'a list \<Rightarrow> nat \<Rightarrow> nat \<Rightarrow> 'a list" where
  "window N buf rd n = map (\<lambda>i. buf ! ((rd + i) mod N)) [0..<n]"

lemma length_window [simp]: "length (window N buf rd n) = n"
  by (simp add: window_def)

lemma window_0 [simp]: "window N buf rd 0 = []"
  by (simp add: window_def)

lemma window_Suc: "window N buf rd (Suc n) = buf ! (rd mod N) # window N buf ((rd + 1) mod N) n"
  unfolding window_def
  by (simp del: upt_Suc add: upt_conv_Cons map_Suc_upt [symmetric] comp_def mod_add_left_eq)

lemma window_snoc: "window N buf rd (Suc n) = window N buf rd n @ [buf ! ((rd + n) mod N)]"
  by (simp add: window_def)

lemma window_mod [simp]: "window N buf (rd mod N) n = window N buf rd n"
  by (simp add: window_def mod_add_left_eq)

lemma window_update:
  assumes "n \<le> m" "m < N"
  shows "window N (buf[(rd + m) mod N := e]) rd n = window N buf rd n"
proof -
  have "(rd + m) mod N \<noteq> (rd + i) mod N" if "i < n" for i
  proof
    assume "(rd + m) mod N = (rd + i) mod N"
    then have "N dvd m - i" using that assms mod_eq_dvd_iff_nat [of "rd + i" "rd + m" N] by simp
    then show False using that assms by (auto dest!: dvd_imp_le)
  qed
  then show ?thesis by (simp add: window_def)
qed

lemma window_append:
  assumes "length buf = N" "n < N"
  shows "window N (buf[(rd + n) mod N := e]) rd (Suc n) = window N buf rd n @ [e]"
  using assms window_update [OF order_refl assms(2), of buf rd e] by (simp add: window_snoc)

lemma window_full:
  assumes "length buf = N" "0 < N"
  shows "window N (buf[(rd + N) mod N := e]) ((rd + 1) mod N) N = tl (window N buf rd N) @ [e]"
proof -
  obtain m where m: "Suc m = N" using assms(2) by (cases N) auto
  let ?r = "(rd + 1) mod N"
  have rm: "(?r + m) mod N = rd mod N" using m by (simp add: mod_add_left_eq) (metis add_Suc_right mod_add_self2)
  have "window N (buf[(rd + N) mod N := e]) ?r N = window N (buf[(rd + N) mod N := e]) ?r (Suc m)" by (simp only: m)
  also have "\<dots> = window N (buf[rd mod N := e]) ?r m @ [buf[rd mod N := e] ! (rd mod N)]"
    by (simp only: window_snoc rm mod_add_self2)
  also have "window N (buf[rd mod N := e]) ?r m = window N buf ?r m"
    using window_update [of m m N buf ?r e] m by (simp only: rm)
  also have "buf[rd mod N := e] ! (rd mod N) = e" using assms by simp
  also have "window N buf ?r m = tl (window N buf rd N)" by (simp only: m [symmetric] window_Suc list.sel)
  finally show ?thesis .
qed

subsection \<open>Expiry on ordered samples\<close>

definition before :: "('e \<Rightarrow> i64) \<Rightarrow> 'e \<Rightarrow> 'e \<Rightarrow> bool" where
  "before stamp a b \<longleftrightarrow> sint (stamp a) \<le> sint (stamp b)"

definition last_n :: "nat \<Rightarrow> 'e list \<Rightarrow> 'e list" where
  "last_n N xs = drop (length xs - N) xs"

lemma last_n_snoc: "0 < N \<Longrightarrow> last_n N (xs @ [e]) = (if length xs < N then xs else tl (last_n N xs)) @ [e]"
  by (auto simp: last_n_def Suc_diff_le drop_Suc tl_drop not_less)

lemma length_last_n: "length (last_n N xs) = min N (length xs)"
  by (simp add: last_n_def)

lemma dropWhile_expired:
  "sorted_wrt (before stamp) xs \<Longrightarrow> dropWhile (\<lambda>x. stamp x <s c) xs = filter (\<lambda>x. c \<le>s stamp x) xs"
proof (induction xs)
  case (Cons x xs)
  show ?case
  proof (cases "stamp x <s c")
    case True
    then show ?thesis using Cons by (simp add: word_sless_alt word_sle_eq)
  next
    case False
    then have "\<forall>y \<in> set (x # xs). c \<le>s stamp y"
      using Cons.prems by (auto simp: word_sless_alt word_sle_eq before_def)
    then show ?thesis using False by (simp add: filter_id_conv del: filter.simps)
  qed
qed simp

text \<open>
  One step of the window on the list of all samples: what is kept of the last \<open>N\<close> samples and not
  expired is what the queue keeps when it drops from its front.
\<close>

lemma slide_step:
  assumes "sorted_wrt (before stamp) (xs @ [e])" and "0 < N" and "sint c \<le> sint c'"
    and q: "q = filter (\<lambda>x. c \<le>s stamp x) (last_n N xs)"
  shows "dropWhile (\<lambda>x. stamp x <s c') ((if length q < N then q else tl q) @ [e])
    = filter (\<lambda>x. c' \<le>s stamp x) (last_n N (xs @ [e]))"
proof -
  let ?l = "last_n N xs" and ?q = "(if length q < N then q else tl q) @ [e]"
  have sub: "sorted_wrt (before stamp) (drop k ys)" if "sorted_wrt (before stamp) ys" for k and ys :: "'a list"
    using that by (metis append_take_drop_id sorted_wrt_append)
  have sl: "sorted_wrt (before stamp) ?l" and le: "\<forall>x \<in> set ?l. before stamp x e"
    using assms(1) by (auto simp: last_n_def sorted_wrt_append sub dest: in_set_dropD)
  have tl_sorted: "sorted_wrt (before stamp) ys \<Longrightarrow> sorted_wrt (before stamp) (tl ys)" for ys by (cases ys) simp_all
  have tl_in: "y \<in> set (tl ys) \<Longrightarrow> y \<in> set ys" for y and ys :: "'a list" by (cases ys) simp_all
  have sq: "sorted_wrt (before stamp) ?q"
  proof -
    have "sorted_wrt (before stamp) q" and "\<forall>x \<in> set q. before stamp x e"
      using sl le by (auto simp: q sorted_wrt_filter)
    then show ?thesis using tl_sorted [of q] by (auto simp: sorted_wrt_append dest: tl_in)
  qed
  have f2: "filter (\<lambda>x. c' \<le>s stamp x) (filter (\<lambda>x. c \<le>s stamp x) ys) = filter (\<lambda>x. c' \<le>s stamp x) ys" for ys
    using assms(3) by (auto simp: word_sle_eq intro!: filter_cong)
  have "filter (\<lambda>x. c' \<le>s stamp x) (if length q < N then q else tl q)
      = filter (\<lambda>x. c' \<le>s stamp x) (if length xs < N then xs else tl ?l)"
  proof (cases "length xs < N")
    case True
    then have "?l = xs" by (simp add: last_n_def)
    moreover have "length q < N" using True q calculation by (metis length_filter_le order_le_less_trans)
    ultimately show ?thesis using True q f2 by simp
  next
    case False
    then obtain x ys where l: "?l = x # ys" and len: "length ?l = N"
      using assms(2) length_last_n [of N xs] by (cases ?l) auto
    show ?thesis
    proof (cases "c \<le>s stamp x")
      case True
      then have "\<forall>y \<in> set ?l. c \<le>s stamp y" using sl l by (auto simp: before_def word_sle_eq)
      then have "q = ?l" by (simp add: q filter_id_conv)
      then show ?thesis using False len by simp
    next
      case f: False
      then have q': "q = filter (\<lambda>x. c \<le>s stamp x) ys" by (simp add: q l)
      then have "length q < N" using len l by (metis length_Cons length_filter_le less_Suc_eq_le)
      then show ?thesis using False q' l f2 by simp
    qed
  qed
  then show ?thesis using dropWhile_expired [OF sq, of c'] last_n_snoc [OF assms(2), of xs e]
    by (simp split del: if_split)
qed

subsection \<open>The contract of a sliding window\<close>

locale sliding_window =
  fixes N :: nat
    and stamp :: "'e \<Rightarrow> i64"
    and valid :: "'s \<Rightarrow> bool"
    and view :: "'s \<Rightarrow> 'e list"
    and add :: "'e \<Rightarrow> 's \<Rightarrow> 's"
    and expire :: "i64 \<Rightarrow> 's \<Rightarrow> 's"
  assumes capacity: "0 < N"
    and valid_add: "valid s \<Longrightarrow> valid (add e s)"
    and view_add: "valid s \<Longrightarrow> view (add e s) = (if length (view s) < N then view s else tl (view s)) @ [e]"
    and valid_expire: "valid s \<Longrightarrow> valid (expire c s)"
    and view_expire: "valid s \<Longrightarrow> view (expire c s) = dropWhile (\<lambda>x. stamp x <s c) (view s)"
begin

text \<open>After a run of the two operations the view is what is left of the last \<open>N\<close> samples.\<close>

lemma view_run:
  assumes "valid s" and "view s = filter (\<lambda>x. c \<le>s stamp x) (last_n N xs)"
    and "sorted_wrt (before stamp) (xs @ map snd es)" and "sorted_wrt (\<lambda>a b. sint a \<le> sint b) (c # map fst es)"
  shows "valid (fold (\<lambda>(c, e). expire c \<circ> add e) es s)
    \<and> view (fold (\<lambda>(c, e). expire c \<circ> add e) es s)
      = filter (\<lambda>x. last (c # map fst es) \<le>s stamp x) (last_n N (xs @ map snd es))"
  using assms
proof (induction es arbitrary: s c xs)
  case (Cons p es)
  obtain c' e where p: "p = (c', e)" by (cases p) blast
  let ?s = "expire c' (add e s)"
  have v: "valid ?s" by (intro valid_expire valid_add Cons.prems(1))
  have cc: "sint c \<le> sint c'" using Cons.prems(4) by (simp add: p)
  have srt: "sorted_wrt (before stamp) (xs @ [e])" using Cons.prems(3) by (simp add: p sorted_wrt_append)
  have "view ?s = dropWhile (\<lambda>x. stamp x <s c') ((if length (view s) < N then view s else tl (view s)) @ [e])"
    by (simp only: view_expire [OF valid_add [OF Cons.prems(1)]] view_add [OF Cons.prems(1)])
  also have "\<dots> = filter (\<lambda>x. c' \<le>s stamp x) (last_n N (xs @ [e]))"
    by (rule slide_step [OF srt capacity cc Cons.prems(2)])
  finally have w: "view ?s = filter (\<lambda>x. c' \<le>s stamp x) (last_n N (xs @ [e]))" .
  have "sorted_wrt (before stamp) ((xs @ [e]) @ map snd es)" using Cons.prems(3) by (simp add: p)
  moreover have "sorted_wrt (\<lambda>a b. sint a \<le> sint b) (c' # map fst es)" using Cons.prems(4) by (simp add: p)
  ultimately show ?case using Cons.IH [OF v w] by (simp add: p)
qed simp

end

end
