(* ===== verification/Watchdog.thy ===== *)
theory Watchdog
  imports Shared_State Constants Window_Buffer
begin

text \<open>
  The risk watchdog, \<open>src/risk/watchdog.hpp\<close> and \<open>watchdog.cpp\<close>: circuit breakers over the shared
  state, a circular buffer of BTC prices, and the latch that sets the kill switch and calls the
  flatten callbacks. The world \<open>'w\<close> holds what the clocks and the callbacks act on; \<open>reasons\<close> is
  what \<open>trip\<close> prints.
\<close>

record btc_entry =
  be_ts :: i64
  be_price :: f64

record 'w clocks =
  wall_us :: "'w \<Rightarrow> i64 \<times> 'w"
  mono_us :: "'w \<Rightarrow> i64 \<times> 'w"

record 'w watchdog =
  wd_world :: 'w
  wd_ss :: shared_state
  initial_bankroll :: f64
  tripped :: bool
  reasons :: "string list"
  btc_buf :: "btc_entry list"
  btc_write :: nat
  btc_read :: nat
  btc_count :: nat
  nav_window_start_us :: i64
  nav_window_start_usdc :: f64
  wd_stop :: bool

definition BTC_BUF_N :: nat where
  "BTC_BUF_N = 256"

definition new_watchdog :: "shared_state \<Rightarrow> 'w \<Rightarrow> 'w watchdog" where
  "new_watchdog sh w =
     \<lparr>wd_world = w, wd_ss = sh, initial_bankroll = bankroll_usdc sh, tripped = False, reasons = [],
      btc_buf = replicate BTC_BUF_N \<lparr>be_ts = 0, be_price = Fin 0\<rparr>, btc_write = 0, btc_read = 0, btc_count = 0,
      nav_window_start_us = 0, nav_window_start_usdc = Fin 0, wd_stop = False\<rparr>"

definition now_wall :: "'w clocks \<Rightarrow> 'w watchdog \<Rightarrow> i64 \<times> 'w watchdog" where
  "now_wall C s = (case wall_us C (wd_world s) of (t, w) \<Rightarrow> (t, s\<lparr>wd_world := w\<rparr>))"

definition now_mono :: "'w clocks \<Rightarrow> 'w watchdog \<Rightarrow> i64 \<times> 'w watchdog" where
  "now_mono C s = (case mono_us C (wd_world s) of (t, w) \<Rightarrow> (t, s\<lparr>wd_world := w\<rparr>))"

definition trip :: "('w \<Rightarrow> 'w) list \<Rightarrow> string \<Rightarrow> 'w watchdog \<Rightarrow> 'w watchdog" where
  "trip cbs reason s =
     (if tripped s then s
      else s\<lparr>tripped := True, wd_ss := (wd_ss s)\<lparr>kill_switch := True\<rparr>, reasons := reasons s @ [reason],
             wd_world := fold (\<lambda>cb w. cb w) cbs (wd_world s)\<rparr>)"

definition record_btc :: "f64 \<Rightarrow> i64 \<Rightarrow> 'w watchdog \<Rightarrow> 'w watchdog" where
  "record_btc p ts s =
     (let sl = btc_write s mod BTC_BUF_N;
          s1 = s\<lparr>btc_buf := (btc_buf s)[sl := \<lparr>be_ts = ts, be_price = p\<rparr>],
                 btc_write := (btc_write s + 1) mod BTC_BUF_N\<rparr>
      in if btc_count s < BTC_BUF_N then s1\<lparr>btc_count := btc_count s + 1\<rparr>
         else s1\<lparr>btc_read := (btc_read s + 1) mod BTC_BUF_N\<rparr>)"

text \<open>The difference of two clock readings in seconds, \<open>(a - b) / 1e6\<close>.\<close>

definition elapsed_s :: "i64 \<Rightarrow> i64 \<Rightarrow> f64" where
  "elapsed_s a b = fdiv (f64_of_int (sint (a - b))) (lit 1000000)"

definition check_consecutive_losses :: "('w \<Rightarrow> 'w) list \<Rightarrow> 'w clocks \<Rightarrow> 'w watchdog \<Rightarrow> 'w watchdog" where
  "check_consecutive_losses cbs C s =
     (if sint (consecutive_losses (wd_ss s)) < CB_MAX_CONSECUTIVE_LOSSES then s
      else let streak_start = first_loss_streak_us (wd_ss s)
           in if streak_start = 0 then s
              else case now_wall C s of (now, s) \<Rightarrow>
                if fle (elapsed_s now streak_start) CB_LOSS_WINDOW_S then trip cbs ''consecutive_losses'' s else s)"

fun evict :: "btc_entry list \<Rightarrow> i64 \<Rightarrow> nat \<Rightarrow> nat \<Rightarrow> nat \<times> nat" where
  "evict buf cutoff rd 0 = (rd, 0)"
| "evict buf cutoff rd (Suc n) =
     (if be_ts (buf ! (rd mod BTC_BUF_N)) <s cutoff then evict buf cutoff ((rd + 1) mod BTC_BUF_N) n
      else (rd, Suc n))"

definition spike_step :: "f64 \<Rightarrow> f64 \<times> f64 \<Rightarrow> f64 \<times> f64" where
  "spike_step p = (\<lambda>(lo, hi). (if flt p lo then p else lo, if flt hi p then p else hi))"

definition low_high :: "btc_entry list \<Rightarrow> nat \<Rightarrow> nat \<Rightarrow> f64 \<times> f64" where
  "low_high buf rd n =
     (let lo = be_price (buf ! (rd mod BTC_BUF_N))
      in fold (\<lambda>i. spike_step (be_price (buf ! ((rd + i) mod BTC_BUF_N)))) [0..<n] (lo, lo))"

definition is_spike :: "f64 \<times> f64 \<Rightarrow> bool" where
  "is_spike = (\<lambda>(lo, hi). flt (Fin 0) lo \<and> flt CB_BTC_SPIKE_THRESHOLD (fdiv (fsub hi lo) lo))"

definition SPIKE_WINDOW_US :: i64 where
  "SPIKE_WINDOW_US = word_of_int (cast_int i64_min i64_max (fmul CB_BTC_SPIKE_WINDOW_S (lit 1000000)))"

definition check_btc_spike :: "('w \<Rightarrow> 'w) list \<Rightarrow> 'w clocks \<Rightarrow> 'w watchdog \<Rightarrow> 'w watchdog" where
  "check_btc_spike cbs C s =
     (if btc_count s < 2 then s
      else case now_wall C s of (now, s) \<Rightarrow>
        case evict (btc_buf s) (now - SPIKE_WINDOW_US) (btc_read s) (btc_count s) of (rd, n) \<Rightarrow>
          let s = s\<lparr>btc_read := rd, btc_count := n\<rparr>
          in if n < 2 then s
             else if is_spike (low_high (btc_buf s) rd n) then trip cbs ''btc_spike'' s else s)"

definition check_nav_drawdown :: "('w \<Rightarrow> 'w) list \<Rightarrow> 'w clocks \<Rightarrow> 'w watchdog \<Rightarrow> 'w watchdog" where
  "check_nav_drawdown cbs C s =
     (case now_mono C s of (now, s) \<Rightarrow>
        let bankroll = bankroll_usdc (wd_ss s); start = nav_window_start_usdc s
        in if fle CB_NAV_DRAWDOWN_WINDOW_S (elapsed_s now (nav_window_start_us s))
           then s\<lparr>nav_window_start_us := now, nav_window_start_usdc := bankroll\<rparr>
           else if fle start (Fin 0) then s
           else if flt CB_NAV_DRAWDOWN_THRESHOLD (fdiv (fsub start bankroll) start)
           then trip cbs ''nav_drawdown'' s else s)"

definition check_margin :: "('w \<Rightarrow> 'w) list \<Rightarrow> 'w watchdog \<Rightarrow> 'w watchdog" where
  "check_margin cbs s =
     (let bankroll = bankroll_usdc (wd_ss s)
      in if flt (Fin 0) bankroll \<and> flt bankroll (fmul (initial_bankroll s) CEX_MARGIN_FLOOR_FRACTION)
         then trip cbs ''bankroll below margin floor'' s else s)"

definition record_price :: "'w clocks \<Rightarrow> 'w watchdog \<Rightarrow> 'w watchdog" where
  "record_price C s =
     (let btc = btc_mid (wd_ss s)
      in if flt (Fin 0) btc then case now_wall C s of (now, s) \<Rightarrow> record_btc btc now s else s)"

definition wd_evaluate :: "('w \<Rightarrow> 'w) list \<Rightarrow> 'w clocks \<Rightarrow> 'w watchdog \<Rightarrow> 'w watchdog" where
  "wd_evaluate cbs C s =
     check_margin cbs (check_nav_drawdown cbs C (check_btc_spike cbs C
       (check_consecutive_losses cbs C (record_price C s))))"

definition wd_start :: "'w clocks \<Rightarrow> 'w watchdog \<Rightarrow> 'w watchdog" where
  "wd_start C s = (case now_mono C s of (now, s) \<Rightarrow>
     s\<lparr>nav_window_start_us := now, nav_window_start_usdc := bankroll_usdc (wd_ss s)\<rparr>)"

text \<open>
  One turn of the loop of \<open>run\<close>; between turns the other threads publish a new shared state
  (\<open>publish\<close>), which never clears the kill switch.
\<close>

definition wd_turn :: "('w \<Rightarrow> 'w) list \<Rightarrow> 'w clocks \<Rightarrow> 'w watchdog \<Rightarrow> 'w watchdog" where
  "wd_turn cbs C s = (if wd_stop s \<or> tripped s then s else wd_evaluate cbs C s)"

definition publish :: "shared_state \<Rightarrow> 'w watchdog \<Rightarrow> 'w watchdog" where
  "publish sh s = s\<lparr>wd_ss := sh\<lparr>kill_switch := kill_switch sh \<or> kill_switch (wd_ss s)\<rparr>\<rparr>"

fun wd_turns :: "('w \<Rightarrow> 'w) list \<Rightarrow> 'w clocks \<Rightarrow> shared_state list \<Rightarrow> 'w watchdog \<Rightarrow> 'w watchdog" where
  "wd_turns cbs C [] s = s"
| "wd_turns cbs C (sh # shs) s = wd_turns cbs C shs (wd_turn cbs C (publish sh s))"

definition wd_run :: "('w \<Rightarrow> 'w) list \<Rightarrow> 'w clocks \<Rightarrow> shared_state list \<Rightarrow> 'w watchdog \<Rightarrow> 'w watchdog" where
  "wd_run cbs C shs s = wd_turns cbs C shs (wd_start C s)"

subsection \<open>The price window as a queue\<close>

definition samples :: "'w watchdog \<Rightarrow> btc_entry list" where
  "samples s = window BTC_BUF_N (btc_buf s) (btc_read s) (btc_count s)"

definition wd_inv :: "'w watchdog \<Rightarrow> bool" where
  "wd_inv s \<longleftrightarrow> length (btc_buf s) = BTC_BUF_N \<and> btc_read s < BTC_BUF_N \<and> btc_count s \<le> BTC_BUF_N
     \<and> btc_write s = (btc_read s + btc_count s) mod BTC_BUF_N"

lemma N_pos [simp]: "0 < BTC_BUF_N" by (simp add: BTC_BUF_N_def)

lemma evict_window:
  "evict buf cutoff rd n = (rd', n') \<Longrightarrow>
     window BTC_BUF_N buf rd' n' = dropWhile (\<lambda>e. be_ts e <s cutoff) (window BTC_BUF_N buf rd n)
     \<and> (rd' + n') mod BTC_BUF_N = (rd + n) mod BTC_BUF_N \<and> n' \<le> n \<and> (rd < BTC_BUF_N \<longrightarrow> rd' < BTC_BUF_N)"
proof (induction n arbitrary: rd)
  case 0
  then show ?case by (simp add: window_def)
next
  case (Suc n)
  show ?case
  proof (cases "be_ts (buf ! (rd mod BTC_BUF_N)) <s cutoff")
    case True
    with Suc.prems have "evict buf cutoff ((rd + 1) mod BTC_BUF_N) n = (rd', n')" by simp
    from Suc.IH [OF this] True show ?thesis by (simp add: window_Suc mod_simps le_SucI)
  next
    case False
    with Suc.prems show ?thesis by (auto simp: window_Suc)
  qed
qed

lemma record_btc_samples:
  assumes "wd_inv s"
  shows "wd_inv (record_btc p ts s)"
    and "samples (record_btc p ts s) =
      (if btc_count s < BTC_BUF_N then samples s else tl (samples s)) @ [\<lparr>be_ts = ts, be_price = p\<rparr>]"
proof -
  have w: "btc_write s mod BTC_BUF_N = (btc_read s + btc_count s) mod BTC_BUF_N" and
    i: "length (btc_buf s) = BTC_BUF_N" "btc_read s < BTC_BUF_N" "btc_count s \<le> BTC_BUF_N"
    "btc_write s = (btc_read s + btc_count s) mod BTC_BUF_N"
    using assms by (simp_all add: wd_inv_def)
  show "wd_inv (record_btc p ts s)" using i by (auto simp: wd_inv_def record_btc_def Let_def mod_Suc_eq)
      (metis add_Suc mod_add_self2)
  show "samples (record_btc p ts s) =
      (if btc_count s < BTC_BUF_N then samples s else tl (samples s)) @ [\<lparr>be_ts = ts, be_price = p\<rparr>]"
  proof (cases "btc_count s < BTC_BUF_N")
    case True
    then show ?thesis using window_append [OF i(1) True] by (simp add: samples_def record_btc_def w Let_def)
  next
    case False
    then have n: "btc_count s = BTC_BUF_N" using i by simp
    show ?thesis using window_full [OF i(1) N_pos, of "btc_read s"] n
      by (simp add: samples_def record_btc_def w Let_def)
  qed
qed

definition wd_expire :: "i64 \<Rightarrow> 'w watchdog \<Rightarrow> 'w watchdog" where
  "wd_expire c s = (case evict (btc_buf s) c (btc_read s) (btc_count s) of (rd, n) \<Rightarrow> s\<lparr>btc_read := rd, btc_count := n\<rparr>)"

lemma wd_expire_samples:
  assumes "wd_inv s"
  shows "wd_inv (wd_expire c s)" and "samples (wd_expire c s) = dropWhile (\<lambda>e. be_ts e <s c) (samples s)"
proof -
  obtain rd n where e: "evict (btc_buf s) c (btc_read s) (btc_count s) = (rd, n)" by fastforce
  from evict_window [OF e] assms
  show "wd_inv (wd_expire c s)" "samples (wd_expire c s) = dropWhile (\<lambda>e. be_ts e <s c) (samples s)"
    by (auto simp: wd_expire_def e wd_inv_def samples_def)
qed

interpretation price_window: sliding_window BTC_BUF_N be_ts wd_inv samples
    "\<lambda>e. record_btc (be_price e) (be_ts e)" wd_expire
  by unfold_locales (simp_all add: record_btc_samples wd_expire_samples, simp add: samples_def)

lemma low_high_window:
  assumes "0 < n"
  shows "low_high buf rd n =
    (let ps = map be_price (window BTC_BUF_N buf rd n) in fold spike_step ps (hd ps, hd ps))"
proof -
  have h: "hd (window BTC_BUF_N buf rd n) = buf ! (rd mod BTC_BUF_N)" using assms by (cases n) (simp_all add: window_Suc)
  have "window BTC_BUF_N buf rd n \<noteq> []" using assms by (metis length_window length_0_conv less_numeral_extra(3))
  then show ?thesis
    by (simp add: low_high_def h hd_map Let_def) (simp add: window_def fold_map comp_def)
qed

lemma spike_fold:
  assumes "x \<noteq> NaN" "y \<noteq> NaN" "fle x y" "\<forall>p \<in> set ps. p \<noteq> NaN" "fold spike_step ps (x, y) = (lo, hi)"
  shows "lo \<in> insert x (set ps) \<and> hi \<in> insert y (set ps)
    \<and> fle lo x \<and> fle y hi \<and> (\<forall>p \<in> set ps. fle lo p \<and> fle p hi)"
  using assms
proof (induction ps arbitrary: x y)
  case (Cons p ps)
  have nn: "flt a b \<or> fle b a" if "a \<noteq> NaN" "b \<noteq> NaN" for a b :: f64
    using that by (cases a; cases b) auto
  have le: "flt a b \<Longrightarrow> fle a b" for a b :: f64 by (cases a; cases b) auto
  let ?x = "if flt p x then p else x" and ?y = "if flt y p then p else y"
  have p: "p \<noteq> NaN" using Cons.prems by simp
  have b: "fle ?x x" "fle ?x p" "fle y ?y" "fle p ?y"
    using nn [OF p Cons.prems(1)] nn [OF Cons.prems(2) p] le p Cons.prems(1,2) by (auto intro: fle_refl)
  have "fle ?x ?y" using b Cons.prems(3) fle_trans by blast
  from Cons.IH [OF _ _ this] Cons.prems p
  have "lo \<in> insert ?x (set ps) \<and> hi \<in> insert ?y (set ps)
    \<and> fle lo ?x \<and> fle ?y hi \<and> (\<forall>p \<in> set ps. fle lo p \<and> fle p hi)"
    by (simp add: spike_step_def split: if_splits)
  then have r: "lo \<in> insert ?x (set ps)" "hi \<in> insert ?y (set ps)" "fle lo ?x" "fle ?y hi"
    "\<forall>p \<in> set ps. fle lo p \<and> fle p hi" by blast+
  have "fle lo x" "fle y hi" "fle lo p" "fle p hi"
    using fle_trans [OF r(3)] fle_trans [OF _ r(4)] b by blast+
  moreover have "lo \<in> insert x (set (p # ps))" "hi \<in> insert y (set (p # ps))"
    using r(1,2) by (auto split: if_splits)
  ultimately show ?case using r(5) by simp
qed simp

subsection \<open>What the spike breaker decides\<close>

text \<open>A list of prices moved by more than the threshold, measured from its lowest to its highest.\<close>

definition moved_too_far :: "f64 list \<Rightarrow> bool" where
  "moved_too_far ps \<longleftrightarrow>
     (\<exists>lo \<in> set ps. \<exists>hi \<in> set ps. list_all (\<lambda>p. fle lo p \<and> fle p hi) ps
        \<and> flt (Fin 0) lo \<and> flt CB_BTC_SPIKE_THRESHOLD (fdiv (fsub hi lo) lo))"

lemma spike_iff:
  assumes "ps \<noteq> []" and "\<forall>p \<in> set ps. p \<noteq> NaN"
  shows "is_spike (fold spike_step ps (hd ps, hd ps)) \<longleftrightarrow> moved_too_far ps"
proof -
  obtain lo hi where f: "fold spike_step ps (hd ps, hd ps) = (lo, hi)" by fastforce
  have h: "hd ps \<noteq> NaN" "hd ps \<in> set ps" using assms by simp_all
  from spike_fold [OF h(1) h(1) fle_refl [OF h(1)] assms(2) f] h(2)
  have m: "lo \<in> set ps" "hi \<in> set ps" "\<forall>p \<in> set ps. fle lo p \<and> fle p hi" by auto
  have u: "lo' = lo \<and> hi' = hi"
    if "lo' \<in> set ps" "hi' \<in> set ps" "\<forall>p \<in> set ps. fle lo' p \<and> fle p hi'" for lo' hi'
    using that m fle_antisym by blast
  show ?thesis unfolding f moved_too_far_def is_spike_def list_all_iff prod.case using m u by blast
qed

definition prices_ok :: "'w watchdog \<Rightarrow> bool" where
  "prices_ok s \<longleftrightarrow> (\<forall>e \<in> set (samples s). be_price e \<noteq> NaN)"


definition steady_clocks :: "i64 \<Rightarrow> unit clocks" where
  "steady_clocks t = \<lparr>wall_us = (\<lambda>w. (t, w)), mono_us = (\<lambda>w. (t, w))\<rparr>"


subsection \<open>The latch\<close>

definition latch_inv :: "'w watchdog \<Rightarrow> bool" where
  "latch_inv s \<longleftrightarrow> length (reasons s) = (if tripped s then 1 else 0) \<and> (tripped s \<longrightarrow> kill_switch (wd_ss s))"

lemma latch_trip: "latch_inv s \<Longrightarrow> latch_inv (trip cbs r s)"
  by (simp add: latch_inv_def trip_def)

lemma latch_checks:
  "latch_inv s \<Longrightarrow> latch_inv (record_price C s)"
  "latch_inv s \<Longrightarrow> latch_inv (check_consecutive_losses cbs C s)"
  "latch_inv s \<Longrightarrow> latch_inv (check_btc_spike cbs C s)"
  "latch_inv s \<Longrightarrow> latch_inv (check_nav_drawdown cbs C s)"
  "latch_inv s \<Longrightarrow> latch_inv (check_margin cbs s)"
  by (auto simp: record_price_def record_btc_def check_consecutive_losses_def check_btc_spike_def
      check_nav_drawdown_def check_margin_def now_wall_def now_mono_def Let_def
      intro!: latch_trip split: prod.splits) (auto simp: latch_inv_def)

lemma latch_turns: "latch_inv s \<Longrightarrow> latch_inv (wd_turns cbs C shs s)"
proof (induction shs arbitrary: s)
  case (Cons sh shs)
  have "latch_inv (publish sh s)" using Cons.prems by (simp add: latch_inv_def publish_def)
  then have "latch_inv (wd_turn cbs C (publish sh s))"
    by (simp add: wd_turn_def wd_evaluate_def latch_checks)
  then show ?case using Cons.IH by simp
qed simp



subsection \<open>Breakers that cannot fire\<close>

text \<open>The accounting fields as the program leaves them: the seeded bankroll and no recorded loss.\<close>

definition seeded :: "rat \<Rightarrow> shared_state \<Rightarrow> bool" where
  "seeded b sh \<longleftrightarrow> bankroll_usdc sh = Fin b \<and> consecutive_losses sh = 0"

definition quiet_inv :: "rat \<Rightarrow> 'w watchdog \<Rightarrow> bool" where
  "quiet_inv b s \<longleftrightarrow> seeded b (wd_ss s) \<and> initial_bankroll s = Fin b \<and> nav_window_start_usdc s = Fin b
     \<and> set (reasons s) \<subseteq> {''btc_spike''}"

lemma quiet_trip: "quiet_inv b s \<Longrightarrow> quiet_inv b (trip cbs ''btc_spike'' s)"
  by (auto simp: quiet_inv_def trip_def seeded_def)

lemma quiet_checks:
  assumes "0 < b" and "fl b = Fin b" and "quiet_inv b s"
  shows "quiet_inv b (record_price C s)" "quiet_inv b (check_consecutive_losses cbs C s)"
    "quiet_inv b (check_btc_spike cbs C s)" "quiet_inv b (check_nav_drawdown cbs C s)"
    "quiet_inv b (check_margin cbs s)"
proof -
  have q: "quiet_inv b (s\<lparr>wd_world := w\<rparr>)" for w using assms(3) by (simp add: quiet_inv_def)
  show "quiet_inv b (record_price C s)"
    using assms(3) by (auto simp: record_price_def now_wall_def record_btc_def Let_def quiet_inv_def split: prod.splits)
  show "quiet_inv b (check_consecutive_losses cbs C s)"
    using assms(3) by (simp add: check_consecutive_losses_def quiet_inv_def seeded_def CB_MAX_CONSECUTIVE_LOSSES_def)
  have "quiet_inv b (s\<lparr>wd_world := w, btc_read := r, btc_count := n\<rparr>)" for w r n
    using assms(3) by (simp add: quiet_inv_def)
  then show "quiet_inv b (check_btc_spike cbs C s)"
    using assms(3) by (auto simp: check_btc_spike_def now_wall_def Let_def intro!: quiet_trip split: prod.splits)
  have "fdiv (fsub (Fin b) (Fin b)) (Fin b) = Fin 0" using assms(1) by (simp add: fsub_def)
  moreover have "\<not> flt CB_NAV_DRAWDOWN_THRESHOLD (Fin 0)"
    using fl_mono [of 0 "8 / 100"] by (intro fle_not_flt) (simp add: CB_NAV_DRAWDOWN_THRESHOLD_def lit_def)
  ultimately show "quiet_inv b (check_nav_drawdown cbs C s)"
    using assms(3) by (auto simp: check_nav_drawdown_def now_mono_def Let_def quiet_inv_def seeded_def split: prod.splits)
  have c: "CEX_MARGIN_FLOOR_FRACTION = Fin (1 / 2)"
    using fl_eqI [of "- 1" "1 / 2" 4503599627370496] by (simp add: CEX_MARGIN_FLOOR_FRACTION_def lit_def pow2_def)
  have "fle (fmul (Fin b) CEX_MARGIN_FLOOR_FRACTION) (Fin b)"
    using fl_mono [of "b * (1 / 2)" b] assms(1,2) unfolding c by simp
  then show "quiet_inv b (check_margin cbs s)"
    using assms(3) by (auto simp: check_margin_def Let_def quiet_inv_def seeded_def dest: fle_not_flt)
qed

lemma quiet_turns:
  assumes "0 < b" and "fl b = Fin b" and "list_all (seeded b) shs"
  shows "quiet_inv b s \<Longrightarrow> quiet_inv b (wd_turns cbs C shs s)"
  using assms(3)
proof (induction shs arbitrary: s)
  case (Cons sh shs)
  have "quiet_inv b (publish sh s)" using Cons.prems by (simp add: quiet_inv_def publish_def seeded_def)
  then have "quiet_inv b (wd_turn cbs C (publish sh s))"
    by (auto simp: wd_turn_def wd_evaluate_def intro!: quiet_checks [OF assms(1,2)])
  then show ?case using Cons by simp
qed simp

text \<open>
  Three of the four breakers are dead. Nothing in the program writes the loss counter or the
  bankroll after startup; over every run in which they keep their seeded values, the watchdog can only
  trip on a BTC move, never on losses, drawdown or margin, whatever the positions lose.
\<close>

theorem only_price_breaker_can_trip:
  assumes "0 < b" and "fl b = Fin b" and "seeded b sh" and "list_all (seeded b) shs"
  shows "set (reasons (wd_run cbs C shs (new_watchdog sh w))) \<subseteq> {''btc_spike''}"
proof -
  have "quiet_inv b (wd_start C (new_watchdog sh w))"
    using assms(3) by (simp add: quiet_inv_def wd_start_def now_mono_def new_watchdog_def seeded_def split: prod.splits)
  from quiet_turns [OF assms(1,2,4) this] show ?thesis by (simp add: wd_run_def quiet_inv_def)
qed

theorem only_price_breaker_can_trip_witness:
  "set (reasons (wd_run [] (steady_clocks 0) [initial_shared\<lparr>bankroll_usdc := Fin 200, total_exposure_usdc := Fin 400\<rparr>]
     (new_watchdog (initial_shared\<lparr>bankroll_usdc := Fin 200\<rparr>) ()))) \<subseteq> {''btc_spike''}"
  by (rule only_price_breaker_can_trip [of 200]) (simp_all add: seeded_def initial_shared_def fl_numeral)

end
