(* ===== verification/Market_Scanner.thy ===== *)
theory Market_Scanner
  imports Json_Lib Effects
begin

text \<open>
  The market scanner, \<open>src/data/market_scanner.hpp\<close> and \<open>market_scanner.cpp\<close>: discovery of the BTC
  five-minute markets over paginated REST answers, the expiry deadlines of each market, and the daily
  rebate window. The map of markets is a list of pairs, whose order stands for the unspecified
  iteration order of the hash map; the network and the clock are functions of a world \<open>'w\<close>, on which
  the callbacks act as well. \<open>fired\<close> records the deadlines passed, in the order of the callbacks.
\<close>

record active_market =
  condition_id :: string
  token_id_yes :: string
  token_id_no :: string
  resolution_us :: i64
  min_incentive_size :: f64
  max_incentive_spread :: f64
  is_above :: bool
  strike_price :: f64
  warn_logged :: bool
  entries_stopped :: bool
  quotes_cancelled :: bool
  positions_closed :: bool
  force_closed :: bool
  redemption_checked :: bool

datatype cb = StopEntries | CancelQuotes | ClosePositions | ForceClose | Remove

record 'w scanner =
  sc_world :: 'w
  markets :: "(string \<times> active_market) list"
  fired :: "(string \<times> cb) list"
  last_rebate_check_epoch_s :: i64
  rebate_windows :: "i64 list"
  sc_running :: bool

record 'w scanner_env =
  sc_http :: "string \<Rightarrow> 'w \<Rightarrow> string \<times> 'w"
  sc_now_us :: "'w \<Rightarrow> i64 \<times> 'w"
  sc_now_s :: "'w \<Rightarrow> i64 \<times> 'w"
  sc_callback :: "cb \<Rightarrow> string \<Rightarrow> 'w \<Rightarrow> 'w"

definition sc_read :: "('w \<Rightarrow> 'a \<times> 'w) \<Rightarrow> ('w scanner, 'a) prog" where
  "sc_read f = (\<lambda>s. case f (sc_world s) of (x, w) \<Rightarrow> (Inr x, s\<lparr>sc_world := w\<rparr>))"

definition new_market :: "string \<Rightarrow> string \<Rightarrow> string \<Rightarrow> i64 \<Rightarrow> active_market" where
  "new_market cid yes no res_us =
     \<lparr>condition_id = cid, token_id_yes = yes, token_id_no = no, resolution_us = res_us,
      min_incentive_size = Fin 0, max_incentive_spread = Fin 0, is_above = True, strike_price = Fin 0,
      warn_logged = False, entries_stopped = False, quotes_cancelled = False, positions_closed = False,
      force_closed = False, redemption_checked = False\<rparr>"

definition active_count :: "'w scanner \<Rightarrow> nat" where
  "active_count s = length (markets s)"

definition all_token_ids :: "'w scanner \<Rightarrow> string list" where
  "all_token_ids s = concat (map (\<lambda>(_, m). [token_id_yes m, token_id_no m]) (markets s))"

subsection \<open>Discovery\<close>

definition has_substring :: "string \<Rightarrow> string \<Rightarrow> bool" where
  "has_substring hay needle \<longleftrightarrow> (\<exists>i \<in> set [0..<length hay + 1]. starts_with needle (drop i hay))"

definition is_btc_5m_market :: "string \<Rightarrow> string \<Rightarrow> bool" where
  "is_btc_5m_market slug question \<longleftrightarrow>
     has_substring slug ''btc-updown-5m'' \<or> has_substring question ''btc-updown-5m''"

text \<open>\<open>j.contains(k)\<close>, then \<open>std::stod(j[k].get<std::string>())\<close>; \<open>None\<close> when absent.\<close>

definition opt_stod :: "'j json_lib \<Rightarrow> 'j \<Rightarrow> string \<Rightarrow> exn + f64 option" where
  "opt_stod J j k =
     (if j_contains J j k then sbind (j_get_string J j k) (\<lambda>t. sbind (stod t) (\<lambda>x. Inr (Some x)))
      else Inr None)"

definition incentives :: "'j json_lib \<Rightarrow> string \<Rightarrow> active_market \<Rightarrow> active_market" where
  "incentives J resp m =
     (if resp = [] then m
      else case j_parse J resp of
        Inl _ \<Rightarrow> m
      | Inr j \<Rightarrow>
          (case opt_stod J j ''min_incentive_size'' of
             Inl _ \<Rightarrow> m
           | Inr a \<Rightarrow>
               let m1 = (case a of None \<Rightarrow> m | Some x \<Rightarrow> m\<lparr>min_incentive_size := x\<rparr>)
               in case opt_stod J j ''max_incentive_spread'' of
                    Inl _ \<Rightarrow> m1
                  | Inr b \<Rightarrow> (case b of None \<Rightarrow> m1 | Some x \<Rightarrow> m1\<lparr>max_incentive_spread := x\<rparr>)))"

definition fetch_market_info ::
  "'j json_lib \<Rightarrow> 'w scanner_env \<Rightarrow> active_market \<Rightarrow> ('w scanner, active_market) prog" where
  "fetch_market_info J E m =
     bind (sc_read (sc_http E (''/clob-markets/'' @ condition_id m))) (\<lambda>resp. ret (incentives J resp m))"

definition token_step :: "'j json_lib \<Rightarrow> 'j \<Rightarrow> string \<times> string \<Rightarrow> exn + string \<times> string" where
  "token_step J tok = (\<lambda>(yes, no).
     sbind (j_value_string J tok ''outcome'' []) (\<lambda>outcome.
     sbind (j_value_string J tok ''token_id'' []) (\<lambda>tid.
       Inr (if outcome = ''Yes'' then (tid, no) else (yes, tid)))))"

fun token_loop :: "'j json_lib \<Rightarrow> 'j list \<Rightarrow> string \<times> string \<Rightarrow> exn + string \<times> string" where
  "token_loop J [] p = Inr p"
| "token_loop J (t # ts) p = sbind (token_step J t p) (token_loop J ts)"

definition market_tokens :: "'j json_lib \<Rightarrow> 'j \<Rightarrow> exn + string \<times> string" where
  "market_tokens J m =
     (if j_contains J m ''tokens''
      then sbind (j_at J m ''tokens'') (\<lambda>t.
        if 2 \<le> length (j_items J t) then token_loop J (j_items J t) ([], []) else Inr ([], []))
      else Inr ([], []))"

text \<open>The filters in their order: the market's condition id and slug if it passes.\<close>

definition market_filter :: "'j json_lib \<Rightarrow> 'j \<Rightarrow> exn + string option" where
  "market_filter J m =
     sbind (j_value_bool J m ''active'' False) (\<lambda>active. if \<not> active then Inr None else
     sbind (j_value_bool J m ''closed'' True) (\<lambda>closed. if closed then Inr None else
     sbind (j_value_bool J m ''feesEnabled'' False) (\<lambda>fees. if \<not> fees then Inr None else
     sbind (j_value_string J m ''slug'' []) (\<lambda>slug.
     sbind (j_value_string J m ''question'' []) (\<lambda>question.
       if \<not> is_btc_5m_market slug question then Inr None else
     sbind (j_value_string J m ''conditionId'' []) (\<lambda>cid.
       Inr (if cid = [] then None else Some cid)))))))"

definition scan_market :: "'j json_lib \<Rightarrow> 'w scanner_env \<Rightarrow> 'j \<Rightarrow> ('w scanner, unit) prog" where
  "scan_market J E m =
     bind (lift_sum (market_filter J m)) (\<lambda>r. case r of None \<Rightarrow> skip | Some cid \<Rightarrow>
     bind (gets markets) (\<lambda>ms. if cid \<in> set (map fst ms) then skip else
     bind (lift_sum (market_tokens J m)) (\<lambda>(yes, no). if yes = [] \<or> no = [] then skip else
     bind (lift_sum (j_value_string J m ''endDateIso'' [])) (\<lambda>end_date.
       let res_us = scanner_iso8601_to_us end_date
       in if res_us = 0 then skip else
     bind (sc_read (sc_now_us E)) (\<lambda>now. if res_us <s now then skip else
     bind (fetch_market_info J E (new_market cid yes no res_us)) (\<lambda>am.
       modify (\<lambda>s. if cid \<in> set (map fst (markets s)) then s else s\<lparr>markets := markets s @ [(cid, am)]\<rparr>)))))))"

fun scan_markets :: "'j json_lib \<Rightarrow> 'w scanner_env \<Rightarrow> 'j list \<Rightarrow> ('w scanner, unit) prog" where
  "scan_markets J E [] = skip"
| "scan_markets J E (m # ms) = andthen (scan_market J E m) (scan_markets J E ms)"

definition next_cursor :: "'j json_lib \<Rightarrow> 'j \<Rightarrow> exn + string" where
  "next_cursor J j =
     sbind (if j_contains J j ''next_cursor''
            then sbind (j_at J j ''next_cursor'') (\<lambda>c. if j_is_null J c then Inr [] else j_string J c)
            else Inr [])
       (\<lambda>c. Inr (if c = ''LTE='' then [] else c))"

definition page_path :: "string \<Rightarrow> string" where
  "page_path cursor =
     ''/markets?tag=bitcoin&active=true&limit=100'' @ (if cursor = [] then [] else ''&next_cursor='' @ cursor)"

text \<open>
  One page; the result is the cursor of the next one, empty when the loop ends. An empty or malformed
  answer ends the scan at once.
\<close>

definition scan_page :: "'j json_lib \<Rightarrow> 'w scanner_env \<Rightarrow> string \<Rightarrow> ('w scanner, string) prog" where
  "scan_page J E cursor =
     bind (sc_read (sc_http E (page_path cursor))) (\<lambda>resp. if resp = [] then ret [] else
       case j_parse J resp of
         Inl _ \<Rightarrow> ret []
       | Inr j \<Rightarrow>
           bind (lift_sum (next_cursor J j)) (\<lambda>c.
             if \<not> j_contains J j ''data'' then ret []
             else bind (lift_sum (j_at J j ''data'')) (\<lambda>d.
                  andthen (scan_markets J E (j_items J d)) (ret c))))"

text \<open>The page loop with fuel; the result says whether it ended.\<close>

fun scan_pages :: "'j json_lib \<Rightarrow> 'w scanner_env \<Rightarrow> nat \<Rightarrow> string \<Rightarrow> ('w scanner, bool) prog" where
  "scan_pages J E 0 cursor = ret False"
| "scan_pages J E (Suc n) cursor =
     bind (scan_page J E cursor) (\<lambda>c. if c = [] then ret True else scan_pages J E n c)"

definition scan_once :: "'j json_lib \<Rightarrow> 'w scanner_env \<Rightarrow> nat \<Rightarrow> ('w scanner, bool) prog" where
  "scan_once J E n = scan_pages J E n []"

subsection \<open>Deadlines\<close>

definition pass :: "bool \<Rightarrow> bool \<Rightarrow> cb \<Rightarrow> cb list" where
  "pass done due c = (if \<not> done \<and> due then [c] else [])"

text \<open>The flags of one market at a given remaining time, and the deadlines it passes.\<close>

definition due_by :: "active_market \<Rightarrow> i64 \<Rightarrow> int \<Rightarrow> bool" where
  "due_by m now limit \<longleftrightarrow> sint (resolution_us m - now) \<le> limit"

definition advance :: "i64 \<Rightarrow> active_market \<Rightarrow> active_market" where
  "advance now m = m\<lparr>
     warn_logged := warn_logged m \<or> due_by m now 120000000,
     entries_stopped := entries_stopped m \<or> (\<not> warn_logged m \<and> due_by m now 120000000),
     quotes_cancelled := quotes_cancelled m \<or> due_by m now 45000000,
     positions_closed := positions_closed m \<or> due_by m now 30000000,
     force_closed := force_closed m \<or> due_by m now 10000000,
     redemption_checked := redemption_checked m \<or> due_by m now (- 60000000)\<rparr>"

definition passed :: "i64 \<Rightarrow> active_market \<Rightarrow> cb list" where
  "passed now m =
     pass (warn_logged m) (due_by m now 120000000) StopEntries
     @ pass (quotes_cancelled m) (due_by m now 45000000) CancelQuotes
     @ pass (positions_closed m) (due_by m now 30000000) ClosePositions
     @ pass (force_closed m) (due_by m now 10000000) ForceClose
     @ pass (redemption_checked m) (due_by m now (- 60000000)) Remove"

definition pending :: "i64 \<Rightarrow> (string \<times> active_market) list \<Rightarrow> (string \<times> cb) list" where
  "pending now ms = concat (map (\<lambda>(cid, m). map (Pair cid) (passed now m)) ms)"

definition erase :: "string \<Rightarrow> (string \<times> active_market) list \<Rightarrow> (string \<times> active_market) list" where
  "erase cid = filter (\<lambda>(k, _). k \<noteq> cid)"

definition erase_removed :: "(string \<times> cb) list \<Rightarrow> (string \<times> active_market) list \<Rightarrow> (string \<times> active_market) list" where
  "erase_removed = fold (\<lambda>(cid, t) ms. if t = Remove then erase cid ms else ms)"

definition fire_callbacks :: "'w scanner_env \<Rightarrow> (string \<times> cb) list \<Rightarrow> 'w \<Rightarrow> 'w" where
  "fire_callbacks E = fold (\<lambda>(cid, t) w. if t = Remove then w else sc_callback E t cid w)"

definition check_lifecycle :: "'w scanner_env \<Rightarrow> ('w scanner, unit) prog" where
  "check_lifecycle E =
     bind (sc_read (sc_now_us E)) (\<lambda>now.
     modify (\<lambda>s. let p = pending now (markets s)
                 in s\<lparr>markets := erase_removed p (map (\<lambda>(cid, m). (cid, advance now m)) (markets s)),
                      fired := fired s @ p, sc_world := fire_callbacks E p (sc_world s)\<rparr>))"

subsection \<open>Rebate window and the loop\<close>

definition today_midnight_epoch_s :: "'w scanner_env \<Rightarrow> ('w scanner, i64) prog" where
  "today_midnight_epoch_s E =
     bind (sc_read (sc_now_s E)) (\<lambda>t. ret (word_of_int (sint t sdiv 86400 * 86400)))"

definition check_midnight_rebate :: "'w scanner_env \<Rightarrow> ('w scanner, unit) prog" where
  "check_midnight_rebate E =
     bind (today_midnight_epoch_s E) (\<lambda>midnight_s.
     bind (gets last_rebate_check_epoch_s) (\<lambda>last.
     bind (sc_read (sc_now_s E)) (\<lambda>now_s.
       if midnight_s + 300 \<le>s now_s \<and> last <s midnight_s
       then modify (\<lambda>s. s\<lparr>last_rebate_check_epoch_s := midnight_s, rebate_windows := rebate_windows s @ [midnight_s]\<rparr>)
       else skip)))"

definition scan_now :: "'j json_lib \<Rightarrow> 'w scanner_env \<Rightarrow> nat \<Rightarrow> ('w scanner, unit) prog" where
  "scan_now J E n = bind (scan_once J E n) (\<lambda>_. check_lifecycle E)"

definition loop_turn :: "'j json_lib \<Rightarrow> 'w scanner_env \<Rightarrow> nat \<Rightarrow> ('w scanner, unit) prog" where
  "loop_turn J E n =
     bind (gets sc_running) (\<lambda>r. if \<not> r then skip else
       bind (scan_once J E n) (\<lambda>_. andthen (check_lifecycle E) (check_midnight_rebate E)))"

end
