(* ===== verification/Scanner_Safety.thy ===== *)
theory Scanner_Safety
  imports Market_Scanner
begin

text \<open>
  Properties of the market scanner: the deadlines of a market fire in order, once, and none that is
  due is missed (an invariant of the flags, their log and the callbacks); what the map of markets
  holds after any scan (an invariant kept by every operation); the end of the page loop; and the daily
  rebate window.
\<close>

subsection \<open>The deadlines fire in order, once\<close>

definition deadline_order :: "cb list" where
  "deadline_order = [StopEntries, CancelQuotes, ClosePositions, ForceClose, Remove]"

text \<open>How many of the deadlines a market has passed; its flags are always a prefix.\<close>

definition flags_of :: "active_market \<Rightarrow> bool list" where
  "flags_of m = [warn_logged m, quotes_cancelled m, positions_closed m, force_closed m, redemption_checked m]"

definition stage :: "active_market \<Rightarrow> nat" where
  "stage m = length (filter id (flags_of m))"

definition staged :: "active_market \<Rightarrow> bool" where
  "staged m \<longleftrightarrow> flags_of m = map (\<lambda>i. i < stage m) [0..<5]"

lemma staged_iff:
  "staged m \<longleftrightarrow> (redemption_checked m \<longrightarrow> force_closed m) \<and> (force_closed m \<longrightarrow> positions_closed m)
     \<and> (positions_closed m \<longrightarrow> quotes_cancelled m) \<and> (quotes_cancelled m \<longrightarrow> warn_logged m)"
  by (cases "warn_logged m"; cases "quotes_cancelled m"; cases "positions_closed m"; cases "force_closed m";
      cases "redemption_checked m") (simp_all add: staged_def stage_def flags_of_def upt_rec)

lemma due_mono: "due_by m now a \<Longrightarrow> a \<le> b \<Longrightarrow> due_by m now b"
  by (simp add: due_by_def)

lemma due_chain:
  "due_by m now (- 60000000) \<Longrightarrow> due_by m now 10000000" "due_by m now 10000000 \<Longrightarrow> due_by m now 30000000"
  "due_by m now 30000000 \<Longrightarrow> due_by m now 45000000" "due_by m now 45000000 \<Longrightarrow> due_by m now 120000000"
  by (simp_all add: due_by_def)

lemma advance_step:
  assumes "staged m"
  shows "staged (advance now m) \<and> take (stage m) deadline_order @ passed now m = take (stage (advance now m)) deadline_order"
proof -
  consider "\<not> due_by m now 120000000" | "due_by m now 120000000" "\<not> due_by m now 45000000"
    | "due_by m now 45000000" "\<not> due_by m now 30000000" | "due_by m now 30000000" "\<not> due_by m now 10000000"
    | "due_by m now 10000000" "\<not> due_by m now (- 60000000)" | "due_by m now (- 60000000)" by blast
  note c = this
  have s: "stage m = 0 \<and> flags_of m = [False, False, False, False, False]
    \<or> stage m = 1 \<and> flags_of m = [True, False, False, False, False]
    \<or> stage m = 2 \<and> flags_of m = [True, True, False, False, False]
    \<or> stage m = 3 \<and> flags_of m = [True, True, True, False, False]
    \<or> stage m = 4 \<and> flags_of m = [True, True, True, True, False]
    \<or> stage m = 5 \<and> flags_of m = [True, True, True, True, True]"
    using assms unfolding staged_iff
    by (cases "warn_logged m"; cases "quotes_cancelled m"; cases "positions_closed m"; cases "force_closed m";
      cases "redemption_checked m") (simp_all add: stage_def flags_of_def)
  from c show ?thesis
    using due_chain [of m now] s
    by cases (auto simp: staged_def stage_def flags_of_def advance_def passed_def pass_def deadline_order_def
        upt_rec numeral_eq_Suc)
qed

definition events_of :: "string \<Rightarrow> (string \<times> cb) list \<Rightarrow> cb list" where
  "events_of cid evs = map snd (filter (\<lambda>(k, _). k = cid) evs)"

lemma events_of_simps [simp]:
  "events_of cid [] = []" "events_of cid (xs @ ys) = events_of cid xs @ events_of cid ys"
  by (simp_all add: events_of_def)

lemma events_of_pairs: "events_of cid (map (Pair k) ts) = (if k = cid then ts else [])"
  by (induction ts) (simp_all add: events_of_def comp_def)

lemma set_events_of: "t \<in> set (events_of cid evs) \<longleftrightarrow> (cid, t) \<in> set evs"
  by (force simp: events_of_def)

lemma events_of_pending:
  "distinct (map fst ms) \<Longrightarrow>
     events_of cid (pending now ms) = (case map_of ms cid of None \<Rightarrow> [] | Some m \<Rightarrow> passed now m)"
proof (induction ms)
  case (Cons p ms)
  obtain k m where p: "p = (k, m)" by (cases p) blast
  have "events_of cid (pending now (p # ms)) = (if k = cid then passed now m else []) @ events_of cid (pending now ms)"
    by (simp add: pending_def p events_of_pairs)
  moreover have "map_of ms k = None" using Cons.prems by (simp add: p map_of_eq_None_iff)
  ultimately show ?case using Cons by (auto simp: p)
qed (simp add: pending_def)

lemma Remove_pending:
  "distinct (map fst ms) \<Longrightarrow> map_of ms cid = Some m \<Longrightarrow>
     (cid, Remove) \<in> set (pending now ms) \<longleftrightarrow> Remove \<in> set (passed now m)"
proof -
  assume d: "distinct (map fst ms)" "map_of ms cid = Some m"
  show ?thesis using events_of_pending [OF d(1), of cid now] d(2) set_events_of [of Remove cid "pending now ms"] by simp
qed

lemma erase_removed_filter: "erase_removed p ms = filter (\<lambda>(k, _). (k, Remove) \<notin> set p) ms"
proof (induction p arbitrary: ms)
  case (Cons x p)
  obtain k t where x: "x = (k, t)" by (cases x) blast
  have "erase_removed (x # p) ms = erase_removed p (if t = Remove then erase k ms else ms)"
    by (simp add: erase_removed_def x)
  also have "\<dots> = filter (\<lambda>(j, _). (j, Remove) \<notin> set p) (if t = Remove then erase k ms else ms)"
    by (rule Cons.IH)
  also have "\<dots> = filter (\<lambda>(j, _). (j, Remove) \<notin> set (x # p)) ms"
    by (auto simp: erase_def x intro!: filter_cong)
  finally show ?case .
qed (simp add: erase_removed_def)

lemma map_of_filter_key: "map_of (filter (\<lambda>(k, _). P k) ms) cid = (if P cid then map_of ms cid else None)"
  by (induction ms) auto

lemma map_of_map_snd: "map_of (map (\<lambda>(k, m). (k, f m)) ms) cid = map_option f (map_of ms cid)"
  by (induction ms) auto

text \<open>The state of one market and the deadlines logged for it.\<close>

definition market_inv :: "string \<Rightarrow> 'w scanner \<Rightarrow> bool" where
  "market_inv cid s \<longleftrightarrow> distinct (map fst (markets s)) \<and>
     (case map_of (markets s) cid of
        None \<Rightarrow> events_of cid (fired s) = deadline_order
      | Some m \<Rightarrow> staged m \<and> stage m < 5 \<and> events_of cid (fired s) = take (stage m) deadline_order)"

lemma check_lifecycle_eq:
  "sc_now_us E (sc_world s) = (now, w) \<Longrightarrow> check_lifecycle E s =
     (Inr (), s\<lparr>markets := erase_removed (pending now (markets s))
        (map (\<lambda>(cid, m). (cid, advance now m)) (markets s)),
        fired := fired s @ pending now (markets s), sc_world := fire_callbacks E (pending now (markets s)) w\<rparr>)"
  by (simp add: check_lifecycle_def sc_read_def bind_def modify_def Let_def)

lemma check_lifecycle_run:
  obtains now w where "sc_now_us E (sc_world s) = (now, w)"
    "check_lifecycle E s = (Inr (), s\<lparr>markets := erase_removed (pending now (markets s))
        (map (\<lambda>(cid, m). (cid, advance now m)) (markets s)),
        fired := fired s @ pending now (markets s), sc_world := fire_callbacks E (pending now (markets s)) w\<rparr>)"
  using check_lifecycle_eq [of E s] that by (cases "sc_now_us E (sc_world s)") blast

lemma Remove_stage: "staged m \<Longrightarrow> stage m < 5 \<Longrightarrow> Remove \<in> set (passed now m) \<longleftrightarrow> stage (advance now m) = 5"
proof -
  assume s: "staged m" "stage m < 5"
  have d: "distinct deadline_order" "length deadline_order = 5" "deadline_order ! 4 = Remove"
    by (simp_all add: deadline_order_def)
  let ?n = "stage (advance now m)"
  note a = advance_step [OF s(1), of now]
  have n5: "?n \<le> 5" by (simp add: stage_def flags_of_def)
  have R: "Remove \<in> set (take k deadline_order) \<longleftrightarrow> 5 \<le> k" if "k \<le> 5" for k
    using that by (auto simp: deadline_order_def le_Suc_eq numeral_eq_Suc)
  have "Remove \<in> set (take ?n deadline_order) \<longleftrightarrow> ?n = 5" using R [OF n5] n5 by auto
  moreover have "Remove \<notin> set (take (stage m) deadline_order)" using R [of "stage m"] s(2) by simp
  ultimately show ?thesis using a by (metis Un_iff set_append)
qed

lemma check_lifecycle_inv:
  assumes "market_inv cid s" and "check_lifecycle E s = (Inr u, s')"
  shows "market_inv cid s'"
proof -
  obtain now w where r: "s' = s\<lparr>markets := erase_removed (pending now (markets s))
        (map (\<lambda>(cid, m). (cid, advance now m)) (markets s)),
        fired := fired s @ pending now (markets s), sc_world := fire_callbacks E (pending now (markets s)) w\<rparr>"
    using check_lifecycle_run [of E s] assms(2) by (metis prod.inject)
  have d: "distinct (map fst (markets s))" using assms(1) by (simp add: market_inv_def)
  then have d': "distinct (map fst (markets s'))"
    by (simp add: r erase_removed_filter distinct_map_filter comp_def case_prod_beta)
  let ?p = "pending now (markets s)"
  have m: "map_of (markets s') cid = (if (cid, Remove) \<in> set ?p then None else map_option (advance now) (map_of (markets s) cid))"
    by (simp add: r erase_removed_filter map_of_filter_key map_of_map_snd)
  have e: "events_of cid (fired s') = events_of cid (fired s) @ (case map_of (markets s) cid of None \<Rightarrow> [] | Some m \<Rightarrow> passed now m)"
    by (simp add: r events_of_pending [OF d])
  show ?thesis
  proof (cases "map_of (markets s) cid")
    case None
    then show ?thesis using assms(1) d' m e by (auto simp: market_inv_def)
  next
    case (Some x)
    then have x: "staged x" "stage x < 5" "events_of cid (fired s) = take (stage x) deadline_order"
      using assms(1) by (simp_all add: market_inv_def)
    note a = advance_step [OF x(1), of now]
    have n5: "stage (advance now x) \<le> 5" by (simp add: stage_def flags_of_def)
    have ev: "events_of cid (fired s') = take (stage (advance now x)) deadline_order"
      using a e Some x(3) by simp
    have rm: "(cid, Remove) \<in> set ?p \<longleftrightarrow> stage (advance now x) = 5"
      using Remove_pending [OF d Some] Remove_stage [OF x(1,2)] by simp
    show ?thesis
    proof (cases "stage (advance now x) = 5")
      case True
      then show ?thesis using d' m rm ev by (simp add: market_inv_def deadline_order_def)
    next
      case False
      then show ?thesis using d' m rm ev a n5 Some by (simp add: market_inv_def)
    qed
  qed
qed

fun check_rounds :: "'w scanner_env \<Rightarrow> nat \<Rightarrow> ('w scanner, unit) prog" where
  "check_rounds E 0 = skip"
| "check_rounds E (Suc n) = andthen (check_lifecycle E) (check_rounds E n)"

text \<open>
  C11. Lifecycle callbacks. For a market that was just discovered, any number of lifecycle checks at
  any clock readings (a clock that is set back included) log its deadlines in the documented order,
  each at most once: what is logged is a prefix of stop entries, cancel quotes, close positions, force
  close, removal, and the market is gone exactly when the whole list has been logged.
\<close>

theorem deadlines_in_order:
  assumes "distinct (map fst (markets s))" and "map_of (markets s) cid = Some (new_market cid yes no res)"
    and "events_of cid (fired s) = []"
  shows "\<exists>s' k. check_rounds E n s = (Inr (), s') \<and> k \<le> 5
    \<and> events_of cid (fired s') = take k [StopEntries, CancelQuotes, ClosePositions, ForceClose, Remove]
    \<and> (map_of (markets s') cid = None) = (k = 5)"
proof -
  have "market_inv cid s" using assms
    by (simp add: market_inv_def staged_iff new_market_def stage_def flags_of_def)
  then have "\<exists>s'. check_rounds E n s = (Inr (), s') \<and> market_inv cid s'"
  proof (induction n arbitrary: s)
    case (Suc n)
    obtain s1 where c: "check_lifecycle E s = (Inr (), s1)" by (rule check_lifecycle_run [of E s]) blast
    from Suc.IH [OF check_lifecycle_inv [OF Suc.prems c]] show ?case
      by (simp add: andthen_def bind_def c)
  qed (simp add: skip_def ret_def)
  then obtain s' where r: "check_rounds E n s = (Inr (), s')" and i: "market_inv cid s'" by blast
  show ?thesis
  proof (cases "map_of (markets s') cid")
    case None
    then show ?thesis using r i
      by (intro exI [of _ s'] exI [of _ 5]) (simp add: market_inv_def deadline_order_def)
  next
    case (Some m)
    then show ?thesis using r i
      by (intro exI [of _ s'] exI [of _ "stage m"]) (simp add: market_inv_def deadline_order_def)
  qed
qed

definition sample_scanner :: "unit scanner" where
  "sample_scanner = \<lparr>sc_world = (), markets = [(''c1'', new_market ''c1'' ''1'' ''2'' 100000000)], fired = [],
     last_rebate_check_epoch_s = 0, rebate_windows = [], sc_running = True\<rparr>"

definition sample_env :: "i64 \<Rightarrow> unit scanner_env" where
  "sample_env t = \<lparr>sc_http = (\<lambda>_ w. ([], w)), sc_now_us = (\<lambda>w. (t, w)), sc_now_s = (\<lambda>w. (word_of_int (sint t sdiv 1000000), w)),
     sc_callback = (\<lambda>_ _ w. w)\<rparr>"

theorem deadlines_in_order_witness:
  "\<exists>s' k. check_rounds (sample_env 80000000) 3 sample_scanner = (Inr (), s') \<and> k \<le> 5
     \<and> events_of ''c1'' (fired s') = take k [StopEntries, CancelQuotes, ClosePositions, ForceClose, Remove]"
proof -
  have "distinct (map fst (markets sample_scanner))"
    "map_of (markets sample_scanner) ''c1'' = Some (new_market ''c1'' ''1'' ''2'' 100000000)"
    "events_of ''c1'' (fired sample_scanner) = []"
    by (simp_all add: sample_scanner_def)
  from deadlines_in_order [OF this, of "sample_env 80000000" 3] show ?thesis by blast
qed

text \<open>The remaining time, in microseconds, at which a deadline is due.\<close>

primrec limit_of :: "cb \<Rightarrow> int" where
  "limit_of StopEntries = 120000000"
| "limit_of CancelQuotes = 45000000"
| "limit_of ClosePositions = 30000000"
| "limit_of ForceClose = 10000000"
| "limit_of Remove = - 60000000"

lemma passed_all:
  assumes "staged m" and "due_by m now (limit_of c)"
  shows "c \<in> set (take (stage m) deadline_order) \<or> c \<in> set (passed now m)"
proof -
  have "stage m = 0 \<and> flags_of m = [False, False, False, False, False]
    \<or> stage m = 1 \<and> flags_of m = [True, False, False, False, False]
    \<or> stage m = 2 \<and> flags_of m = [True, True, False, False, False]
    \<or> stage m = 3 \<and> flags_of m = [True, True, True, False, False]
    \<or> stage m = 4 \<and> flags_of m = [True, True, True, True, False]
    \<or> stage m = 5 \<and> flags_of m = [True, True, True, True, True]"
    using assms(1) unfolding staged_iff
    by (cases "warn_logged m"; cases "quotes_cancelled m"; cases "positions_closed m"; cases "force_closed m";
      cases "redemption_checked m") (simp_all add: stage_def flags_of_def)
  then show ?thesis using assms(2)
    by (cases c) (auto simp: passed_def pass_def deadline_order_def flags_of_def numeral_eq_Suc)
qed

text \<open>
  C16. No deadline is missed. After one check, every deadline of a known market that is due at the clock
  reading of the check has been logged, and its callback called in this check or before.
\<close>

theorem deadlines_are_met:
  assumes "market_inv cid s" and "map_of (markets s) cid = Some m" and "sc_now_us E (sc_world s) = (now, w)"
    and "due_by m now (limit_of c)" and "check_lifecycle E s = (Inr u, s')"
  shows "c \<in> set (events_of cid (fired s'))
    \<and> sc_world s' = fire_callbacks E (pending now (markets s)) w
    \<and> (c \<in> set (events_of cid (fired s)) \<or> (cid, c) \<in> set (pending now (markets s)))"
proof -
  have s': "s' = s\<lparr>markets := erase_removed (pending now (markets s))
        (map (\<lambda>(cid, m). (cid, advance now m)) (markets s)),
        fired := fired s @ pending now (markets s), sc_world := fire_callbacks E (pending now (markets s)) w\<rparr>"
    using check_lifecycle_eq [OF assms(3)] assms(5) by simp
  have d: "distinct (map fst (markets s))" and st: "staged m" and
    e: "events_of cid (fired s) = take (stage m) deadline_order"
    using assms(1,2) by (simp_all add: market_inv_def)
  have p: "events_of cid (pending now (markets s)) = passed now m"
    using events_of_pending [OF d, of cid now] assms(2) by simp
  from passed_all [OF st assms(4)] have c: "c \<in> set (events_of cid (fired s)) \<or> c \<in> set (events_of cid (pending now (markets s)))"
    by (simp add: e p)
  then show ?thesis by (simp add: s') (simp add: set_events_of)
qed

theorem deadlines_are_met_witness:
  "\<exists>s'. check_lifecycle (sample_env 80000000) sample_scanner = (Inr (), s')
     \<and> ClosePositions \<in> set (events_of ''c1'' (fired s'))"
proof -
  obtain s' where r: "check_lifecycle (sample_env 80000000) sample_scanner = (Inr (), s')"
    by (rule check_lifecycle_run [of "sample_env 80000000" sample_scanner]) blast
  have 1: "market_inv ''c1'' sample_scanner"
    by (simp add: market_inv_def sample_scanner_def staged_iff new_market_def stage_def flags_of_def)
  have 2: "map_of (markets sample_scanner) ''c1'' = Some (new_market ''c1'' ''1'' ''2'' 100000000)"
    by (simp add: sample_scanner_def)
  have 3: "sc_now_us (sample_env 80000000) (sc_world sample_scanner) = (80000000, ())"
    by (simp add: sample_env_def)
  have 4: "due_by (new_market ''c1'' ''1'' ''2'' 100000000) 80000000 (limit_of ClosePositions)"
    by (simp add: due_by_def new_market_def)
  from deadlines_are_met [OF 1 2 3 4 r] r show ?thesis by blast
qed

subsection \<open>What the map of markets holds\<close>

definition market_ok :: "string \<Rightarrow> active_market \<Rightarrow> bool" where
  "market_ok cid m \<longleftrightarrow> cid \<noteq> [] \<and> condition_id m = cid \<and> token_id_yes m \<noteq> [] \<and> token_id_no m \<noteq> []
     \<and> resolution_us m \<noteq> 0 \<and> is_above m \<and> strike_price m = Fin 0"

definition scanner_inv :: "'w scanner \<Rightarrow> bool" where
  "scanner_inv s \<longleftrightarrow> distinct (map fst (markets s)) \<and> (\<forall>(cid, m) \<in> set (markets s). market_ok cid m)"

lemma scanner_inv_world [simp]: "scanner_inv (s\<lparr>sc_world := w\<rparr>) = scanner_inv s"
  by (simp add: scanner_inv_def)

lemma keeps_sc_read [keep]: "keeps scanner_inv (sc_read f)"
  by (rule keepsI) (auto simp: sc_read_def split: prod.splits)

lemma incentives_same:
  "condition_id (incentives J resp m) = condition_id m \<and> token_id_yes (incentives J resp m) = token_id_yes m
   \<and> token_id_no (incentives J resp m) = token_id_no m \<and> resolution_us (incentives J resp m) = resolution_us m
   \<and> is_above (incentives J resp m) = is_above m \<and> strike_price (incentives J resp m) = strike_price m"
  by (auto simp: incentives_def Let_def split: sum.splits option.splits)

lemma market_filter_cid: "market_filter J m = Inr (Some cid) \<Longrightarrow> cid \<noteq> []"
  by (auto simp: market_filter_def elim!: sbind_InrE split: if_splits)

lemma fetch_market_info_run:
  "fetch_market_info J E m s = (Inr m', s') \<Longrightarrow>
     (\<exists>w. s' = s\<lparr>sc_world := w\<rparr>) \<and> (\<forall>cid. market_ok cid m \<longrightarrow> market_ok cid m')"
  by (auto simp: fetch_market_info_def sc_read_def bind_def ret_def market_ok_def incentives_same split: prod.splits)

lemma keeps_bind_run:
  "keeps I m \<Longrightarrow> (\<And>s x s'. m s = (Inr x, s') \<Longrightarrow> keeps I (f x)) \<Longrightarrow> keeps I (bind m f)"
proof (rule keepsI)
  fix s y s'
  assume k: "keeps I m" "\<And>s x s'. m s = (Inr x, s') \<Longrightarrow> keeps I (f x)" and s: "I s"
    and r: "bind m f s = (Inr y, s')"
  from r obtain x t where 1: "m s = (Inr x, t)" "f x t = (Inr y, s')" by (rule bind_InrE)
  from keepsD [OF k(2) [OF 1(1)] keepsD [OF k(1) s 1(1)] 1(2)] show "I s'" .
qed

lemma keeps_case_sum: "(\<And>e. r = Inl e \<Longrightarrow> keeps I (g e)) \<Longrightarrow> (\<And>x. r = Inr x \<Longrightarrow> keeps I (f x)) \<Longrightarrow>
    keeps I (case r of Inl e \<Rightarrow> g e | Inr x \<Rightarrow> f x)"
  by (cases r) simp_all

lemma keeps_case_option: "(r = None \<Longrightarrow> keeps I m) \<Longrightarrow> (\<And>x. r = Some x \<Longrightarrow> keeps I (f x)) \<Longrightarrow>
    keeps I (case r of None \<Rightarrow> m | Some x \<Rightarrow> f x)"
  by (cases r) simp_all

lemma keeps_case_prod: "(\<And>x y. p = (x, y) \<Longrightarrow> keeps I (f x y)) \<Longrightarrow> keeps I (case p of (x, y) \<Rightarrow> f x y)"
  by (cases p) simp

lemma keeps_insert:
  "market_ok cid am \<Longrightarrow>
     keeps scanner_inv (modify (\<lambda>s. if cid \<in> set (map fst (markets s)) then s else s\<lparr>markets := markets s @ [(cid, am)]\<rparr>))"
  by (rule keeps_modify) (auto simp: scanner_inv_def)

lemma lift_sum_run: "lift_sum r s = (Inr x, s') \<Longrightarrow> r = Inr x"
  by (simp add: lift_sum_def)

lemma keeps_scan_market [keep]: "keeps scanner_inv (scan_market J E m)"
  unfolding scan_market_def Let_def
proof (intro keeps_bind_run keeps_case_option keeps_case_prod keeps_if keeps_basic keeps_sc_read)
  show "keeps scanner_inv (fetch_market_info J E (new_market cid yes no r))" for cid yes no r
    unfolding fetch_market_info_def by (intro keep)
next
  fix s s' s3 s3' :: "'a scanner" and x cid yes no e am p
  assume "lift_sum (market_filter J m) s = (Inr x, s')" "x = Some cid" "p = (yes, no)" "\<not> (yes = [] \<or> no = [])"
    "scanner_iso8601_to_us e \<noteq> 0"
    "fetch_market_info J E (new_market cid yes no (scanner_iso8601_to_us e)) s3 = (Inr am, s3')"
  then have "market_filter J m = Inr (Some cid)" by (auto dest: lift_sum_run)
  then have ne: "cid \<noteq> []" by (rule market_filter_cid)
  with \<open>\<not> (yes = [] \<or> no = [])\<close> \<open>scanner_iso8601_to_us e \<noteq> 0\<close>
  have "market_ok cid (new_market cid yes no (scanner_iso8601_to_us e))"
    by (simp add: market_ok_def new_market_def)
  with fetch_market_info_run [OF \<open>fetch_market_info J E (new_market cid yes no (scanner_iso8601_to_us e)) s3 = (Inr am, s3')\<close>]
  have "market_ok cid am" by blast
  then show "keeps scanner_inv (modify (\<lambda>s. if cid \<in> set (map fst (markets s)) then s else s\<lparr>markets := markets s @ [(cid, am)]\<rparr>))"
    by (rule keeps_insert)
qed

lemma keeps_scan_markets [keep]: "keeps scanner_inv (scan_markets J E ms)"
  by (induction ms) (auto intro: keep keeps_basic)

lemma keeps_scan_page [keep]: "keeps scanner_inv (scan_page J E c)"
  unfolding scan_page_def by (intro keep keeps_basic keeps_case_sum)

lemma keeps_scan_pages [keep]: "keeps scanner_inv (scan_pages J E n c)"
  by (induction n arbitrary: c) (auto intro!: keep keeps_basic)

lemma market_ok_advance [simp]: "market_ok cid (advance now m) = market_ok cid m"
  by (simp add: market_ok_def advance_def)

lemma keeps_check_lifecycle [keep]: "keeps scanner_inv (check_lifecycle E)"
  unfolding check_lifecycle_def
  by (intro keep keeps_modify)
    (auto simp: scanner_inv_def Let_def erase_removed_filter distinct_map_filter comp_def case_prod_beta)

lemma keeps_check_midnight_rebate [keep]: "keeps scanner_inv (check_midnight_rebate E)"
  unfolding check_midnight_rebate_def today_midnight_epoch_s_def
  by (intro keep keeps_basic keeps_modify) (simp add: scanner_inv_def)

text \<open>
  What the scanner hands to the trading threads. A turn of the scanner's loop, whatever
  the exchange answers, keeps the map sound: keys are unique and are the market's own condition id,
  both token ids and the resolution time are present, and every market has strike price 0 and
  direction \<open>above\<close>, the only values the scanner ever stores.
\<close>

theorem scanner_keeps_markets_sound:
  assumes "loop_turn J E n s = (Inr u, s')" and "scanner_inv s"
  shows "scanner_inv s'"
proof -
  have "keeps scanner_inv (loop_turn J E n)"
    unfolding loop_turn_def scan_once_def by (intro keep keeps_basic)
  from keepsD [OF this assms(2,1)] show ?thesis .
qed

theorem scanner_keeps_markets_sound_witness:
  "\<exists>s'. loop_turn (table_json []) (sample_env 0) 1 sample_scanner = (Inr (), s') \<and> scanner_inv s'"
proof -
  have "loop_turn (table_json []) (sample_env 0) 1 sample_scanner =
      (Inr (), snd (loop_turn (table_json []) (sample_env 0) 1 sample_scanner))"
    by (simp add: loop_turn_def scan_once_def scan_page_def sample_env_def sample_scanner_def prog_defs sc_read_def
        check_lifecycle_def check_midnight_rebate_def today_midnight_epoch_s_def)
  then obtain s' where r: "loop_turn (table_json []) (sample_env 0) 1 sample_scanner = (Inr (), s')" by blast
  have "scanner_inv sample_scanner"
    by (simp add: scanner_inv_def sample_scanner_def market_ok_def new_market_def)
  from scanner_keeps_markets_sound [OF r this] r show ?thesis by blast
qed

subsection \<open>Pagination and the rebate window\<close>

lemma scan_pages_more:
  "scan_pages J E n c s = (Inr True, s') \<Longrightarrow> scan_pages J E (n + k) c s = (Inr True, s')"
proof (induction n arbitrary: c s)
  case (Suc n)
  from Suc.prems obtain c' s1 where p: "scan_page J E c s = (Inr c', s1)"
    "(if c' = [] then ret True else scan_pages J E n c') s1 = (Inr True, s')"
    by (auto elim: bind_InrE)
  then show ?case using Suc.IH by (auto simp: bind_def split: if_splits)
qed (simp add: ret_def)



definition rebate_inv :: "'w scanner \<Rightarrow> bool" where
  "rebate_inv s \<longleftrightarrow> sorted_wrt (\<lambda>a b. sint a < sint b) (rebate_windows s)
     \<and> (\<forall>t \<in> set (rebate_windows s). sint t \<le> sint (last_rebate_check_epoch_s s))"

fun rebate_rounds :: "'w scanner_env \<Rightarrow> nat \<Rightarrow> ('w scanner, unit) prog" where
  "rebate_rounds E 0 = skip"
| "rebate_rounds E (Suc n) = andthen (check_midnight_rebate E) (rebate_rounds E n)"

lemma keeps_rebate: "keeps rebate_inv (check_midnight_rebate E)"
  by (rule keepsI) (fastforce simp: check_midnight_rebate_def today_midnight_epoch_s_def sc_read_def prog_defs
      rebate_inv_def sorted_wrt_append word_sless_alt split: prod.splits if_splits)

text \<open>
  The daily reconciliation. Over any number of checks at any clock readings, the rebate
  window is opened for strictly later midnights each time: never twice for one day.
\<close>

theorem rebate_once_per_day:
  assumes "rebate_windows s = []" and "rebate_rounds E n s = (Inr u, s')"
  shows "sorted_wrt (\<lambda>a b. sint a < sint b) (rebate_windows s') \<and> distinct (rebate_windows s')"
proof -
  have "keeps rebate_inv (rebate_rounds E n)"
    by (induction n) (auto intro: keeps_andthen keeps_rebate)
  moreover have "rebate_inv s" using assms(1) by (simp add: rebate_inv_def)
  ultimately have "rebate_inv s'" using assms(2) by (rule keepsD)
  then have s: "sorted_wrt (\<lambda>a b. sint a < sint b) (rebate_windows s')" by (simp add: rebate_inv_def)
  moreover have "distinct xs" if "sorted_wrt (\<lambda>a b. sint a < sint b) xs" for xs :: "i64 list"
    using that by (induction xs) auto
  ultimately show ?thesis by blast
qed

theorem rebate_once_per_day_witness:
  "\<exists>s'. rebate_rounds (sample_env 600000000) 2 sample_scanner = (Inr (), s') \<and> distinct (rebate_windows s')"
proof -
  obtain s' where r: "rebate_rounds (sample_env 600000000) 2 sample_scanner = (Inr (), s')"
    by (simp add: check_midnight_rebate_def today_midnight_epoch_s_def sc_read_def prog_defs sample_env_def
        numeral_2_eq_2 sample_scanner_def)
  have "rebate_windows sample_scanner = []" by (simp add: sample_scanner_def)
  from rebate_once_per_day [OF this r] r show ?thesis by blast
qed

end
