(* ===== verification/Regime.thy ===== *)
theory Regime
  imports Window_Buffer Shared_State
begin

text \<open>
  Rolling volatility and market regimes, \<open>src/signal/regime.hpp\<close> and \<open>regime.cpp\<close>: a circular buffer
  of log returns with running sums, expired by time, and the thresholds that name the regime. The C
  math functions that IEEE arithmetic does not determine are fields of a record \<open>libm\<close>.
\<close>

record libm =
  c_log :: "f64 \<Rightarrow> f64"
  c_exp :: "f64 \<Rightarrow> f64"
  c_lgamma :: "f64 \<Rightarrow> f64"
  c_sqrt :: "f64 \<Rightarrow> f64"

record vol_entry =
  ve_ts :: i64
  ve_return :: f64

record vol_state =
  vol_buf :: "vol_entry list"
  vol_write :: nat
  vol_read :: nat
  vol_count :: nat
  last_price :: f64
  running_sum :: f64
  running_sum2 :: f64

definition VOL_N :: nat where
  "VOL_N = 2048"

definition new_vol_state :: vol_state where
  "new_vol_state = \<lparr>vol_buf = replicate VOL_N \<lparr>ve_ts = 0, ve_return = Fin 0\<rparr>, vol_write = 0, vol_read = 0,
     vol_count = 0, last_price = Fin 0, running_sum = Fin 0, running_sum2 = Fin 0\<rparr>"

definition vol_drop :: "vol_state \<Rightarrow> vol_state" where
  "vol_drop s =
     (let r = ve_return (vol_buf s ! vol_read s)
      in s\<lparr>running_sum := fsub (running_sum s) r, running_sum2 := fsub (running_sum2 s) (fmul r r),
           vol_read := (vol_read s + 1) mod VOL_N, vol_count := vol_count s - 1\<rparr>)"

definition vol_add :: "vol_entry \<Rightarrow> vol_state \<Rightarrow> vol_state" where
  "vol_add e s =
     (let s1 = (if vol_count s = VOL_N then vol_drop s else s); r = ve_return e
      in s1\<lparr>vol_buf := (vol_buf s1)[vol_write s1 := e], vol_write := (vol_write s1 + 1) mod VOL_N,
            running_sum := fadd (running_sum s1) r, running_sum2 := fadd (running_sum2 s1) (fmul r r),
            vol_count := vol_count s1 + 1\<rparr>)"

fun vol_expire_n :: "nat \<Rightarrow> i64 \<Rightarrow> vol_state \<Rightarrow> vol_state" where
  "vol_expire_n 0 cutoff s = s"
| "vol_expire_n (Suc n) cutoff s =
     (if ve_ts (vol_buf s ! vol_read s) <s cutoff then vol_expire_n n cutoff (vol_drop s) else s)"

definition vol_expire :: "i64 \<Rightarrow> vol_state \<Rightarrow> vol_state" where
  "vol_expire cutoff s = vol_expire_n (vol_count s) cutoff s"

definition VOL_WINDOW_US :: i64 where
  "VOL_WINDOW_US = word_of_int (cast_int i64_min i64_max (fmul REALIZED_VOL_WINDOW_S (lit 1000000)))"

definition vol_update :: "libm \<Rightarrow> i64 \<Rightarrow> f64 \<Rightarrow> vol_state \<Rightarrow> vol_state" where
  "vol_update M timestamp_us price s =
     (if fle price (Fin 0) then s
      else let s1 = (if flt (Fin 0) (last_price s)
                     then vol_add \<lparr>ve_ts = timestamp_us, ve_return = c_log M (fdiv price (last_price s))\<rparr> s else s)
           in vol_expire (timestamp_us - VOL_WINDOW_US) (s1\<lparr>last_price := price\<rparr>))"

definition realized_vol :: "libm \<Rightarrow> vol_state \<Rightarrow> f64" where
  "realized_vol M s =
     (if vol_count s < 2 then Fin 0
      else let n = f64_of_int (int (vol_count s)); mean = fdiv (running_sum s) n;
               variance = fsub (fdiv (running_sum2 s) n) (fmul mean mean)
           in if fle variance (Fin 0) then Fin 0 else c_sqrt M variance)"

definition classify_regime :: "f64 \<Rightarrow> market_regime" where
  "classify_regime vol =
     (if flt vol VOL_SIDEWAYS_THRESHOLD then SIDEWAYS
      else if flt vol VOL_TRENDING_THRESHOLD then TRENDING
      else if flt vol VOL_VOLATILE_THRESHOLD then VOLATILE
      else SPIKE)"

subsection \<open>The buffer as a sliding window\<close>

definition vol_samples :: "vol_state \<Rightarrow> vol_entry list" where
  "vol_samples s = window VOL_N (vol_buf s) (vol_read s) (vol_count s)"

definition vol_inv :: "vol_state \<Rightarrow> bool" where
  "vol_inv s \<longleftrightarrow> length (vol_buf s) = VOL_N \<and> vol_read s < VOL_N \<and> vol_count s \<le> VOL_N
     \<and> vol_write s = (vol_read s + vol_count s) mod VOL_N"

lemma VOL_N_pos [simp]: "0 < VOL_N" by (simp add: VOL_N_def)

lemma vol_drop_samples:
  assumes "vol_inv s" and "0 < vol_count s"
  shows "vol_inv (vol_drop s)" and "vol_samples (vol_drop s) = tl (vol_samples s)"
    and "vol_samples s = vol_buf s ! vol_read s # tl (vol_samples s)"
proof -
  obtain n where n: "vol_count s = Suc n" using assms(2) by (cases "vol_count s") auto
  show "vol_inv (vol_drop s)" using assms(1) n by (auto simp: vol_inv_def vol_drop_def Let_def mod_simps)
  show "vol_samples (vol_drop s) = tl (vol_samples s)"
    by (simp add: vol_samples_def vol_drop_def n window_Suc Let_def)
  show "vol_samples s = vol_buf s ! vol_read s # tl (vol_samples s)"
    using assms(1) by (simp add: vol_samples_def n window_Suc vol_inv_def)
qed

lemma vol_add_samples:
  assumes "vol_inv s"
  shows "vol_inv (vol_add e s)"
    and "vol_samples (vol_add e s) = (if length (vol_samples s) < VOL_N then vol_samples s else tl (vol_samples s)) @ [e]"
proof -
  have *: "vol_inv (vol_add e s) \<and> vol_samples (vol_add e s) = vol_samples t @ [e]"
    if t: "t = (if vol_count s = VOL_N then vol_drop s else s)" and i: "vol_inv t" "vol_count t < VOL_N" for t
  proof -
    have "vol_samples (vol_add e s) = window VOL_N ((vol_buf t)[vol_write t := e]) (vol_read t) (Suc (vol_count t))"
      by (simp add: vol_samples_def vol_add_def t Let_def)
    also have "\<dots> = vol_samples t @ [e]"
      using i window_append [of "vol_buf t" VOL_N "vol_count t" "vol_read t" e] by (simp add: vol_samples_def vol_inv_def)
    finally show ?thesis using i by (auto simp: vol_add_def t [symmetric] vol_inv_def Let_def mod_Suc_eq)
  qed
  show "vol_inv (vol_add e s)"
    and "vol_samples (vol_add e s) = (if length (vol_samples s) < VOL_N then vol_samples s else tl (vol_samples s)) @ [e]"
  proof -
    let ?t = "if vol_count s = VOL_N then vol_drop s else s"
    have len: "length (vol_samples s) = vol_count s" by (simp add: vol_samples_def)
    have "vol_inv ?t \<and> vol_count ?t < VOL_N
        \<and> vol_samples ?t = (if length (vol_samples s) < VOL_N then vol_samples s else tl (vol_samples s))"
    proof (cases "vol_count s = VOL_N")
      case True
      then have "vol_count (vol_drop s) = VOL_N - 1" by (simp add: vol_drop_def Let_def)
      then show ?thesis using True len vol_drop_samples [OF assms] by simp
    next
      case False
      then show ?thesis using assms len by (simp add: vol_inv_def)
    qed
    then show "vol_inv (vol_add e s)"
      and "vol_samples (vol_add e s) = (if length (vol_samples s) < VOL_N then vol_samples s else tl (vol_samples s)) @ [e]"
      using * [OF refl] by simp_all
  qed
qed

lemma vol_expire_samples:
  "vol_inv s \<Longrightarrow> n = vol_count s \<Longrightarrow> vol_inv (vol_expire_n n c s)
     \<and> vol_samples (vol_expire_n n c s) = dropWhile (\<lambda>e. ve_ts e <s c) (vol_samples s)"
proof (induction n arbitrary: s)
  case (Suc n)
  then have p: "0 < vol_count s" by simp
  note d = vol_drop_samples [OF Suc.prems(1) p]
  have "n = vol_count (vol_drop s)" using Suc.prems by (simp add: vol_drop_def Let_def)
  note ih = Suc.IH [OF d(1) this]
  have "vol_samples s = vol_buf s ! vol_read s # tl (vol_samples s)" by (rule d(3))
  then have "dropWhile (\<lambda>e. ve_ts e <s c) (vol_samples s) =
      (if ve_ts (vol_buf s ! vol_read s) <s c then dropWhile (\<lambda>e. ve_ts e <s c) (tl (vol_samples s)) else vol_samples s)"
    by (metis dropWhile.simps(2))
  then show ?case using ih d(2) Suc.prems(1) by simp
qed (simp add: vol_samples_def)

interpretation return_window: sliding_window VOL_N ve_ts vol_inv vol_samples vol_add vol_expire
  by unfold_locales (simp_all add: vol_add_samples vol_expire_samples vol_expire_def)

subsection \<open>What the window holds\<close>

text \<open>The log returns of a run of prices after a first one, with the time of each.\<close>

fun log_returns :: "libm \<Rightarrow> f64 \<Rightarrow> (i64 \<times> f64) list \<Rightarrow> vol_entry list" where
  "log_returns M p0 [] = []"
| "log_returns M p0 ((t, p) # ts) = \<lparr>ve_ts = t, ve_return = c_log M (fdiv p p0)\<rparr> # log_returns M p ts"

definition vol_feed :: "libm \<Rightarrow> (i64 \<times> f64) list \<Rightarrow> vol_state \<Rightarrow> vol_state" where
  "vol_feed M = fold (\<lambda>(t, p). vol_update M t p)"

lemma vol_drop_last_price: "vol_drop (s\<lparr>last_price := p\<rparr>) = (vol_drop s)\<lparr>last_price := p\<rparr>"
  by (simp add: vol_drop_def Let_def)

lemma vol_add_last_price: "vol_add e (s\<lparr>last_price := p\<rparr>) = (vol_add e s)\<lparr>last_price := p\<rparr>"
  by (simp add: vol_add_def Let_def vol_drop_last_price)

lemma vol_expire_n_last_price: "vol_expire_n n c (s\<lparr>last_price := p\<rparr>) = (vol_expire_n n c s)\<lparr>last_price := p\<rparr>"
  by (induction n arbitrary: s) (simp_all add: vol_drop_last_price)

lemma vol_expire_last_price: "vol_expire c (s\<lparr>last_price := p\<rparr>) = (vol_expire c s)\<lparr>last_price := p\<rparr>"
  by (simp add: vol_expire_def vol_expire_n_last_price)

lemma vol_view_last_price [simp]:
  "vol_inv (s\<lparr>last_price := p\<rparr>) = vol_inv s" "vol_samples (s\<lparr>last_price := p\<rparr>) = vol_samples s"
  by (simp_all add: vol_inv_def vol_samples_def)

lemma vol_feed_run:
  assumes "\<forall>(t, p) \<in> set ticks. flt (Fin 0) p" and "flt (Fin 0) (last_price s)"
  shows "vol_feed M ticks s =
    (fold (\<lambda>(c, e). vol_expire c \<circ> vol_add e)
       (map (\<lambda>e. (ve_ts e - VOL_WINDOW_US, e)) (log_returns M (last_price s) ticks)) s)
      \<lparr>last_price := last (last_price s # map snd ticks)\<rparr>"
  using assms
proof (induction ticks arbitrary: s)
  case (Cons x ticks)
  obtain t p where x: "x = (t, p)" by (cases x) blast
  let ?e = "\<lparr>ve_ts = t, ve_return = c_log M (fdiv p (last_price s))\<rparr>"
  let ?s = "vol_expire (t - VOL_WINDOW_US) (vol_add ?e s)"
  have p: "flt (Fin 0) p" using Cons.prems by (simp add: x)
  then have u: "vol_update M t p s = ?s\<lparr>last_price := p\<rparr>"
    using Cons.prems(2) fle_not_flt [of p "Fin 0"] by (auto simp: vol_update_def vol_expire_last_price)
  have com: "fold (\<lambda>(c, e). vol_expire c \<circ> vol_add e) es (r\<lparr>last_price := q\<rparr>)
      = (fold (\<lambda>(c, e). vol_expire c \<circ> vol_add e) es r)\<lparr>last_price := q\<rparr>" for es r q
    by (induction es arbitrary: r) (auto simp: vol_add_last_price vol_expire_last_price)
  show ?case using Cons.IH [of "?s\<lparr>last_price := p\<rparr>"] Cons.prems p u
    by (simp add: x vol_feed_def com [unfolded comp_def])
qed (simp add: vol_feed_def)

lemma VOL_WINDOW_US_eq: "VOL_WINDOW_US = 60000000"
proof -
  have "fl 60000000 = Fin (60000000 :: rat)" "fl 1000000 = Fin (1000000 :: rat)" "fl 60 = Fin (60 :: rat)"
    by (simp_all add: fl_numeral)
  then show ?thesis
    by (simp add: VOL_WINDOW_US_def REALIZED_VOL_WINDOW_S_def lit_def i64_min_def i64_max_def saturate_def)
qed

lemma stamps_log_returns: "map ve_ts (log_returns M p ticks) = map fst ticks"
  by (induction M p ticks rule: log_returns.induct) simp_all

text \<open>
  C33. What the volatility is computed from. Fed with positive prices at nondecreasing times, the
  circular buffer holds exactly the log returns of the last 60 seconds, in order, of the last 2048:
  overwriting the oldest and expiring from the front never lose a sample of the window nor keep one
  outside it.
\<close>

theorem vol_window_is_last_minute:
  assumes "\<forall>(t, p) \<in> set ((t0, p0) # ticks). 0 \<le> sint t \<and> flt (Fin 0) p"
    and "sorted_wrt (\<lambda>a b. sint a \<le> sint b) (map fst ((t0, p0) # ticks))"
  shows "vol_samples (vol_feed M ((t0, p0) # ticks) new_vol_state)
    = filter (\<lambda>e. sint (last (t0 # map fst ticks)) - 60000000 \<le> sint (ve_ts e)) (last_n 2048 (log_returns M p0 ticks))"
proof -
  have W: "sint (t - VOL_WINDOW_US) = sint t - 60000000" if "0 \<le> sint t" for t
    using that i64_range_sint [of t] sint_sub_i64 [of t VOL_WINDOW_US]
    by (simp add: VOL_WINDOW_US_eq i64_range_def i64_min_def i64_max_def)
  let ?s = "new_vol_state\<lparr>last_price := p0\<rparr>"
  let ?R = "log_returns M p0 ticks"
  let ?es = "map (\<lambda>e. (ve_ts e - VOL_WINDOW_US, e)) ?R"
  have p0: "flt (Fin 0) p0" and pos: "\<forall>(t, p) \<in> set ticks. flt (Fin 0) p" using assms(1) by auto
  have "vol_update M t0 p0 new_vol_state = ?s"
    using fle_not_flt [of p0 "Fin 0"] p0
    by (auto simp: vol_update_def vol_expire_def new_vol_state_def)
  then have "vol_feed M ((t0, p0) # ticks) new_vol_state = vol_feed M ticks ?s" by (simp add: vol_feed_def)
  moreover have "last_price ?s = p0" by simp
  ultimately have f: "vol_samples (vol_feed M ((t0, p0) # ticks) new_vol_state) =
      vol_samples (fold (\<lambda>(c, e). vol_expire c \<circ> vol_add e) ?es ?s)"
    using vol_feed_run [OF pos, of ?s M] p0 by simp
  have v: "vol_inv ?s" by (simp add: vol_inv_def new_vol_state_def)
  have "vol_samples ?s = []" by (simp add: vol_samples_def new_vol_state_def)
  then have e: "vol_samples ?s = filter (\<lambda>x. t0 - VOL_WINDOW_US \<le>s ve_ts x) (last_n VOL_N [])"
    by (simp add: last_n_def)
  have st: "map ve_ts ?R = map fst ticks" by (rule stamps_log_returns)
  have s2: "sorted_wrt (\<lambda>a b. sint a \<le> sint b) (t0 # map ve_ts ?R)" using assms(2) by (simp add: st)
  have s1: "sorted_wrt (before ve_ts) ([] @ map snd ?es)"
    using s2 by (auto simp: before_def [abs_def] comp_def sorted_wrt_map)
  have nn: "\<forall>t \<in> set (t0 # map ve_ts ?R). 0 \<le> sint t" using assms(1) by (auto simp: st)
  have "sorted_wrt (\<lambda>a b. sint a \<le> sint b) (map (\<lambda>t. t - VOL_WINDOW_US) (t0 # map ve_ts ?R))"
    unfolding sorted_wrt_map by (rule sorted_wrt_mono_rel [OF _ s2]) (use nn in \<open>auto simp: W\<close>)
  then have s3: "sorted_wrt (\<lambda>a b. sint a \<le> sint b) ((t0 - VOL_WINDOW_US) # map fst ?es)"
    by (simp add: comp_def)
  have lst: "last ((t0 - VOL_WINDOW_US) # map fst ?es) = last (t0 # map fst ticks) - VOL_WINDOW_US"
  proof -
    have "(t0 - VOL_WINDOW_US) # map fst ?es = map (\<lambda>t. t - VOL_WINDOW_US) (t0 # map fst ticks)"
      by (simp add: st [symmetric] comp_def)
    moreover have "last (map (\<lambda>t. t - VOL_WINDOW_US) (t0 # map fst ticks)) = last (t0 # map fst ticks) - VOL_WINDOW_US"
      by (rule last_map) simp
    ultimately show ?thesis by (simp only:)
  qed
  have "0 \<le> sint (last (t0 # map fst ticks))"
    by (rule bspec [OF nn [unfolded list.set st]]) (simp only: list.set [symmetric], rule last_in_set, simp)
  then show ?thesis using return_window.view_run [OF v e s1 s3, THEN conjunct2, unfolded lst]
    by (simp add: f word_sle_eq W VOL_N_def comp_def del: last.simps)
qed

theorem vol_window_is_last_minute_witness:
  "vol_samples (vol_feed \<lparr>c_log = (\<lambda>x. x), c_exp = (\<lambda>x. x), c_lgamma = (\<lambda>x. x), c_sqrt = (\<lambda>x. x)\<rparr>
      [(0, Fin 4), (70000000, Fin 2), (70000001, Fin 1)] new_vol_state)
    = [\<lparr>ve_ts = 70000000, ve_return = fdiv (Fin 2) (Fin 4)\<rparr>, \<lparr>ve_ts = 70000001, ve_return = fdiv (Fin 1) (Fin 2)\<rparr>]"
  by (subst vol_window_is_last_minute) (simp_all add: last_n_def)

end
