(* ===== verification/Likelihood.thy ===== *)
theory Likelihood
  imports Regime Text_Numbers
begin

text \<open>
  The likelihood models, \<open>src/signal/likelihood.hpp\<close> and \<open>likelihood.cpp\<close>: the incomplete beta
  function by continued fraction, the Student t distribution function, the likelihood of a side, and
  the calibration table read from a CSV text.
\<close>

subsection \<open>Student t\<close>

definition CF_MAX_ITER :: nat where "CF_MAX_ITER = 200"
definition CF_EPS :: f64 where "CF_EPS = lit (3 / 10000000)"
definition CF_FPMIN :: f64 where "CF_FPMIN = lit (1 / 10 ^ 30)"

definition off_zero :: "f64 \<Rightarrow> f64" where
  "off_zero d = (if flt (fabs d) CF_FPMIN then CF_FPMIN else d)"

text \<open>One round of the loop on \<open>(c, d, h)\<close>, with the last factor \<open>delta\<close>.\<close>

definition betacf_step :: "f64 \<Rightarrow> f64 \<Rightarrow> f64 \<Rightarrow> nat \<Rightarrow> f64 \<times> f64 \<times> f64 \<Rightarrow> f64 \<times> f64 \<times> f64 \<times> f64" where
  "betacf_step a b x m = (\<lambda>(c, d, h).
     let mf = f64_of_int (int m); m2 = fmul (Fin 2) mf;
         qab = fadd a b; qap = fadd a (Fin 1); qam = fsub a (Fin 1);
         aa = fdiv (fmul (fmul mf (fsub b mf)) x) (fmul (fadd qam m2) (fadd a m2));
         d = off_zero (fadd (Fin 1) (fmul aa d));
         c = off_zero (fadd (Fin 1) (fdiv aa c));
         d = fdiv (Fin 1) d;
         h = fmul h (fmul d c);
         aa = fdiv (fmul (fmul (fneg (fadd a mf)) (fadd qab mf)) x) (fmul (fadd a m2) (fadd qap m2));
         d = off_zero (fadd (Fin 1) (fmul aa d));
         c = off_zero (fadd (Fin 1) (fdiv aa c));
         d = fdiv (Fin 1) d;
         delta = fmul d c
     in (c, d, fmul h delta, delta))"

fun betacf_loop :: "f64 \<Rightarrow> f64 \<Rightarrow> f64 \<Rightarrow> nat \<Rightarrow> nat \<Rightarrow> f64 \<times> f64 \<times> f64 \<Rightarrow> f64" where
  "betacf_loop a b x m 0 (c, d, h) = h"
| "betacf_loop a b x m (Suc n) (c, d, h) =
     (case betacf_step a b x m (c, d, h) of (c, d, h, delta) \<Rightarrow>
        if flt (fabs (fsub delta (Fin 1))) CF_EPS then h else betacf_loop a b x (m + 1) n (c, d, h))"

definition betacf :: "f64 \<Rightarrow> f64 \<Rightarrow> f64 \<Rightarrow> f64" where
  "betacf a b x =
     (let qab = fadd a b; qap = fadd a (Fin 1);
          d = fdiv (Fin 1) (off_zero (fsub (Fin 1) (fdiv (fmul qab x) qap)))
      in betacf_loop a b x 1 CF_MAX_ITER (Fin 1, d, d))"

definition betai :: "libm \<Rightarrow> f64 \<Rightarrow> f64 \<Rightarrow> f64 \<Rightarrow> f64" where
  "betai M a b x =
     (if fle x (Fin 0) then Fin 0
      else if fle (Fin 1) x then Fin 1
      else let lbeta = fsub (fadd (c_lgamma M a) (c_lgamma M b)) (c_lgamma M (fadd a b));
               bt = c_exp M (fadd (fadd lbeta (fmul a (c_log M x))) (fmul b (c_log M (fsub (Fin 1) x))))
           in if flt x (fdiv (fadd a (Fin 1)) (fadd (fadd a b) (Fin 2)))
              then fdiv (fmul bt (betacf a b x)) a
              else fsub (Fin 1) (fdiv (fmul bt (betacf b a (fsub (Fin 1) x))) b))"

definition student_t_cdf :: "libm \<Rightarrow> f64 \<Rightarrow> f64 \<Rightarrow> f64" where
  "student_t_cdf M t nu =
     (let t2 = fmul t t; x = fdiv nu (fadd t2 nu);
          ibeta = betai M (fmul nu (lit (1 / 2))) (lit (1 / 2)) x
      in if fle (Fin 0) t then fsub (Fin 1) (fmul (lit (1 / 2)) ibeta) else fmul (lit (1 / 2)) ibeta)"

definition scaled_vol :: "libm \<Rightarrow> f64 \<Rightarrow> f64 \<Rightarrow> f64 \<Rightarrow> f64" where
  "scaled_vol M time_remaining_s vol ob_imbalance =
     fmul (fmul vol (fadd (Fin 1) (fmul OB_IMBALANCE_MULTIPLIER (fabs ob_imbalance))))
       (c_sqrt M (fdiv time_remaining_s TIME_REMAINING_MAX_S))"

definition compute_likelihood :: "libm \<Rightarrow> f64 \<Rightarrow> f64 \<Rightarrow> f64 \<Rightarrow> f64 \<Rightarrow> f64 \<Rightarrow> bool \<Rightarrow> f64" where
  "compute_likelihood M btc_price strike time_remaining_s vol ob_imbalance is_yes_side =
     (if fle strike (Fin 0) \<or> fle time_remaining_s (Fin 0) \<or> fle vol (Fin 0) then lit (1 / 2)
      else let sv = scaled_vol M time_remaining_s vol ob_imbalance
           in if fle sv (Fin 0) then lit (1 / 2)
              else let d = fdiv (fsub btc_price strike) (fmul strike sv);
                       p_above = student_t_cdf M d T_DEGREES_OF_FREEDOM
                   in if is_yes_side then p_above else fsub (Fin 1) p_above)"

subsection \<open>Calibration table\<close>

record lookup_table =
  lt_table :: "f64 list list"
  lt_loaded :: bool

definition new_lookup_table :: lookup_table where
  "new_lookup_table =
     \<lparr>lt_table = replicate STRIKE_DISTANCE_BINS (replicate TIME_REMAINING_BINS (Fin 0)), lt_loaded = False\<rparr>"

text \<open>\<open>std::getline\<close>: the text up to the delimiter and the rest; \<open>None\<close> at the end of the input.\<close>

definition getline :: "char \<Rightarrow> string \<Rightarrow> (string \<times> string) option" where
  "getline d s = (if s = [] then None
     else Some (takeWhile (\<lambda>c. c \<noteq> d) s, drop 1 (dropWhile (\<lambda>c. c \<noteq> d) s)))"

lemma getline_shorter: "getline d s = Some (l, r) \<Longrightarrow> length r < length s"
  using length_dropWhile_le [of "\<lambda>c. c \<noteq> d" s] by (cases s) (auto simp: getline_def split: if_splits)

definition cell :: "string \<Rightarrow> f64" where
  "cell token = (case stod token of Inl _ \<Rightarrow> lit (1 / 2) | Inr x \<Rightarrow> x)"

function load_row :: "string \<Rightarrow> nat \<Rightarrow> f64 list \<Rightarrow> f64 list" where
  "load_row s col r =
     (case getline (CHR '','') s of
        None \<Rightarrow> r
      | Some (token, rest) \<Rightarrow>
          if col < TIME_REMAINING_BINS then load_row rest (col + 1) (r[col := cell token]) else r)"
  by auto
termination by (relation "measure (\<lambda>(s, _, _). length s)") (auto dest: getline_shorter)

function load_rows :: "string \<Rightarrow> nat \<Rightarrow> f64 list list \<Rightarrow> nat \<times> f64 list list" where
  "load_rows s row t =
     (case getline (CHR 0x0A) s of
        None \<Rightarrow> (row, t)
      | Some (line, rest) \<Rightarrow>
          if row < STRIKE_DISTANCE_BINS then load_rows rest (row + 1) (t[row := load_row line 0 (t ! row)])
          else (row, t))"
  by auto
termination by (relation "measure (\<lambda>(s, _, _). length s)") (auto dest: getline_shorter)

text \<open>\<open>None\<close> is a file that cannot be opened.\<close>

definition load_csv :: "string option \<Rightarrow> lookup_table \<Rightarrow> bool \<times> lookup_table" where
  "load_csv file T =
     (case file of
        None \<Rightarrow> (False, T)
      | Some text \<Rightarrow>
          (case load_rows text 0 (lt_table T) of (row, t) \<Rightarrow>
             if row \<noteq> STRIKE_DISTANCE_BINS then (False, T\<lparr>lt_table := t\<rparr>)
             else (True, \<lparr>lt_table = t, lt_loaded = True\<rparr>)))"

definition i32_min :: int where "i32_min = - (2 ^ 31)"
definition i32_max :: int where "i32_max = 2 ^ 31 - 1"

text \<open>The two indices, with \<open>std::clamp\<close> on \<open>int\<close> and conversions that saturate.\<close>

definition lookup_row :: "f64 \<Rightarrow> f64 \<Rightarrow> nat" where
  "lookup_row btc_price strike =
     (let distance_bps = cast_int i32_min i32_max (fround (fmul (fdiv (fsub btc_price strike) strike) (lit 10000)))
      in nat (saturate 0 (int STRIKE_DISTANCE_BINS - 1) (distance_bps + 100)))"

definition lookup_col :: "f64 \<Rightarrow> nat" where
  "lookup_col time_remaining_s =
     nat (saturate 0 (int TIME_REMAINING_BINS - 1) (cast_int i32_min i32_max (fdiv time_remaining_s (lit 5))))"

definition lookup :: "lookup_table \<Rightarrow> f64 \<Rightarrow> f64 \<Rightarrow> f64 \<Rightarrow> f64" where
  "lookup T btc_price strike time_remaining_s =
     (if \<not> lt_loaded T then lit (1 / 2)
      else lt_table T ! lookup_row btc_price strike ! lookup_col time_remaining_s)"

declare load_row.simps [simp del] load_rows.simps [simp del]

end
