(* ===== verification/Tick.thy ===== *)
theory Tick
  imports Fp64 Prelude
begin

text \<open>
  Ticks and clock offsets, \<open>src/data/tick.hpp\<close>, \<open>clock_sync.hpp\<close> and \<open>clock_sync.cpp\<close>: the unit
  passed from the feed thread to the engine, the ordered fault levels, and the smoothed difference of
  an exchange's clock and the local one, per source.
\<close>

datatype source = BINANCE | COINBASE | POLYMARKET

datatype feed_fault_level = NOMINAL | DEGRADED | REST_FALLBACK | EMERGENCY_FLATTEN

primrec fault_code :: "feed_fault_level \<Rightarrow> nat" where
  "fault_code NOMINAL = 0"
| "fault_code DEGRADED = 1"
| "fault_code REST_FALLBACK = 2"
| "fault_code EMERGENCY_FLATTEN = 3"

instantiation feed_fault_level :: linorder
begin

definition less_eq_feed_fault_level :: "feed_fault_level \<Rightarrow> feed_fault_level \<Rightarrow> bool" where
  "a \<le> b \<longleftrightarrow> fault_code a \<le> fault_code b"

definition less_feed_fault_level :: "feed_fault_level \<Rightarrow> feed_fault_level \<Rightarrow> bool" where
  "a < b \<longleftrightarrow> fault_code a < fault_code b"

instance
proof
  fix a b :: feed_fault_level
  show "a \<le> b \<Longrightarrow> b \<le> a \<Longrightarrow> a = b"
    by (cases a; cases b) (simp_all add: less_eq_feed_fault_level_def)
qed (auto simp: less_eq_feed_fault_level_def less_feed_fault_level_def)

end

record tick =
  timestamp_us :: i64
  tick_source :: source
  best_bid :: f64
  best_ask :: f64
  mid :: f64
  ob_imbalance :: f64
  last_trade :: f64
  low_depth :: bool

subsection \<open>Clock offsets\<close>

record clock_sync =
  cs_alpha :: f64
  offset_ema :: "source \<Rightarrow> f64"
  initialised :: "source \<Rightarrow> bool"

definition new_clock_sync :: "f64 \<Rightarrow> clock_sync" where
  "new_clock_sync alpha = \<lparr>cs_alpha = alpha, offset_ema = (\<lambda>_. Fin 0), initialised = (\<lambda>_. False)\<rparr>"

definition cs_update :: "source \<Rightarrow> i64 \<Rightarrow> i64 \<Rightarrow> clock_sync \<Rightarrow> clock_sync" where
  "cs_update src local_us exchange_us s =
     (let sample = f64_of_int (sint (local_us - exchange_us))
      in if \<not> initialised s src
         then s\<lparr>offset_ema := (offset_ema s)(src := sample), initialised := (initialised s)(src := True)\<rparr>
         else let prev = offset_ema s src;
                  nxt = fadd (fmul (cs_alpha s) sample) (fmul (fsub (Fin 1) (cs_alpha s)) prev)
              in s\<lparr>offset_ema := (offset_ema s)(src := nxt)\<rparr>)"

definition cs_offset_us :: "source \<Rightarrow> clock_sync \<Rightarrow> i64" where
  "cs_offset_us src s =
     (if \<not> initialised s src then 0 else word_of_int (cast_int i64_min i64_max (offset_ema s src)))"

definition cs_reset :: "source \<Rightarrow> clock_sync \<Rightarrow> clock_sync" where
  "cs_reset src s = s\<lparr>offset_ema := (offset_ema s)(src := Fin 0), initialised := (initialised s)(src := False)\<rparr>"

text \<open>The first sample of a source maps its own exchange time to the local time, up to 2^53 microseconds.\<close>

lemma first_sample_maps_to_local:
  assumes "\<not> initialised s src" and "\<bar>sint (local_us - exchange_us)\<bar> \<le> 2 ^ 53"
  shows "exchange_us + cs_offset_us src (cs_update src local_us exchange_us s) = local_us"
proof -
  have "f64_of_int (sint (local_us - exchange_us)) = Fin (of_int (sint (local_us - exchange_us)))"
    unfolding f64_of_int_def by (rule fl_of_int [OF assms(2)])
  moreover have "cast_int i64_min i64_max (Fin (of_int (sint (local_us - exchange_us)))) = sint (local_us - exchange_us)"
    by (rule cast_int_of_int) (use assms(2) in \<open>simp_all add: i64_min_def i64_max_def abs_le_iff\<close>)
  ultimately show ?thesis using assms(1) by (simp add: cs_update_def cs_offset_us_def Let_def del: cast_int.simps)
qed

lemma cs_reset_update_other: "src \<noteq> src' \<Longrightarrow> cs_offset_us src (cs_update src' a b s) = cs_offset_us src s"
  by (simp add: cs_update_def cs_offset_us_def Let_def)

end
