(* ===== verification/Ring_Buffer.thy ===== *)
theory Ring_Buffer
  imports Prelude
begin

text \<open>
  The lock-free single-producer single-consumer ring buffer of \<open>src/data/ring_buffer.hpp\<close>, for
  any capacity \<open>N = 2 ^ k\<close>: the sequential operations with their free-running 64-bit counters,
  the interface they implement (\<open>bounded_fifo\<close>), and the interleaved execution of one producer
  and one consumer, each at the granularity of its atomic loads and stores.
\<close>

subsection \<open>The data structure\<close>

record 'a ring =
  buf :: "'a list"
  head :: u64
  tail :: u64

definition slot :: "nat \<Rightarrow> u64 \<Rightarrow> nat" where
  "slot N c = unat (c AND of_nat (N - 1))"

definition push :: "nat \<Rightarrow> 'a \<Rightarrow> 'a ring \<Rightarrow> bool \<times> 'a ring" where
  "push N v r =
     (let h = head r; t = tail r
      in if h - t = of_nat N then (False, r)
         else (True, r\<lparr>buf := (buf r)[slot N h := v], head := h + 1\<rparr>))"

definition pop :: "nat \<Rightarrow> 'a ring \<Rightarrow> 'a option \<times> 'a ring" where
  "pop N r =
     (let t = tail r; h = head r
      in if t = h then (None, r)
         else (Some (buf r ! slot N t), r\<lparr>tail := t + 1\<rparr>))"

definition size_approx :: "'a ring \<Rightarrow> u64" where
  "size_approx r = head r - tail r"

definition ring_empty :: "'a ring \<Rightarrow> bool" where
  "ring_empty r \<longleftrightarrow> size_approx r = 0"

definition ring_full :: "nat \<Rightarrow> 'a ring \<Rightarrow> bool" where
  "ring_full N r \<longleftrightarrow> size_approx r = of_nat N"

definition new_ring :: "nat \<Rightarrow> 'a \<Rightarrow> 'a ring" where
  "new_ring N d = \<lparr>buf = replicate N d, head = 0, tail = 0\<rparr>"

subsection \<open>Abstraction to a list\<close>

definition contents :: "nat \<Rightarrow> 'a ring \<Rightarrow> 'a list" where
  "contents N r =
     map (\<lambda>i. buf r ! ((unat (tail r) + i) mod N)) [0..<unat (head r - tail r)]"

definition ring_inv :: "nat \<Rightarrow> 'a ring \<Rightarrow> bool" where
  "ring_inv N r \<longleftrightarrow> length (buf r) = N \<and> unat (head r - tail r) \<le> N"

definition pow2_size :: "nat \<Rightarrow> bool" where
  "pow2_size N \<longleftrightarrow> (\<exists>k<64. N = 2 ^ k)"

lemma pow2_size_pos: "pow2_size N \<Longrightarrow> 0 < N"
  by (auto simp: pow2_size_def)

lemma pow2_size_less: "pow2_size N \<Longrightarrow> N < 2 ^ 64"
proof -
  assume "pow2_size N"
  then obtain k where k: "k < 64" "N = 2 ^ k" by (auto simp: pow2_size_def)
  then show ?thesis using power_strict_increasing [of k 64 "2 :: nat"] by simp
qed

lemma pow2_size_dvd: "pow2_size N \<Longrightarrow> N dvd 2 ^ 64"
proof -
  assume "pow2_size N"
  then obtain k where k: "k < 64" "N = 2 ^ k" by (auto simp: pow2_size_def)
  then show ?thesis using le_imp_power_dvd [of k 64 "2 :: nat"] by simp
qed

lemma slot_mod: "pow2_size N \<Longrightarrow> slot N c = unat c mod N"
proof -
  assume "pow2_size N"
  then obtain k where k: "k < 64" "N = 2 ^ k" by (auto simp: pow2_size_def)
  have "(of_nat (N - 1) :: u64) = mask k"
    by (simp add: k mask_eq_exp_minus_1 of_nat_diff)
  then have "slot N c = unat (take_bit k c)" by (simp only: slot_def take_bit_eq_mask)
  also have "\<dots> = take_bit k (unat c)" by (rule unsigned_take_bit_eq)
  also have "\<dots> = unat c mod N" by (simp add: take_bit_eq_mod k)
  finally show ?thesis .
qed

lemma unat_add_mod: "pow2_size N \<Longrightarrow> unat (c + of_nat i :: u64) mod N = (unat c + i) mod N"
proof -
  assume N: "pow2_size N"
  have "unat (c + of_nat i :: u64) mod N = (unat c + i mod 2 ^ 64) mod 2 ^ 64 mod N"
    by (simp add: unat_word_ariths unat_of_nat)
  also have "\<dots> = (unat c + i mod 2 ^ 64) mod N"
    by (rule mod_mod_cancel [OF pow2_size_dvd [OF N]])
  also have "\<dots> = (unat c + i) mod N"
    by (metis mod_add_right_eq mod_mod_cancel [OF pow2_size_dvd [OF N]])
  finally show ?thesis .
qed

lemma slot_add: "pow2_size N \<Longrightarrow> slot N (c + of_nat i) = (unat c + i) mod N"
  by (simp add: slot_mod unat_add_mod)

lemma head_from_tail: "head r = tail r + of_nat (unat (head r - tail r))"
  by simp

lemma slot_head: "pow2_size N \<Longrightarrow> slot N (head r) = (unat (tail r) + unat (head r - tail r)) mod N"
  using slot_add [of N "tail r" "unat (head r - tail r)"] by simp

lemma mod_distinct: "i < (n::nat) \<Longrightarrow> n < N \<Longrightarrow> (t + i) mod N \<noteq> (t + n) mod N"
proof
  assume *: "i < n" "n < N" "(t + i) mod N = (t + n) mod N"
  then have "N dvd (t + n) - (t + i)" by (metis mod_eq_dvd_iff_nat nat_add_left_cancel_le less_imp_le)
  then have "N \<le> n - i" using * by (auto dest: dvd_imp_le)
  then show False using * by simp
qed

subsection \<open>The interface\<close>

locale bounded_fifo =
  fixes cap :: nat
    and inv :: "'q \<Rightarrow> bool"
    and items :: "'q \<Rightarrow> 'a list"
    and enq :: "'a \<Rightarrow> 'q \<Rightarrow> bool \<times> 'q"
    and deq :: "'q \<Rightarrow> 'a option \<times> 'q"
  assumes inv_enq: "inv q \<Longrightarrow> inv (snd (enq x q))"
    and inv_deq: "inv q \<Longrightarrow> inv (snd (deq q))"
    and bounded: "inv q \<Longrightarrow> length (items q) \<le> cap"
    and enq_room: "inv q \<Longrightarrow> length (items q) < cap \<Longrightarrow>
          fst (enq x q) \<and> items (snd (enq x q)) = items q @ [x]"
    and enq_full: "inv q \<Longrightarrow> length (items q) = cap \<Longrightarrow> enq x q = (False, q)"
    and deq_some: "inv q \<Longrightarrow> items q = y # ys \<Longrightarrow>
          fst (deq q) = Some y \<and> items (snd (deq q)) = ys"
    and deq_none: "inv q \<Longrightarrow> items q = [] \<Longrightarrow> deq q = (None, q)"
begin

text \<open>Feeding a whole list keeps the longest prefix that fits; the rest is dropped.\<close>

fun feed :: "'a list \<Rightarrow> 'q \<Rightarrow> 'q" where
  "feed [] q = q"
| "feed (x # xs) q = feed xs (snd (enq x q))"

fun drain :: "nat \<Rightarrow> 'q \<Rightarrow> 'a list" where
  "drain 0 q = []"
| "drain (Suc n) q = (case deq q of (None, _) \<Rightarrow> [] | (Some x, q') \<Rightarrow> x # drain n q')"

lemma feed_inv: "inv q \<Longrightarrow> inv (feed xs q)"
  by (induction xs arbitrary: q) (auto intro: inv_enq)

lemma items_feed: "inv q \<Longrightarrow> items (feed xs q) = items q @ take (cap - length (items q)) xs"
proof (induction xs arbitrary: q)
  case (Cons x xs)
  show ?case
  proof (cases "length (items q) < cap")
    case True
    then have "cap - length (items q) = Suc (cap - Suc (length (items q)))" by simp
    then show ?thesis using Cons True enq_room [of q x] inv_enq [of q x] by simp
  next
    case False
    then have "length (items q) = cap" using bounded [of q] Cons.prems by simp
    then show ?thesis using Cons enq_full [of q x] by simp
  qed
qed simp

lemma drain_items: "inv q \<Longrightarrow> drain n q = take n (items q)"
proof (induction n arbitrary: q)
  case (Suc n)
  show ?case
  proof (cases "items q")
    case Nil
    then show ?thesis using deq_none [of q] Suc.prems by simp
  next
    case (Cons y ys)
    then obtain q' where "deq q = (Some y, q')" "items q' = ys"
      using deq_some [of q y ys] Suc.prems by (cases "deq q") auto
    then show ?thesis using Suc Cons inv_deq [of q] by simp
  qed
qed simp

lemma feed_drain: "inv q \<Longrightarrow> items q = [] \<Longrightarrow> drain n (feed xs q) = take n (take cap xs)"
  by (simp add: drain_items feed_inv items_feed)

end

subsection \<open>The ring implements the interface\<close>

lemma length_contents [simp]: "length (contents N r) = unat (head r - tail r)"
  by (simp add: contents_def)

lemma push_full:
  assumes "pow2_size N" and "ring_inv N r" and "length (contents N r) = N"
  shows "push N v r = (False, r)"
proof -
  have "head r - tail r = of_nat N" 
  proof -
    have "unat (head r - tail r) = N" using assms(3) by simp
    then have "of_nat (unat (head r - tail r)) = (of_nat N :: u64)" by (rule arg_cong)
    then show ?thesis by simp
  qed
  then show ?thesis by (simp add: push_def Let_def)
qed

lemma push_room:
  assumes N: "pow2_size N" and inv: "ring_inv N r" and room: "length (contents N r) < N"
  shows "fst (push N v r) \<and> contents N (snd (push N v r)) = contents N r @ [v]
         \<and> ring_inv N (snd (push N v r))"
proof -
  define n where "n = unat (head r - tail r)"
  have nN: "n < N" using room by (simp add: n_def)
  have "head r - tail r \<noteq> of_nat N"
    using nN pow2_size_less [OF N] by (auto simp: n_def unat_of_nat)
  then have p: "push N v r = (True, r\<lparr>buf := (buf r)[slot N (head r) := v], head := head r + 1\<rparr>)"
    by (simp add: push_def Let_def)
  have "unat (head r + 1 - tail r) = unat ((head r - tail r) + 1)" by (simp add: algebra_simps)
  also have "\<dots> = Suc n"
    using nN pow2_size_less [OF N] by (simp add: unat_word_ariths n_def)
  finally have d: "unat (head r + 1 - tail r) = Suc n" .
  have s: "slot N (head r) = (unat (tail r) + n) mod N" by (simp add: slot_head N n_def)
  have len: "length (buf r) = N" using inv by (simp add: ring_inv_def)
  have md: "(unat (tail r) + n) mod N \<noteq> (unat (tail r) + i) mod N" if "i < n" for i
    using mod_distinct [OF that nN] by metis
  have "contents N (snd (push N v r)) = contents N r @ [v]"
    using nN md pow2_size_pos [OF N]
    by (simp add: p contents_def d s len n_def [symmetric])
  then show ?thesis using nN len by (simp add: p ring_inv_def d)
qed

lemma pop_empty: "contents N r = [] \<Longrightarrow> pop N r = (None, r)"
proof -
  assume "contents N r = []"
  then have "unat (head r - tail r) = 0" by (metis length_contents list.size(3))
  then show ?thesis by (simp add: pop_def Let_def unat_eq_zero)
qed

lemma pop_some:
  assumes N: "pow2_size N" and inv: "ring_inv N r" and c: "contents N r = y # ys"
  shows "fst (pop N r) = Some y \<and> contents N (snd (pop N r)) = ys \<and> ring_inv N (snd (pop N r))"
proof -
  define n where "n = unat (head r - tail r)"
  have len: "n = Suc (length ys)" using c length_contents [of N r] by (simp add: n_def)
  then have ne: "tail r \<noteq> head r" by (auto simp: n_def)
  have "head r - (tail r + 1) = head r - tail r - 1" by (simp add: algebra_simps)
  also have "unat \<dots> = n - 1"
    unfolding n_def using ne by (intro unat_minus_one) simp
  finally have d: "unat (head r - (tail r + 1)) = n - 1" .
  have cs: "y # ys = buf r ! (unat (tail r) mod N)
      # map (\<lambda>i. buf r ! ((unat (tail r) + Suc i) mod N)) [0..<n - 1]"
    using c unfolding contents_def n_def [symmetric] len by (simp add: map_upt_Suc del: upt_Suc)
  have ix: "(unat (tail r + 1) + i) mod N = (unat (tail r) + Suc i) mod N" for i
  proof -
    have "unat (tail r + 1) mod N = (unat (tail r) + 1) mod N"
      using unat_add_mod [OF N, of "tail r" 1] by simp
    then have "(unat (tail r + 1) + i) mod N = (unat (tail r) + 1 + i) mod N"
      by (rule mod_add_cong) simp
    then show ?thesis by simp
  qed
  have p: "pop N r = (Some (buf r ! slot N (tail r)), r\<lparr>tail := tail r + 1\<rparr>)"
    using ne by (simp add: pop_def Let_def)
  have "contents N (snd (pop N r)) = map (\<lambda>i. buf r ! ((unat (tail r) + Suc i) mod N)) [0..<n - 1]"
    unfolding p contents_def by (simp add: d ix)
  moreover have "ring_inv N (snd (pop N r))"
    using inv len unfolding p ring_inv_def by (simp add: d n_def [symmetric])
  ultimately show ?thesis using cs by (simp add: p slot_mod [OF N])
qed

lemma pow2_size_4096: "pow2_size 4096"
  by (auto simp: pow2_size_def intro!: exI [of _ 12])

text \<open>The buffer between the feed thread and the engine: \<open>TickBuffer = SPSCRingBuffer<Tick, 4096>\<close>.\<close>

interpretation tick_ring: bounded_fifo 4096 "ring_inv 4096" "contents 4096" "push 4096" "pop 4096"
proof
  fix q :: "'b ring" and x y :: 'b and ys
  assume inv: "ring_inv 4096 q"
  show le: "length (contents 4096 q) \<le> 4096" using inv by (simp add: ring_inv_def)
  show "length (contents 4096 q) < 4096 \<Longrightarrow>
      fst (push 4096 x q) \<and> contents 4096 (snd (push 4096 x q)) = contents 4096 q @ [x]"
    using push_room [OF pow2_size_4096 inv] by blast
  show full: "length (contents 4096 q) = 4096 \<Longrightarrow> push 4096 x q = (False, q)"
    using push_full [OF pow2_size_4096 inv] by blast
  show "ring_inv 4096 (snd (push 4096 x q))"
    using push_room [OF pow2_size_4096 inv] full le inv by (cases "length (contents 4096 q) = 4096") auto
  show some: "contents 4096 q = y # ys \<Longrightarrow>
      fst (pop 4096 q) = Some y \<and> contents 4096 (snd (pop 4096 q)) = ys"
    using pop_some [OF pow2_size_4096 inv] by blast
  show none: "contents 4096 q = [] \<Longrightarrow> pop 4096 q = (None, q)"
    by (rule pop_empty)
  show "ring_inv 4096 (snd (pop 4096 q))"
    using pop_some [OF pow2_size_4096 inv] none inv by (cases "contents 4096 q") auto
qed




subsection \<open>One producer and one consumer, interleaved\<close>

text \<open>
  Control points of a call: after each atomic load, after the copy into or out of the slot, and
  before the releasing store. \<open>pushed\<close> and \<open>popped\<close> record the elements of the calls
  that returned true, at the moment of their releasing store.
\<close>

datatype 'a producer = P_Idle | P_Head 'a u64 | P_Tail 'a u64 u64 | P_Written 'a u64
datatype 'a consumer = C_Idle | C_Tail u64 | C_Head u64 u64 | C_Read 'a u64

record 'a spsc =
  shared :: "'a ring"
  prod :: "'a producer"
  cons :: "'a consumer"
  pushed :: "'a list"
  popped :: "'a list"

definition spsc_init :: "nat \<Rightarrow> 'a \<Rightarrow> 'a spsc" where
  "spsc_init N d =
     \<lparr>shared = new_ring N d, prod = P_Idle, cons = C_Idle, pushed = [], popped = []\<rparr>"

inductive spsc_step :: "nat \<Rightarrow> 'a spsc \<Rightarrow> 'a spsc \<Rightarrow> bool" for N where
  load_own_head: "prod s = P_Idle \<Longrightarrow>
     spsc_step N s (s\<lparr>prod := P_Head v (head (shared s))\<rparr>)"
| load_tail: "prod s = P_Head v h \<Longrightarrow>
     spsc_step N s (s\<lparr>prod := P_Tail v h (tail (shared s))\<rparr>)"
| push_fails: "prod s = P_Tail v h t \<Longrightarrow> h - t = of_nat N \<Longrightarrow>
     spsc_step N s (s\<lparr>prod := P_Idle\<rparr>)"
| write_slot: "prod s = P_Tail v h t \<Longrightarrow> h - t \<noteq> of_nat N \<Longrightarrow>
     spsc_step N s (s\<lparr>prod := P_Written v h,
       shared := (shared s)\<lparr>buf := (buf (shared s))[slot N h := v]\<rparr>\<rparr>)"
| publish: "prod s = P_Written v h \<Longrightarrow>
     spsc_step N s (s\<lparr>prod := P_Idle, shared := (shared s)\<lparr>head := h + 1\<rparr>,
       pushed := pushed s @ [v]\<rparr>)"
| load_own_tail: "cons s = C_Idle \<Longrightarrow>
     spsc_step N s (s\<lparr>cons := C_Tail (tail (shared s))\<rparr>)"
| load_head: "cons s = C_Tail t \<Longrightarrow>
     spsc_step N s (s\<lparr>cons := C_Head t (head (shared s))\<rparr>)"
| pop_fails: "cons s = C_Head t h \<Longrightarrow> t = h \<Longrightarrow>
     spsc_step N s (s\<lparr>cons := C_Idle\<rparr>)"
| read_slot: "cons s = C_Head t h \<Longrightarrow> t \<noteq> h \<Longrightarrow>
     spsc_step N s (s\<lparr>cons := C_Read (buf (shared s) ! slot N t) t\<rparr>)"
| release: "cons s = C_Read x t \<Longrightarrow>
     spsc_step N s (s\<lparr>cons := C_Idle, shared := (shared s)\<lparr>tail := t + 1\<rparr>,
       popped := popped s @ [x]\<rparr>)"

inductive spsc_reachable :: "nat \<Rightarrow> 'a \<Rightarrow> 'a spsc \<Rightarrow> bool" for N d where
  start: "spsc_reachable N d (spsc_init N d)"
| step: "spsc_reachable N d s \<Longrightarrow> spsc_step N s s' \<Longrightarrow> spsc_reachable N d s'"

definition prod_inv :: "nat \<Rightarrow> 'a list \<Rightarrow> nat \<Rightarrow> nat \<Rightarrow> 'a producer \<Rightarrow> bool" where
  "prod_inv N b H T p \<longleftrightarrow>
     (case p of P_Idle \<Rightarrow> True
      | P_Head v h \<Rightarrow> h = of_nat H
      | P_Tail v h t \<Rightarrow> h = of_nat H \<and> (\<exists>t'. t = of_nat t' \<and> t' \<le> T \<and> H \<le> t' + N)
      | P_Written v h \<Rightarrow> h = of_nat H \<and> H < T + N \<and> b ! (H mod N) = v)"

definition cons_inv :: "'a list \<Rightarrow> nat \<Rightarrow> nat \<Rightarrow> 'a consumer \<Rightarrow> bool" where
  "cons_inv log H T c \<longleftrightarrow>
     (case c of C_Idle \<Rightarrow> True
      | C_Tail t \<Rightarrow> t = of_nat T
      | C_Head t h \<Rightarrow> t = of_nat T \<and> (\<exists>h'. h = of_nat h' \<and> T \<le> h' \<and> h' \<le> H)
      | C_Read x t \<Rightarrow> t = of_nat T \<and> T < H \<and> x = log ! T)"

definition spsc_inv :: "nat \<Rightarrow> 'a spsc \<Rightarrow> bool" where
  "spsc_inv N s \<longleftrightarrow>
     (let b = buf (shared s); H = length (pushed s); T = length (popped s)
      in length b = N \<and> head (shared s) = of_nat H \<and> tail (shared s) = of_nat T
         \<and> T \<le> H \<and> H \<le> T + N \<and> popped s = take T (pushed s)
         \<and> (\<forall>i. T \<le> i \<longrightarrow> i < H \<longrightarrow> b ! (i mod N) = pushed s ! i)
         \<and> prod_inv N b H T (prod s) \<and> cons_inv (pushed s) H T (cons s))"

lemmas spsc_inv_simps = spsc_inv_def prod_inv_def cons_inv_def Let_def

lemma slot_of_nat: "pow2_size N \<Longrightarrow> slot N (of_nat i) = i mod N"
  using slot_add [of N 0 i] by simp

lemma mod_window: "i < j \<Longrightarrow> j < i + N \<Longrightarrow> i mod N \<noteq> j mod (N::nat)"
  using mod_distinct [of 0 "j - i" N i] by simp

lemma spsc_inv_init: "spsc_inv N (spsc_init N d)"
  by (simp add: spsc_inv_simps spsc_init_def new_ring_def)

lemma write_slot_inv:
  assumes N: "pow2_size N" and inv: "spsc_inv N s"
    and p: "prod s = P_Tail v h t" and ne: "h - t \<noteq> of_nat N"
  shows "spsc_inv N (s\<lparr>prod := P_Written v h,
       shared := (shared s)\<lparr>buf := (buf (shared s))[slot N h := v]\<rparr>\<rparr>)"
proof -
  let ?H = "length (pushed s)" and ?T = "length (popped s)" and ?b = "buf (shared s)"
  obtain t' where h: "h = of_nat ?H" and t: "t = of_nat t'" "t' \<le> ?T" "?H \<le> t' + N"
    using inv p by (auto simp: spsc_inv_simps)
  have "?T \<le> ?H" using inv by (simp add: spsc_inv_simps)
  then have "h - t = of_nat (?H - t')" using h t by simp
  then have "?H - t' \<noteq> N" using ne by auto
  then have room: "?H < ?T + N" using t by simp
  have sl: "slot N h = ?H mod N" by (simp add: h slot_of_nat N)
  have keep: "?b[slot N h := v] ! (i mod N) = ?b ! (i mod N)" if "?T \<le> i" "i < ?H" for i
    using that room mod_window [of i ?H N] by (simp add: sl)
  show ?thesis using inv room h sl keep pow2_size_pos [OF N] by (simp add: spsc_inv_simps)
qed

lemma publish_inv:
  assumes inv: "spsc_inv N s" and p: "prod s = P_Written v h"
  shows "spsc_inv N (s\<lparr>prod := P_Idle, shared := (shared s)\<lparr>head := h + 1\<rparr>,
       pushed := pushed s @ [v]\<rparr>)"
  using inv p
  by (auto simp: spsc_inv_simps nth_append less_Suc_eq le_Suc_eq split: consumer.splits)

lemma release_inv:
  assumes inv: "spsc_inv N s" and c: "cons s = C_Read x t"
  shows "spsc_inv N (s\<lparr>cons := C_Idle, shared := (shared s)\<lparr>tail := t + 1\<rparr>,
       popped := popped s @ [x]\<rparr>)"
proof -
  have "popped s @ [x] = take (Suc (length (popped s))) (pushed s)"
    using inv c by (simp add: spsc_inv_simps take_Suc_conv_app_nth)
  then show ?thesis using inv c
    by (auto simp: spsc_inv_simps split: producer.splits)
qed

lemma read_slot_inv:
  assumes N: "pow2_size N" and inv: "spsc_inv N s" and c: "cons s = C_Head t h" and ne: "t \<noteq> h"
  shows "spsc_inv N (s\<lparr>cons := C_Read (buf (shared s) ! slot N t) t\<rparr>)"
proof -
  let ?H = "length (pushed s)" and ?T = "length (popped s)"
  obtain h' where t: "t = of_nat ?T" and h: "h = of_nat h'" "?T \<le> h'" "h' \<le> ?H"
    using inv c by (auto simp: spsc_inv_simps)
  have "?T \<noteq> h'" using t h ne by metis
  then have lt: "?T < ?H" using h by simp
  have "buf (shared s) ! (?T mod N) = pushed s ! ?T"
    using inv lt unfolding spsc_inv_def Let_def by blast
  moreover have "slot N t = ?T mod N" by (simp add: t slot_of_nat N)
  ultimately show ?thesis using inv t lt by (simp add: spsc_inv_simps)
qed

lemma load_own_head_inv: "spsc_inv N s \<Longrightarrow> spsc_inv N (s\<lparr>prod := P_Head v (head (shared s))\<rparr>)"
  by (simp add: spsc_inv_simps)

lemma load_tail_inv: "spsc_inv N s \<Longrightarrow> prod s = P_Head v h \<Longrightarrow>
    spsc_inv N (s\<lparr>prod := P_Tail v h (tail (shared s))\<rparr>)"
  by (simp add: spsc_inv_simps) blast

lemma producer_idle_inv: "spsc_inv N s \<Longrightarrow> spsc_inv N (s\<lparr>prod := P_Idle\<rparr>)"
  by (simp add: spsc_inv_simps)

lemma load_own_tail_inv: "spsc_inv N s \<Longrightarrow> spsc_inv N (s\<lparr>cons := C_Tail (tail (shared s))\<rparr>)"
  by (simp add: spsc_inv_simps)

lemma load_head_inv: "spsc_inv N s \<Longrightarrow> cons s = C_Tail t \<Longrightarrow>
    spsc_inv N (s\<lparr>cons := C_Head t (head (shared s))\<rparr>)"
  by (simp add: spsc_inv_simps) blast

lemma consumer_idle_inv: "spsc_inv N s \<Longrightarrow> spsc_inv N (s\<lparr>cons := C_Idle\<rparr>)"
  by (simp add: spsc_inv_simps)

lemma spsc_step_inv:
  assumes "spsc_step N s s'" and "pow2_size N" and "spsc_inv N s"
  shows "spsc_inv N s'"
  using assms
  by (induction rule: spsc_step.induct)
    (blast intro: load_own_head_inv load_tail_inv producer_idle_inv write_slot_inv publish_inv
      load_own_tail_inv load_head_inv consumer_idle_inv read_slot_inv release_inv)+

lemma spsc_reachable_inv: "spsc_reachable N d s \<Longrightarrow> pow2_size N \<Longrightarrow> spsc_inv N s"
  by (induction rule: spsc_reachable.induct) (auto intro: spsc_inv_init spsc_step_inv)

text \<open>
  C8. The buffer is safe without a lock: in every interleaving of one producer and one consumer,
  the elements popped so far are exactly the first elements pushed, in order, none lost, repeated
  or torn, and at most \<open>N\<close> accepted elements are waiting. Stale cached counters and
  wrap-around of the 64-bit counters are covered.
\<close>

theorem spsc_delivers_in_order:
  assumes "pow2_size N" and "spsc_reachable N d s"
  shows "popped s = take (length (popped s)) (pushed s)
    \<and> length (popped s) \<le> length (pushed s) \<and> length (pushed s) \<le> length (popped s) + N"
  using spsc_reachable_inv [OF assms(2,1)] by (simp add: spsc_inv_def Let_def)

lemma spsc_run_example:
  "\<exists>s. spsc_reachable 2 (0 :: nat) s \<and> pushed s = [5]"
proof -
  have "spsc_reachable 2 (0 :: nat) (spsc_init 2 0)" by (rule spsc_reachable.start)
  note 1 = spsc_reachable.step [OF this spsc_step.load_own_head [of _ _ 5]]
  note 2 = spsc_reachable.step [OF 1 spsc_step.load_tail [of _ 5 0]]
  note 3 = spsc_reachable.step [OF 2 spsc_step.write_slot [of _ 5 0 0]]
  note 4 = spsc_reachable.step [OF 3 spsc_step.publish [of _ 5 0]]
  show ?thesis by (rule exI, rule conjI, rule 4) (auto simp: spsc_init_def new_ring_def)
qed

theorem spsc_delivers_in_order_witness:
  "\<exists>s. spsc_reachable 2 (0 :: nat) s \<and> pushed s = [5]
     \<and> popped s = take (length (popped s)) [5] \<and> length (popped s) \<le> 1"
proof -
  obtain s where s: "spsc_reachable 2 (0 :: nat) s" "pushed s = [5]"
    using spsc_run_example by blast
  have "pow2_size 2" by (auto simp: pow2_size_def intro!: exI [of _ 1])
  then show ?thesis using spsc_delivers_in_order [OF _ s(1)] s by auto
qed

end
