(* ===== verification/Bayes_Engine.thy ===== *)
theory Bayes_Engine
  imports Likelihood Tick Ring_Buffer
begin

text \<open>
  The Bayesian engine, \<open>src/signal/bayesian_engine.hpp\<close> and \<open>bayesian_engine.cpp\<close>: the consumer of
  the tick ring. It owns the price, volatility and posterior fields of the shared state. The funding
  rate it reads from the feed is an argument of the operations that read it.
\<close>

record market_config =
  mc_token_id :: string
  mc_strike_price :: f64
  mc_resolution_us :: i64
  mc_is_above :: bool

record engine =
  eg_ss :: shared_state
  eg_config :: market_config
  vol_of :: vol_state
  eg_stop :: bool
  p_prior :: f64
  eg_btc_mid :: f64
  prev_cb_mid :: f64
  last_reset_us :: i64

definition new_engine :: "shared_state \<Rightarrow> market_config \<Rightarrow> engine" where
  "new_engine sh cfg = \<lparr>eg_ss = sh, eg_config = cfg, vol_of = new_vol_state, eg_stop = False,
     p_prior = lit (1 / 2), eg_btc_mid = Fin 0, prev_cb_mid = Fin 0, last_reset_us = 0\<rparr>"

definition engine_stop :: "engine \<Rightarrow> engine" where
  "engine_stop e = e\<lparr>eg_stop := True\<rparr>"

definition clamp_aux :: "f64 \<Rightarrow> f64" where
  "clamp_aux x = fclamp x (fneg MAX_AUX_LOG_LIKELIHOOD_ADJ) MAX_AUX_LOG_LIKELIHOOD_ADJ"

definition compute_aux_log_adj :: "f64 \<Rightarrow> tick \<Rightarrow> engine \<Rightarrow> f64" where
  "compute_aux_log_adj funding t e =
     (let total = fadd (Fin 0) (clamp_aux (fmul funding (lit 100)));
          total = fadd total (clamp_aux (fmul (ob_imbalance t) MAX_AUX_LOG_LIKELIHOOD_ADJ));
          total = (if flt (Fin 0) (prev_cb_mid e) \<and> flt (Fin 0) (eg_btc_mid e)
                   then let rel_delta = fdiv (fsub (eg_btc_mid e) (prev_cb_mid e)) (prev_cb_mid e)
                        in fadd total (clamp_aux (fmul (fdiv rel_delta (lit (1 / 1000))) MAX_AUX_LOG_LIKELIHOOD_ADJ))
                   else total)
      in if mc_is_above (eg_config e) then total else fneg total)"

definition seconds_to_resolution :: "tick \<Rightarrow> engine \<Rightarrow> f64" where
  "seconds_to_resolution t e =
     fdiv (fsub (f64_of_int (sint (mc_resolution_us (eg_config e)))) (f64_of_int (sint (timestamp_us t)))) (lit 1000000)"

text \<open>The posterior before it is clamped; \<open>None\<close> when the normaliser is too small.\<close>

definition posterior :: "f64 \<Rightarrow> f64 \<Rightarrow> f64 \<Rightarrow> f64 option" where
  "posterior p L_yes_eff L_no =
     (let Z = fadd (fmul p L_yes_eff) (fmul (fsub (Fin 1) p) L_no)
      in if flt Z (lit (1 / 10 ^ 10)) then None else Some (fdiv (fmul p L_yes_eff) Z))"

definition run_bayesian_update :: "libm \<Rightarrow> f64 \<Rightarrow> tick \<Rightarrow> engine \<Rightarrow> engine" where
  "run_bayesian_update M funding t e =
     (let cfg = eg_config e; strike = mc_strike_price cfg
      in if fle (eg_btc_mid e) (Fin 0) \<or> fle strike (Fin 0) then e
         else let vol = realized_vol_60s (eg_ss e)
         in if fle vol (Fin 0) then e
         else let left = seconds_to_resolution t e
         in if fle left (Fin 0) then e
         else let L_yes = compute_likelihood M (eg_btc_mid e) strike left vol (ob_imbalance t) (mc_is_above cfg);
                  L_no = compute_likelihood M (eg_btc_mid e) strike left vol (ob_imbalance t) (\<not> mc_is_above cfg);
                  L_yes_eff = fmul L_yes (c_exp M (compute_aux_log_adj funding t e))
              in case posterior (p_prior e) L_yes_eff L_no of
                   None \<Rightarrow> e
                 | Some p \<Rightarrow>
                     let p_post = fclamp p (lit (1 / 100)) (lit (99 / 100))
                     in e\<lparr>p_prior := p_post, eg_ss := (eg_ss e)\<lparr>p_true := p_post\<rparr>\<rparr>)"

definition RESET_US :: i64 where
  "RESET_US = word_of_int (cast_int i64_min i64_max (fmul PRIOR_RESET_INTERVAL_S (lit 1000000)))"

definition coinbase_tick :: "libm \<Rightarrow> f64 \<Rightarrow> tick \<Rightarrow> engine \<Rightarrow> engine" where
  "coinbase_tick M funding t e =
     (if flt (Fin 0) (mid t)
      then let e1 = (if flt (Fin 0) (prev_cb_mid e) \<and> flt (Fin 0) (eg_btc_mid e)
                     then run_bayesian_update M funding t e else e)
           in e1\<lparr>prev_cb_mid := mid t\<rparr>
      else e)"

definition polymarket_tick :: "tick \<Rightarrow> engine \<Rightarrow> engine" where
  "polymarket_tick t e =
     (if flt (Fin 0) (mid t) \<and> flt (mid t) (Fin 1)
      then let e1 = e\<lparr>eg_ss := (eg_ss e)\<lparr>p_market := mid t, poly_best_bid := best_bid t, poly_best_ask := best_ask t\<rparr>\<rparr>
           in if last_reset_us e = 0 \<or> RESET_US \<le>s timestamp_us t - last_reset_us e
              then e1\<lparr>p_prior := mid t, last_reset_us := timestamp_us t\<rparr> else e1
      else e)"

definition binance_tick :: "libm \<Rightarrow> f64 \<Rightarrow> tick \<Rightarrow> engine \<Rightarrow> engine" where
  "binance_tick M funding t e =
     (if flt (Fin 0) (mid t)
      then let v = vol_update M (timestamp_us t) (mid t) (vol_of e); vol = realized_vol M v
           in run_bayesian_update M funding t
                (e\<lparr>eg_btc_mid := mid t, vol_of := v,
                   eg_ss := (eg_ss e)\<lparr>btc_mid := mid t, realized_vol_60s := vol, regime := classify_regime vol\<rparr>\<rparr>)
      else e)"

definition process_tick :: "libm \<Rightarrow> f64 \<Rightarrow> tick \<Rightarrow> engine \<Rightarrow> engine" where
  "process_tick M funding t e =
     (case tick_source t of
        COINBASE \<Rightarrow> coinbase_tick M funding t e
      | POLYMARKET \<Rightarrow> polymarket_tick t e
      | BINANCE \<Rightarrow> binance_tick M funding t e)"

text \<open>One turn of the loop of \<open>run\<close> on the ring and the engine.\<close>

definition engine_turn :: "libm \<Rightarrow> f64 \<Rightarrow> tick ring \<times> engine \<Rightarrow> tick ring \<times> engine" where
  "engine_turn M funding = (\<lambda>(r, e).
     if eg_stop e then (r, e)
     else case pop 4096 r of (None, r') \<Rightarrow> (r', e) | (Some t, r') \<Rightarrow> (r', process_tick M funding t e))"

definition process_all :: "libm \<Rightarrow> (tick \<times> f64) list \<Rightarrow> engine \<Rightarrow> engine" where
  "process_all M = fold (\<lambda>(t, funding). process_tick M funding t)"

subsection \<open>What the engine publishes\<close>

lemma fclamp_cases:
  "fle lo hi \<Longrightarrow> fclamp x lo hi = NaN \<or> fle lo (fclamp x lo hi) \<and> fle (fclamp x lo hi) hi"
  by (cases "x = NaN") (auto simp: fclamp_NaN dest: fclamp_bounds)

lemma run_bayesian_update_cases:
  obtains "run_bayesian_update M funding t e = e"
  | p where "run_bayesian_update M funding t e = e\<lparr>p_prior := p, eg_ss := (eg_ss e)\<lparr>p_true := p\<rparr>\<rparr>"
      and "p = NaN \<or> fle (lit (1 / 100)) p \<and> fle p (lit (99 / 100))"
      and "\<not> fle (mc_strike_price (eg_config e)) (Fin 0)"
proof -
  let ?lo = "lit (1 / 100)" and ?hi = "lit (99 / 100)"
  have "run_bayesian_update M funding t e = e \<or>
      (\<exists>x. run_bayesian_update M funding t e = e\<lparr>p_prior := fclamp x ?lo ?hi, eg_ss := (eg_ss e)\<lparr>p_true := fclamp x ?lo ?hi\<rparr>\<rparr>
         \<and> \<not> fle (mc_strike_price (eg_config e)) (Fin 0))"
    by (auto simp: run_bayesian_update_def Let_def split: option.split)
  moreover have "fle ?lo ?hi" unfolding lit_def by (rule fl_mono) simp
  ultimately show ?thesis using that fclamp_cases by metis
qed

definition published_ok :: "shared_state \<Rightarrow> bool" where
  "published_ok sh \<longleftrightarrow>
     (p_true sh = NaN \<or> fle (lit (1 / 100)) (p_true sh) \<and> fle (p_true sh) (lit (99 / 100)))
     \<and> flt (Fin 0) (p_market sh) \<and> flt (p_market sh) (Fin 1)
     \<and> regime sh = classify_regime (realized_vol_60s sh)"

lemma process_tick_published: "published_ok (eg_ss e) \<Longrightarrow> published_ok (eg_ss (process_tick M funding t e))"
proof -
  have u: "published_ok (eg_ss e) \<Longrightarrow> published_ok (eg_ss (run_bayesian_update M funding t e))" for e
    by (rule run_bayesian_update_cases [of M funding t e]) (auto simp: published_ok_def)
  have b: "published_ok (eg_ss e) \<Longrightarrow> published_ok (eg_ss (binance_tick M funding t e))"
    by (auto simp: binance_tick_def Let_def intro!: u) (simp add: published_ok_def)
  assume "published_ok (eg_ss e)"
  then show ?thesis using b u [of e]
    by (auto simp: process_tick_def coinbase_tick_def polymarket_tick_def Let_def split: source.splits)
      (auto simp: published_ok_def)
qed

lemma initial_published: "published_ok initial_shared"
proof -
  have "fle (lit (1 / 100)) (lit (1 / 2))" "fle (lit (1 / 2)) (lit (99 / 100))"
    unfolding lit_def by (rule fl_mono; simp)+
  moreover have "lit (1 / 2) = Fin (1 / 2)" by (rule lit_half)
  moreover have "flt (Fin 0) VOL_SIDEWAYS_THRESHOLD"
  proof -
    have "fle (fl (1 / 1024)) (fl (15 / 10000))" by (rule fl_mono) simp
    moreover have "fl (1 / 1024) = Fin (1 / 1024)"
    proof -
      have "representable (1 / 1024)"
        unfolding representable_def by (intro exI [of _ 1] exI [of _ "- 10"]) (simp add: pow2_def)
      then show ?thesis by (simp add: fl_representable f64_top_def)
    qed
    moreover have "flt (Fin 0) (Fin (1 / 1024))" by simp
    ultimately show ?thesis unfolding VOL_SIDEWAYS_THRESHOLD_def lit_def by (metis flt_fle_trans)
  qed
  ultimately show ?thesis by (simp add: published_ok_def initial_shared_def classify_regime_def)
qed


subsection \<open>Markets without a strike\<close>

lemma process_tick_config [simp]: "eg_config (process_tick M funding t e) = eg_config e"
proof -
  have u: "eg_config (run_bayesian_update M funding t e) = eg_config e" for e
    by (rule run_bayesian_update_cases [of M funding t e]) simp_all
  show ?thesis by (simp add: process_tick_def coinbase_tick_def polymarket_tick_def binance_tick_def Let_def u split: source.splits)
qed

lemma zero_strike_tick:
  assumes "fle (mc_strike_price (eg_config e)) (Fin 0)"
  shows "p_true (eg_ss (process_tick M funding t e)) = p_true (eg_ss e)"
proof -
  have u: "run_bayesian_update M funding t e' = e'" if "eg_config e' = eg_config e" for e'
    by (rule run_bayesian_update_cases [of M funding t e']) (use assms that in simp_all)
  show ?thesis
    by (auto simp: process_tick_def coinbase_tick_def polymarket_tick_def binance_tick_def Let_def u split: source.splits)
qed

lemma zero_strike_posterior:
  "fle (mc_strike_price (eg_config e)) (Fin 0) \<Longrightarrow> p_true (eg_ss (process_all M ticks e)) = p_true (eg_ss e)"
  by (induction ticks arbitrary: e) (auto simp: process_all_def zero_strike_tick)

subsection \<open>The engine as the consumer of the ring\<close>

fun engine_turns :: "libm \<Rightarrow> f64 list \<Rightarrow> tick ring \<times> engine \<Rightarrow> tick ring \<times> engine" where
  "engine_turns M [] s = s"
| "engine_turns M (funding # fs) s = engine_turns M fs (engine_turn M funding s)"

lemma process_tick_stop [simp]: "eg_stop (process_tick M funding t e) = eg_stop e"
proof -
  have u: "eg_stop (run_bayesian_update M funding t e) = eg_stop e" for e
    by (rule run_bayesian_update_cases [of M funding t e]) simp_all
  show ?thesis by (simp add: process_tick_def coinbase_tick_def polymarket_tick_def binance_tick_def Let_def u split: source.splits)
qed

lemma engine_turns_run:
  assumes "ring_inv 4096 r" and "\<not> eg_stop e"
  shows "ring_inv 4096 (fst (engine_turns M fs (r, e)))
    \<and> contents 4096 (fst (engine_turns M fs (r, e))) = drop (length fs) (contents 4096 r)
    \<and> snd (engine_turns M fs (r, e)) = process_all M (zip (contents 4096 r) fs) e"
  using assms
proof (induction fs arbitrary: r e)
  case (Cons funding fs)
  show ?case
  proof (cases "contents 4096 r")
    case Nil
    then have "engine_turn M funding (r, e) = (r, e)"
      using tick_ring.deq_none [OF Cons.prems(1) Nil] by (simp add: engine_turn_def)
    then show ?thesis using Cons.IH [OF Cons.prems] Nil by (simp add: process_all_def)
  next
    case (Cons t ts)
    then obtain r' where r: "pop 4096 r = (Some t, r')" "contents 4096 r' = ts"
      using tick_ring.deq_some [OF Cons.prems(1) Cons] by (cases "pop 4096 r") auto
    have "ring_inv 4096 r'" using tick_ring.inv_deq [OF Cons.prems(1)] r by simp
    from Cons.IH [OF this, of "process_tick M funding t e"] show ?thesis
      using Cons.prems(2) r Cons by (simp add: engine_turn_def process_all_def)
  qed
qed (simp add: process_all_def)

text \<open>
  Feed, ring and engine composed. If the feed pushes a run of ticks into an empty ring and
  the engine then turns at least as often, the engine's state is that of processing the first 4096 of
  them one after the other in order, and the ring is empty again.
\<close>

theorem engine_sees_ticks_in_order:
  assumes "ring_inv 4096 r" and "contents 4096 r = []" and "\<not> eg_stop e" and "length ticks \<le> length fs"
    and run: "engine_turns M fs (tick_ring.feed ticks r, e) = (r', e')"
  shows "e' = process_all M (zip (take 4096 ticks) fs) e \<and> contents 4096 r' = []"
proof -
  have c: "contents 4096 (tick_ring.feed ticks r) = take 4096 ticks"
    using tick_ring.items_feed [OF assms(1), of ticks] assms(2) by simp
  from engine_turns_run [OF tick_ring.feed_inv [OF assms(1)] assms(3), of M fs ticks] run c assms(4)
  show ?thesis by simp
qed

definition empty_tick :: tick where
  "empty_tick = \<lparr>timestamp_us = 0, tick_source = BINANCE, best_bid = Fin 0, best_ask = Fin 0, mid = Fin 0,
     ob_imbalance = Fin 0, last_trade = Fin 0, low_depth = False\<rparr>"

definition sample_config :: market_config where
  "sample_config = \<lparr>mc_token_id = ''1'', mc_strike_price = Fin 0, mc_resolution_us = 100000000, mc_is_above = True\<rparr>"

definition plain_libm :: libm where
  "plain_libm = \<lparr>c_log = (\<lambda>x. Fin 0), c_exp = (\<lambda>x. Fin 1), c_lgamma = (\<lambda>x. Fin 0), c_sqrt = (\<lambda>x. x)\<rparr>"

theorem engine_sees_ticks_in_order_witness:
  "\<exists>r' e'. engine_turns plain_libm [Fin 0, Fin 0] (tick_ring.feed [empty_tick, empty_tick] (new_ring 4096 empty_tick),
      new_engine initial_shared sample_config) = (r', e') \<and> contents 4096 r' = []"
proof -
  have 1: "ring_inv 4096 (new_ring 4096 empty_tick)" "contents 4096 (new_ring 4096 empty_tick) = []"
    by (simp_all add: ring_inv_def new_ring_def contents_def)
  have 2: "\<not> eg_stop (new_engine initial_shared sample_config)" by (simp add: new_engine_def)
  obtain r' e' where r: "engine_turns plain_libm [Fin 0, Fin 0] (tick_ring.feed [empty_tick, empty_tick] (new_ring 4096 empty_tick),
      new_engine initial_shared sample_config) = (r', e')" by fastforce
  have 3: "length [empty_tick, empty_tick] \<le> length [Fin 0, Fin 0]" by simp
  from engine_sees_ticks_in_order [OF 1 2 3 r] r show ?thesis by blast
qed

end
