(* ===== verification/Key_Manager.thy ===== *)
theory Key_Manager
  imports Json_Lib Effects
begin

text \<open>
  The key manager, \<open>src/wallet/key_manager.hpp\<close> and \<open>key_manager.cpp\<close>: loading the encrypted secrets
  file, signing, and wiping. OpenSSL, libsecp256k1, the terminal and the file system are the fields of
  a record \<open>'w key_lib\<close> over a world. The local buffers of \<open>load\<close> that hold secrets are fields of the
  state, with the contents they have when the function is left.
\<close>

record 'w key_lib =
  file_size :: "string \<Rightarrow> 'w \<Rightarrow> nat option \<times> 'w"
  file_read :: "string \<Rightarrow> nat \<Rightarrow> 'w \<Rightarrow> bytes option \<times> 'w"
  read_passphrase :: "'w \<Rightarrow> string \<times> 'w"
  pbkdf2_hmac :: "string \<Rightarrow> bytes \<Rightarrow> nat \<Rightarrow> nat \<Rightarrow> bytes option"
  gcm_context :: "'w \<Rightarrow> bool \<times> 'w"
  gcm_init :: "bytes \<Rightarrow> bytes \<Rightarrow> bool"
  gcm_update :: "bytes \<Rightarrow> bytes \<Rightarrow> bytes \<Rightarrow> bytes option"
  gcm_set_tag :: "bytes \<Rightarrow> bool"
  gcm_final :: "bytes \<Rightarrow> bytes \<Rightarrow> bytes \<Rightarrow> bytes \<Rightarrow> bytes option"
  page_alloc :: "'w \<Rightarrow> bool \<times> 'w"
  page_lock :: "'w \<Rightarrow> bool \<times> 'w"
  rand_bytes :: "nat \<Rightarrow> 'w \<Rightarrow> bytes option \<times> 'w"
  secp_context :: "'w \<Rightarrow> bool \<times> 'w"
  secp_verify :: "bytes \<Rightarrow> bool"
  secp_pubkey :: "bytes \<Rightarrow> bytes option"
  secp_sign :: "bytes \<Rightarrow> bytes \<Rightarrow> (bytes \<times> nat) option"

record 'w key_manager =
  km_world :: 'w
  km_loaded :: bool
  privkey :: "bytes option"
  mlocked :: bool
  km_ctx :: bool
  coinbase_key_id :: string
  coinbase_key_secret :: string
  wallet_address :: address
  passphrase_buf :: string
  aes_key_buf :: bytes
  plaintext_buf :: bytes
  privkey_hex_buf :: string
  key_bytes_buf :: bytes

definition new_key_manager :: "'w \<Rightarrow> 'w key_manager" where
  "new_key_manager w =
     \<lparr>km_world = w, km_loaded = False, privkey = None, mlocked = False, km_ctx = False,
      coinbase_key_id = [], coinbase_key_secret = [], wallet_address = replicate 20 0,
      passphrase_buf = [], aes_key_buf = [], plaintext_buf = [], privkey_hex_buf = [], key_bytes_buf = []\<rparr>"

definition km_read :: "('w \<Rightarrow> 'a \<times> 'w) \<Rightarrow> ('w key_manager, 'a) prog" where
  "km_read f = (\<lambda>s. case f (km_world s) of (x, w) \<Rightarrow> (Inr x, s\<lparr>km_world := w\<rparr>))"

text \<open>\<open>if (!ok) throw\<close>, and a null result.\<close>

definition guard :: "bool \<Rightarrow> exn \<Rightarrow> ('s, unit) prog" where
  "guard b e = (if b then skip else throw e)"

definition require :: "'a option \<Rightarrow> exn \<Rightarrow> ('s, 'a) prog" where
  "require r e = (case r of None \<Rightarrow> throw e | Some x \<Rightarrow> ret x)"

text \<open>\<open>OPENSSL_cleanse\<close> overwrites a buffer with zeros.\<close>

definition cleanse :: "bytes \<Rightarrow> bytes" where
  "cleanse b = replicate (length b) 0"

definition cleanse_text :: "string \<Rightarrow> string" where
  "cleanse_text s = replicate (length s) (char_of (0 :: nat))"

subsection \<open>Hex text\<close>

fun hex_bytes :: "string \<Rightarrow> exn + bytes" where
  "hex_bytes (a # b # s) =
     (case (hex_nibble a, hex_nibble b) of
        (Some hi, Some lo) \<Rightarrow> sbind (hex_bytes s) (\<lambda>r. Inr (of_nat (push_bit 4 hi OR lo) # r))
      | _ \<Rightarrow> Inl (Runtime_Error ''key_manager: invalid hex character in key''))"
| "hex_bytes _ = Inr []"

definition key_strip_0x :: "string \<Rightarrow> string" where
  "key_strip_0x s =
     (case s of z # x # r \<Rightarrow> if z = CHR ''0'' \<and> (x = CHR ''x'' \<or> x = CHR ''X'') then r else s | _ \<Rightarrow> s)"

definition hex_decode :: "string \<Rightarrow> exn + bytes" where
  "hex_decode s =
     (let p = key_strip_0x s
      in if length p mod 2 \<noteq> 0 then Inl (Runtime_Error ''key_manager: odd-length hex string'') else hex_bytes p)"

subsection \<open>Loading\<close>

definition bytes_text :: "bytes \<Rightarrow> string" where
  "bytes_text bs = map (\<lambda>b. char_of (unat b)) bs"

definition HEADER_SIZE :: nat where
  "HEADER_SIZE = 16 + 12 + 16"

definition read_blob :: "'w key_lib \<Rightarrow> string \<Rightarrow> ('w key_manager, bytes) prog" where
  "read_blob L path =
     bind (km_read (file_size L path)) (\<lambda>sz.
     bind (require sz (Runtime_Error (''key_manager: cannot open: '' @ path))) (\<lambda>fsize.
     andthen (guard (HEADER_SIZE \<le> fsize) (Runtime_Error ''key_manager: key file too small''))
       (bind (km_read (file_read L path fsize)) (\<lambda>b.
          require b (Runtime_Error ''key_manager: key file read error'')))))"

definition pbkdf2_sha256 :: "'w key_lib \<Rightarrow> string \<Rightarrow> bytes \<Rightarrow> ('w key_manager, bytes) prog" where
  "pbkdf2_sha256 L pass slt = require (pbkdf2_hmac L pass slt 100000 32) (Runtime_Error ''key_manager: PBKDF2 failed'')"

definition aes256gcm_decrypt ::
  "'w key_lib \<Rightarrow> bytes \<Rightarrow> bytes \<Rightarrow> bytes \<Rightarrow> bytes \<Rightarrow> ('w key_manager, bytes) prog" where
  "aes256gcm_decrypt L key iv tag ct =
     bind (km_read (gcm_context L)) (\<lambda>ok.
     andthen (guard ok (Runtime_Error ''key_manager: EVP_CIPHER_CTX_new failed''))
     (andthen (guard (gcm_init L key iv) (Runtime_Error ''key_manager: AES-GCM init failed''))
     (bind (require (gcm_update L key iv ct) (Runtime_Error ''key_manager: DecryptUpdate failed'')) (\<lambda>p.
      andthen (guard (gcm_set_tag L tag) (Runtime_Error ''key_manager: set GCM tag failed''))
      (bind (require (gcm_final L key iv tag ct)
               (Runtime_Error ''key_manager: authentication failed - wrong passphrase or corrupted file'')) (\<lambda>q.
        ret (p @ q)))))))"

definition parse_private_key :: "'w key_lib \<Rightarrow> string \<Rightarrow> ('w key_manager, unit) prog" where
  "parse_private_key L hex =
     bind (lift_sum (hex_decode hex)) (\<lambda>bs.
     andthen (modify (\<lambda>s. s\<lparr>key_bytes_buf := bs\<rparr>))
     (andthen (guard (length bs = 32) (Runtime_Error ''key_manager: private key must be exactly 32 bytes''))
     (bind (km_read (page_alloc L)) (\<lambda>ok.
      andthen (guard ok (Runtime_Error ''key_manager: aligned_alloc for privkey failed''))
      (andthen (modify (\<lambda>s. s\<lparr>privkey := Some bs, key_bytes_buf := cleanse bs\<rparr>))
      (bind (km_read (page_lock L)) (\<lambda>lk. if lk then modify (\<lambda>s. s\<lparr>mlocked := True\<rparr>) else skip)))))))"

text \<open>The private key as the library reads it through the pointer.\<close>

definition key_of :: "'w key_manager \<Rightarrow> bytes" where
  "key_of s = (case privkey s of None \<Rightarrow> [] | Some k \<Rightarrow> k)"

definition derive_address :: "'w key_lib \<Rightarrow> ('w key_manager, unit) prog" where
  "derive_address L =
     bind (gets key_of) (\<lambda>k.
     bind (require (secp_pubkey L k) (Runtime_Error ''key_manager: pubkey derivation failed'')) (\<lambda>pub65.
       modify (\<lambda>s. s\<lparr>wallet_address := drop 12 (keccak256 (take 64 (drop 1 pub65)))\<rparr>)))"

definition decrypt_secrets :: "'w key_lib \<Rightarrow> string \<Rightarrow> ('w key_manager, bytes) prog" where
  "decrypt_secrets L path =
     bind (read_blob L path) (\<lambda>blob.
     bind (km_read (read_passphrase L)) (\<lambda>pass.
     andthen (modify (\<lambda>s. s\<lparr>passphrase_buf := pass\<rparr>))
     (bind (pbkdf2_sha256 L pass (take 16 blob)) (\<lambda>aes_key.
      andthen (modify (\<lambda>s. s\<lparr>aes_key_buf := aes_key, passphrase_buf := []\<rparr>))
      (bind (aes256gcm_decrypt L aes_key (take 12 (drop 16 blob)) (take 16 (drop 28 blob)) (drop HEADER_SIZE blob)) (\<lambda>plain.
        andthen (modify (\<lambda>s. s\<lparr>plaintext_buf := plain, aes_key_buf := cleanse aes_key\<rparr>)) (ret plain)))))))"

definition parse_secrets :: "'j json_lib \<Rightarrow> bytes \<Rightarrow> ('w key_manager, 'j) prog" where
  "parse_secrets J plain =
     (case j_parse J (bytes_text plain) of
        Inl e \<Rightarrow> andthen (modify (\<lambda>s. s\<lparr>plaintext_buf := cleanse (plaintext_buf s)\<rparr>))
                   (throw (Runtime_Error (''key_manager: JSON parse error: '' @ exn_what e)))
      | Inr j \<Rightarrow> ret j)"

definition extract_secrets :: "'j json_lib \<Rightarrow> 'j \<Rightarrow> ('w key_manager, string) prog" where
  "extract_secrets J j =
     bind (lift_sum (j_get_string J j ''coinbase_key_id'')) (\<lambda>kid.
     andthen (modify (\<lambda>s. s\<lparr>coinbase_key_id := kid\<rparr>))
     (bind (lift_sum (j_get_string J j ''coinbase_key_secret'')) (\<lambda>sec.
      andthen (modify (\<lambda>s. s\<lparr>coinbase_key_secret := sec\<rparr>))
      (bind (lift_sum (j_get_string J j ''private_key'')) (\<lambda>hex.
       andthen (modify (\<lambda>s. s\<lparr>privkey_hex_buf := hex, plaintext_buf := cleanse (plaintext_buf s)\<rparr>)) (ret hex))))))"

definition init_secp :: "'w key_lib \<Rightarrow> ('w key_manager, unit) prog" where
  "init_secp L =
     bind (km_read (secp_context L)) (\<lambda>ok.
     andthen (guard ok (Runtime_Error ''key_manager: secp256k1_context_create failed''))
     (andthen (modify (\<lambda>s. s\<lparr>km_ctx := True\<rparr>))
     (bind (km_read (rand_bytes L 32)) (\<lambda>r.
      bind (require r (Runtime_Error ''key_manager: RAND_bytes for context seed failed'')) (\<lambda>_.
      bind (gets key_of) (\<lambda>k.
        guard (secp_verify L k) (Runtime_Error ''key_manager: invalid private key'')))))))"

definition km_load :: "'j json_lib \<Rightarrow> 'w key_lib \<Rightarrow> string \<Rightarrow> ('w key_manager, unit) prog" where
  "km_load J L path =
     bind (decrypt_secrets L path) (\<lambda>plain.
     bind (parse_secrets J plain) (\<lambda>j.
     bind (extract_secrets J j) (\<lambda>hex.
     andthen (parse_private_key L hex)
     (andthen (modify (\<lambda>s. s\<lparr>privkey_hex_buf := cleanse_text hex\<rparr>))
     (andthen (init_secp L)
     (andthen (derive_address L)
       (modify (\<lambda>s. s\<lparr>km_loaded := True\<rparr>))))))))"

subsection \<open>Signing and wiping\<close>

definition km_sign :: "'w key_lib \<Rightarrow> 'w key_manager \<Rightarrow> bytes \<Rightarrow> exn + bytes" where
  "km_sign L s digest =
     (if \<not> km_loaded s then Inl (Logic_Error ''key_manager: sign() called before load()'')
      else case secp_sign L digest (key_of s) of
        None \<Rightarrow> Inl (Runtime_Error ''key_manager: secp256k1_ecdsa_sign_recoverable failed'')
      | Some (rs, recid) \<Rightarrow> Inr (take 64 rs @ [of_nat (recid + 27)]))"

definition km_wipe :: "'w key_manager \<Rightarrow> 'w key_manager" where
  "km_wipe s =
     s\<lparr>privkey := None, mlocked := (case privkey s of None \<Rightarrow> mlocked s | Some _ \<Rightarrow> False), km_ctx := False,
       coinbase_key_id := cleanse_text (coinbase_key_id s),
       coinbase_key_secret := cleanse_text (coinbase_key_secret s), km_loaded := False\<rparr>"


subsection \<open>What a load leaves behind\<close>

definition no_secret_left :: "'w key_manager \<Rightarrow> bool" where
  "no_secret_left s \<longleftrightarrow>
     passphrase_buf s = [] \<and> set (aes_key_buf s) \<subseteq> {0} \<and> set (plaintext_buf s) \<subseteq> {0}
     \<and> set (key_bytes_buf s) \<subseteq> {0} \<and> set (privkey_hex_buf s) \<subseteq> {char_of (0 :: nat)}"

lemma cleanse_zero [simp]: "set (cleanse b) \<subseteq> {0}" "set (cleanse_text t) \<subseteq> {char_of (0 :: nat)}"
  by (auto simp: cleanse_def cleanse_text_def)

lemma cleanse_set [simp]: "x \<in> set (cleanse b) \<Longrightarrow> x = 0" "c \<in> set (cleanse_text t) \<Longrightarrow> c = char_of (0 :: nat)"
  by (auto simp: cleanse_def cleanse_text_def)

lemma km_read_Inr: "km_read f s = (Inr x, s') \<Longrightarrow> \<exists>w. s' = s\<lparr>km_world := w\<rparr>"
  by (auto simp: km_read_def split: prod.splits)

lemma guard_Inr [simp]: "guard b e s = (Inr x, s') \<longleftrightarrow> b \<and> s = s'"
  by (auto simp: guard_def throw_def)

lemma require_Inr [simp]: "require r e s = (Inr x, s') \<longleftrightarrow> r = Some x \<and> s = s'"
  by (auto simp: require_def throw_def ret_def split: option.splits)

lemma lift_sum_Inr [simp]: "lift_sum r s = (Inr x, s') \<longleftrightarrow> r = Inr x \<and> s = s'"
  by (auto simp: lift_sum_def)

lemmas load_elims = bind_InrE andthen_InrE

text \<open>What each stage of \<open>load\<close> does when it returns, up to the world.\<close>

lemma read_blob_run: "read_blob L path s = (Inr b, s') \<Longrightarrow> \<exists>w. s' = s\<lparr>km_world := w\<rparr>"
  unfolding read_blob_def by (elim load_elims) (auto dest!: km_read_Inr)

lemma aes_run: "aes256gcm_decrypt L key iv tag ct s = (Inr p, s') \<Longrightarrow> \<exists>w. s' = s\<lparr>km_world := w\<rparr>"
  unfolding aes256gcm_decrypt_def by (elim load_elims) (auto dest!: km_read_Inr)

lemma decrypt_run:
  assumes "decrypt_secrets L path s = (Inr plain, s')"
  shows "passphrase_buf s' = [] \<and> set (aes_key_buf s') \<subseteq> {0} \<and> plaintext_buf s' = plain"
  using assms unfolding decrypt_secrets_def pbkdf2_sha256_def
  by (elim load_elims) (auto dest!: km_read_Inr read_blob_run aes_run)

lemma parse_secrets_run: "parse_secrets J plain s = (Inr j, s') \<Longrightarrow> s' = s \<and> j_parse J (bytes_text plain) = Inr j"
  unfolding parse_secrets_def by (auto simp: throw_def split: sum.splits elim!: load_elims)

lemma extract_run:
  assumes "extract_secrets J j s = (Inr hex, s')"
  shows "\<exists>kid sec. s' = s\<lparr>coinbase_key_id := kid, coinbase_key_secret := sec, privkey_hex_buf := hex,
           plaintext_buf := cleanse (plaintext_buf s)\<rparr>"
  using assms unfolding extract_secrets_def by (elim load_elims) (auto, blast)

lemma parse_key_run:
  assumes "parse_private_key L hex s = (Inr u, s')"
  shows "(\<exists>k. privkey s' = Some k \<and> length k = 32 \<and> hex_decode hex = Inr k) \<and> set (key_bytes_buf s') \<subseteq> {0}
    \<and> passphrase_buf s' = passphrase_buf s \<and> aes_key_buf s' = aes_key_buf s \<and> plaintext_buf s' = plaintext_buf s
    \<and> privkey_hex_buf s' = privkey_hex_buf s"
  using assms unfolding parse_private_key_def
  by (elim load_elims) (auto dest!: km_read_Inr split: if_splits)

lemma init_secp_run:
  assumes "init_secp L s = (Inr u, s')"
  shows "\<exists>w. s' = s\<lparr>km_ctx := True, km_world := w\<rparr> \<and> secp_verify L (key_of s)"
  using assms unfolding init_secp_def
  by (elim load_elims) (auto dest!: km_read_Inr simp: key_of_def intro!: exI)

lemma derive_run:
  assumes "derive_address L s = (Inr u, s')"
  shows "\<exists>pub. secp_pubkey L (key_of s) = Some pub
           \<and> s' = s\<lparr>wallet_address := drop 12 (keccak256 (take 64 (drop 1 pub)))\<rparr>"
  using assms unfolding derive_address_def by (elim load_elims) auto

lemma load_returned:
  assumes "km_load J L path s = (Inr u, s')"
  shows "km_loaded s' \<and> no_secret_left s'
    \<and> (\<exists>k pub. privkey s' = Some k \<and> length k = 32 \<and> secp_verify L k \<and> secp_pubkey L k = Some pub
        \<and> wallet_address s' = drop 12 (keccak256 (take 64 (drop 1 pub))))"
  using assms unfolding km_load_def
  by (elim load_elims)
    (auto dest!: decrypt_run parse_secrets_run extract_run parse_key_run init_secp_run derive_run
      simp: no_secret_left_def key_of_def)

text \<open>A stage that throws leaves the manager not loaded.\<close>

abbreviation unloaded :: "'w key_manager \<Rightarrow> bool" where
  "unloaded s \<equiv> \<not> km_loaded s"

definition stays_unloaded :: "('w key_manager, 'a) prog \<Rightarrow> bool" where
  "stays_unloaded m \<longleftrightarrow> triple unloaded m (\<lambda>_. unloaded) unloaded"

lemma unloaded_bind: "stays_unloaded m \<Longrightarrow> (\<And>x. triple unloaded (f x) Q unloaded) \<Longrightarrow> triple unloaded (bind m f) Q unloaded"
  unfolding stays_unloaded_def by (rule triple_bind)

lemma unloaded_andthen: "stays_unloaded m \<Longrightarrow> triple unloaded n Q unloaded \<Longrightarrow> triple unloaded (andthen m n) Q unloaded"
  unfolding stays_unloaded_def by (rule triple_andthen)

lemma unloaded_basic:
  "stays_unloaded (ret x)" "stays_unloaded (km_read f)" "stays_unloaded (guard b e)" "stays_unloaded (require r e)"
  "stays_unloaded (lift_sum q)" "stays_unloaded (gets g)" "stays_unloaded (throw e)" "stays_unloaded skip"
  by (auto simp: stays_unloaded_def triple_def prog_defs km_read_def guard_def require_def split: prod.splits option.splits sum.splits)

lemma unloaded_modify: "(\<And>s. km_loaded (f s) = km_loaded s) \<Longrightarrow> stays_unloaded (modify f)"
  by (auto simp: stays_unloaded_def triple_def modify_def)

lemma unloaded_compose:
  "stays_unloaded m \<Longrightarrow> (\<And>x. stays_unloaded (h x)) \<Longrightarrow> stays_unloaded (bind m h)"
  "stays_unloaded m' \<Longrightarrow> stays_unloaded n \<Longrightarrow> stays_unloaded (andthen m' n)"
  unfolding stays_unloaded_def by (blast intro: triple_bind triple_andthen)+

lemma unloaded_if: "(b \<Longrightarrow> stays_unloaded m) \<Longrightarrow> (\<not> b \<Longrightarrow> stays_unloaded n) \<Longrightarrow> stays_unloaded (if b then m else n)"
  by simp

lemmas unloaded_rules = unloaded_compose unloaded_basic unloaded_modify unloaded_if

lemma unloaded_decrypt: "stays_unloaded (decrypt_secrets L path)"
  unfolding decrypt_secrets_def read_blob_def pbkdf2_sha256_def aes256gcm_decrypt_def
  by (intro unloaded_rules) simp_all

lemma unloaded_parse: "stays_unloaded (parse_secrets J plain)"
proof (cases "j_parse J (bytes_text plain)")
  case (Inl e)
  then show ?thesis unfolding parse_secrets_def by simp (intro unloaded_rules; simp)
qed (simp add: parse_secrets_def unloaded_basic)

lemma unloaded_stages:
  "stays_unloaded (extract_secrets J j)" "stays_unloaded (parse_private_key L hex)" "stays_unloaded (init_secp L)"
  "stays_unloaded (derive_address L)"
  unfolding extract_secrets_def parse_private_key_def init_secp_def derive_address_def
  by (intro unloaded_rules; simp)+

lemma load_failed:
  assumes "km_load J L path s = (Inl e, s')" and "\<not> km_loaded s"
  shows "\<not> km_loaded s'"
proof -
  have m: "stays_unloaded (modify (\<lambda>s. s\<lparr>privkey_hex_buf := cleanse_text hex\<rparr>))" for hex
    by (rule unloaded_modify) simp
  have last: "triple unloaded (modify (\<lambda>s. s\<lparr>km_loaded := True\<rparr>)) (\<lambda>_ _. True) unloaded"
    by (simp add: triple_def modify_def)
  have "triple unloaded (km_load J L path) (\<lambda>_ _. True) unloaded"
    unfolding km_load_def by (intro unloaded_bind unloaded_andthen unloaded_decrypt unloaded_parse unloaded_stages m last)
  then show ?thesis using assms tripleD_throw by metis
qed


text \<open>A secrets file without a private key: the plaintext is still in its buffer when \<open>load\<close> throws.\<close>

lemma missing_key_leaves_plaintext:
  assumes "decrypt_secrets L path s = (Inr plain, t)" and "j_parse J (bytes_text plain) = Inr j"
    and "j_get_string J j ''coinbase_key_id'' = Inr kid" and "j_get_string J j ''coinbase_key_secret'' = Inr sec"
    and "j_get_string J j ''private_key'' = Inl e"
  shows "\<exists>s'. km_load J L path s = (Inl e, s') \<and> plaintext_buf s' = plain"
proof -
  have "plaintext_buf t = plain" using decrypt_run [OF assms(1)] by auto
  then show ?thesis using assms by (simp add: km_load_def bind_def parse_secrets_def extract_secrets_def prog_defs)
qed

subsection \<open>Hex round trip\<close>

lemma nibble_of_digit: "n < 16 \<Longrightarrow> hex_nibble (HEX_CHARS ! n) = Some n"
proof -
  have "\<forall>n \<in> set [0..<16]. hex_nibble (HEX_CHARS ! n) = Some n" by code_simp
  then show "n < 16 \<Longrightarrow> ?thesis" by simp
qed

lemma nibbles:
  "unat (drop_bit 4 b) = unat b div 16" "unat (b AND 0xf) = unat b mod 16" for b :: u8
proof -
  show "unat (drop_bit 4 b) = unat b div 16" by (simp only: unat_drop_bit_eq) (simp add: drop_bit_eq_div)
  have "b AND 0xf = take_bit 4 b" by (simp add: take_bit_eq_mask mask_eq_exp_minus_1)
  then have "unat (b AND 0xf) = take_bit 4 (unat b)" by (simp only: unsigned_take_bit_eq)
  then show "unat (b AND 0xf) = unat b mod 16" by (simp add: take_bit_eq_mod)
qed

lemma byte_halves: "of_nat (push_bit 4 (unat (drop_bit 4 b)) OR unat (b AND 0xf)) = (b :: u8)"
proof -
  have "push_bit 4 (unat (drop_bit 4 b)) OR unat (b AND 0xf) = unat b"
    unfolding nibbles using push_or_nat [of "unat b mod 16" 4 "unat b div 16"] by simp
  then show ?thesis by simp
qed

lemma hex_bytes_body: "hex_bytes (hex_body bs) = Inr bs"
proof (induction bs)
  case (Cons b bs)
  have "unat (drop_bit 4 b) < 16" "unat (b AND 0xf) < 16"
    unfolding nibbles using unat_u8_less [of b] by simp_all
  then have "hex_nibble (HEX_CHARS ! unat (drop_bit 4 b)) = Some (unat (drop_bit 4 b))"
    "hex_nibble (HEX_CHARS ! unat (b AND 0xf)) = Some (unat (b AND 0xf))"
    by (simp_all only: nibble_of_digit)
  then show ?case using Cons by (simp only: hex_body_def list.map concat.simps append_Cons append_Nil hex_bytes.simps
      option.case prod.case byte_halves sbind_simps)
qed (simp add: hex_body_def)

lemma length_hex_body: "length (hex_body bs) = 2 * length bs"
  by (induction bs) (simp_all add: hex_body_def)

text \<open>
  The hex texts the bot writes (addresses and signatures) are read back by the key parser as the
  bytes they were made from.
\<close>

theorem hex_round_trip: "hex_decode (bytes_to_hex bs) = Inr bs"
  by (simp add: hex_decode_def bytes_to_hex_def key_strip_0x_def length_hex_body hex_bytes_body Let_def)

end
