(* ===== verification/Clob_Auth.thy ===== *)
theory Clob_Auth
  imports Key_Manager
begin

text \<open>
  The CLOB session, \<open>src/wallet/clob_auth.hpp\<close> and \<open>clob_auth.cpp\<close>: login with a signed \<open>ClobAuth\<close>
  struct, the credentials the server returns, and the headers of authenticated requests. The clock,
  the HTTP calls, OpenSSL's base64 block functions and its HMAC are the fields of a record
  \<open>'w auth_lib\<close>; the JSON library is a \<open>json_lib\<close>. A header map is a partial function.
\<close>

type_synonym headers = "string \<Rightarrow> string option"

record 'w auth_lib =
  au_system_ns :: "'w \<Rightarrow> int \<times> 'w"
  au_http_post :: "string \<Rightarrow> headers \<Rightarrow> string \<Rightarrow> 'w \<Rightarrow> (exn + int \<times> string) \<times> 'w"
  au_http_get :: "string \<Rightarrow> headers \<Rightarrow> 'w \<Rightarrow> (exn + int \<times> string) \<times> 'w"
  evp_encode_block :: "bytes \<Rightarrow> string"
  evp_decode_block :: "string \<Rightarrow> bytes option"
  hmac_lib :: "bytes \<Rightarrow> bytes \<Rightarrow> bytes option"

record api_creds =
  api_key :: string
  api_secret :: string
  api_passphrase :: string

record clob_auth =
  ca_host :: string
  wallet_hex :: string
  ca_creds :: "api_creds option"

definition new_clob_auth :: "string \<Rightarrow> clob_auth" where
  "new_clob_auth host = \<lparr>ca_host = host, wallet_hex = [], ca_creds = None\<rparr>"

definition authenticated :: "clob_auth \<Rightarrow> bool" where
  "authenticated a \<longleftrightarrow> ca_creds a \<noteq> None"

subsection \<open>base64url and HMAC\<close>

definition b64url_encode :: "'w auth_lib \<Rightarrow> bytes \<Rightarrow> string" where
  "b64url_encode A bs = rev (dropWhile (\<lambda>c. c = CHR ''='') (rev (map url_char (evp_encode_block A bs))))"

definition std_char :: "char \<Rightarrow> char" where
  "std_char c = (if c = CHR ''-'' then CHR ''+'' else if c = CHR ''_'' then CHR ''/'' else c)"

definition pad4 :: "string \<Rightarrow> string" where
  "pad4 s = s @ replicate ((4 - length s mod 4) mod 4) (CHR ''='')"

definition trailing_pads :: "string \<Rightarrow> nat" where
  "trailing_pads s = length (takeWhile (\<lambda>c. c = CHR ''='') (rev s))"

text \<open>
  \<open>resize\<close> to the length of the block less the padding: the subtraction is unsigned, and a length
  below zero is a huge one, which \<open>resize\<close> refuses.
\<close>

definition b64url_decode :: "'w auth_lib \<Rightarrow> string \<Rightarrow> exn + bytes" where
  "b64url_decode A s =
     (let padded = pad4 (map std_char s)
      in case evp_decode_block A padded of
           None \<Rightarrow> Inl (Runtime_Error ''clob_auth: base64url decode failed'')
         | Some out \<Rightarrow>
             if trailing_pads padded \<le> length out then Inr (take (length out - trailing_pads padded) out)
             else Inl (Logic_Error ''vector::resize''))"

definition hmac_sha256 :: "'w auth_lib \<Rightarrow> bytes \<Rightarrow> string \<Rightarrow> exn + bytes" where
  "hmac_sha256 A key msg =
     (case hmac_lib A key (str_bytes msg) of
        None \<Rightarrow> Inl (Runtime_Error ''clob_auth: HMAC-SHA256 failed'')
      | Some d \<Rightarrow> Inr d)"

definition timestamp_text :: "int \<Rightarrow> string" where
  "timestamp_text ns = show_int (ns sdiv 1000000000)"

subsection \<open>Headers\<close>

text \<open>\<open>level2_headers\<close>; the clock is read before the secret is decoded.\<close>

definition normalised_body :: "string \<Rightarrow> string" where
  "normalised_body = map (\<lambda>c. if c = CHR 0x27 then CHR 0x22 else c)"

definition level2_headers ::
  "'w auth_lib \<Rightarrow> clob_auth \<Rightarrow> string \<Rightarrow> string \<Rightarrow> string \<Rightarrow> 'w \<Rightarrow> (exn + headers) \<times> 'w" where
  "level2_headers A a meth path body w =
     (case ca_creds a of
        None \<Rightarrow> (Inl (Logic_Error ''clob_auth: not authenticated - call authenticate() first''), w)
      | Some c \<Rightarrow>
          (case au_system_ns A w of (ns, w') \<Rightarrow>
             let ts = timestamp_text ns
             in (sbind (b64url_decode A (api_secret c)) (\<lambda>key.
                 sbind (hmac_sha256 A key (ts @ meth @ path @ normalised_body body)) (\<lambda>digest.
                   Inr [''POLY_ADDRESS'' \<mapsto> wallet_hex a, ''POLY_SIGNATURE'' \<mapsto> b64url_encode A digest,
                        ''POLY_TIMESTAMP'' \<mapsto> ts, ''POLY_API_KEY'' \<mapsto> api_key c,
                        ''POLY_PASSPHRASE'' \<mapsto> api_passphrase c])), w')))"

definition sign_clob_auth :: "'k key_lib \<Rightarrow> 'k key_manager \<Rightarrow> string \<Rightarrow> u64 \<Rightarrow> exn + string" where
  "sign_clob_auth L km ts n =
     sbind (km_sign L km (clob_auth_digest (wallet_address km) ts n)) (\<lambda>sig. Inr (bytes_to_hex sig))"

definition level1_headers ::
  "'w auth_lib \<Rightarrow> 'k key_lib \<Rightarrow> 'k key_manager \<Rightarrow> u64 \<Rightarrow> 'w \<Rightarrow> (exn + headers) \<times> 'w" where
  "level1_headers A L km n w =
     (case au_system_ns A w of (ns, w') \<Rightarrow>
        let ts = timestamp_text ns
        in (sbind (sign_clob_auth L km ts n) (\<lambda>sig.
              Inr [''POLY_ADDRESS'' \<mapsto> address_to_hex (wallet_address km), ''POLY_SIGNATURE'' \<mapsto> sig,
                   ''POLY_TIMESTAMP'' \<mapsto> ts, ''POLY_NONCE'' \<mapsto> show_nat (unat n)]), w'))"

subsection \<open>Login\<close>

record 'w auth_run =
  ar_world :: 'w
  ar_auth :: clob_auth

definition ar_call :: "('w \<Rightarrow> (exn + 'a) \<times> 'w) \<Rightarrow> ('w auth_run, 'a) prog" where
  "ar_call f = (\<lambda>s. case f (ar_world s) of (r, w) \<Rightarrow> (r, s\<lparr>ar_world := w\<rparr>))"

definition parse_api_creds :: "'j json_lib \<Rightarrow> string \<Rightarrow> exn + api_creds" where
  "parse_api_creds J body =
     sbind (j_parse J body) (\<lambda>j.
     sbind (if j_contains J j ''apiKey'' then j_get_string J j ''apiKey'' else j_get_string J j ''api_key'') (\<lambda>k.
     sbind (j_get_string J j ''secret'') (\<lambda>sec.
     sbind (j_get_string J j ''passphrase'') (\<lambda>pass.
       Inr \<lparr>api_key = k, api_secret = sec, api_passphrase = pass\<rparr>))))"

definition store_creds :: "'j json_lib \<Rightarrow> string \<Rightarrow> ('w auth_run, unit) prog" where
  "store_creds J body =
     bind (lift_sum (parse_api_creds J body)) (\<lambda>c. modify (\<lambda>s. s\<lparr>ar_auth := (ar_auth s)\<lparr>ca_creds := Some c\<rparr>\<rparr>))"

text \<open>What follows the answer of the create call, and of the derive call.\<close>

definition after_derive ::
  "'j json_lib \<Rightarrow> int \<times> string \<Rightarrow> int \<times> string \<Rightarrow> ('w auth_run, unit) prog" where
  "after_derive J = (\<lambda>(status, body) (status2, body2).
     if status2 = 200 then store_creds J body2
     else throw (Runtime_Error
       (''clob_auth: failed to create or derive API key - create HTTP '' @ show_int status @ '' body=('' @ body
        @ ''); derive HTTP '' @ show_int status2 @ '' body=('' @ body2 @ '')'')))"

definition after_create ::
  "'j json_lib \<Rightarrow> 'w auth_lib \<Rightarrow> string \<Rightarrow> headers \<Rightarrow> int \<times> string \<Rightarrow> ('w auth_run, unit) prog" where
  "after_create J A host hdrs = (\<lambda>(status, body).
     if status = 200 then store_creds J body
     else if status \<noteq> 400
     then throw (Runtime_Error (''clob_auth: /auth/api-key returned HTTP '' @ show_int status @ '': '' @ body))
     else bind (ar_call (au_http_get A (host @ ''/auth/derive-api-key'') hdrs)) (after_derive J (status, body)))"

definition authenticate ::
  "'j json_lib \<Rightarrow> 'w auth_lib \<Rightarrow> 'k key_lib \<Rightarrow> 'k key_manager \<Rightarrow> u64 \<Rightarrow> ('w auth_run, unit) prog" where
  "authenticate J A L km n =
     (if \<not> km_loaded km then throw (Logic_Error ''clob_auth: KeyManager not loaded'') else
      andthen (modify (\<lambda>s. s\<lparr>ar_auth := (ar_auth s)\<lparr>wallet_hex := address_to_hex (wallet_address km)\<rparr>\<rparr>))
      (bind (ar_call (level1_headers A L km n)) (\<lambda>hdrs.
       bind (gets (\<lambda>s. ca_host (ar_auth s))) (\<lambda>host.
       bind (ar_call (au_http_post A (host @ ''/auth/api-key'') hdrs [])) (after_create J A host hdrs)))))"

subsection \<open>What a login leaves behind\<close>

lemma ar_call_run: "ar_call f s = (r, s') \<Longrightarrow> ar_auth s' = ar_auth s \<and> (\<exists>w. f (ar_world s) = (r, w))"
  by (auto simp: ar_call_def split: prod.splits)

lemma store_creds_cases:
  "store_creds J body s = (case parse_api_creds J body of Inl e \<Rightarrow> (Inl e, s)
     | Inr c \<Rightarrow> (Inr (), s\<lparr>ar_auth := (ar_auth s)\<lparr>ca_creds := Some c\<rparr>\<rparr>))"
  by (auto simp: store_creds_def prog_defs split: sum.splits)

text \<open>The server gave these credentials: the first call made them, or the second found them.\<close>

definition granted :: "'j json_lib \<Rightarrow> 'w auth_lib \<Rightarrow> string \<Rightarrow> api_creds \<Rightarrow> bool" where
  "granted J A host c \<longleftrightarrow> (\<exists>hdrs body. parse_api_creds J body = Inr c \<and>
     ((\<exists>w. fst (au_http_post A (host @ ''/auth/api-key'') hdrs [] w) = Inr (200, body))
      \<or> (\<exists>w w' b. fst (au_http_post A (host @ ''/auth/api-key'') hdrs [] w) = Inr (400, b)
           \<and> fst (au_http_get A (host @ ''/auth/derive-api-key'') hdrs w') = Inr (200, body))))"

lemma after_create_failed:
  "after_create J A host hdrs x s = (Inl e, s') \<Longrightarrow> ca_creds (ar_auth s') = ca_creds (ar_auth s)"
  by (auto simp: after_create_def after_derive_def prog_defs store_creds_cases
      split: if_splits prod.splits sum.splits dest!: ar_call_run)

lemma authenticate_failed:
  "authenticate J A L km n s = (Inl e, s') \<Longrightarrow> ca_creds (ar_auth s') = ca_creds (ar_auth s)"
  by (auto simp: authenticate_def prog_defs split: if_splits prod.splits sum.splits
      dest!: ar_call_run after_create_failed)

lemma store_creds_returned:
  "store_creds J body s = (Inr u, s') \<Longrightarrow>
     wallet_hex (ar_auth s') = wallet_hex (ar_auth s) \<and> (\<exists>c. ca_creds (ar_auth s') = Some c \<and> parse_api_creds J body = Inr c)"
  by (auto simp: store_creds_cases split: sum.splits)

lemma after_create_returned:
  assumes "after_create J A host hdrs (status, body) s = (Inr u, s')"
    and "fst (au_http_post A (host @ ''/auth/api-key'') hdrs [] w) = Inr (status, body)"
  shows "wallet_hex (ar_auth s') = wallet_hex (ar_auth s) \<and> (\<exists>c. ca_creds (ar_auth s') = Some c \<and> granted J A host c)"
proof (cases "status = 200")
  case True
  then show ?thesis using assms store_creds_returned [of J body s u s'] unfolding granted_def
    by (simp add: after_create_def) blast
next
  case False
  then have s: "status = 400" using assms(1) by (auto simp: after_create_def throw_def split: if_splits)
  from assms(1) s obtain status2 body2 t where
    g: "ar_call (au_http_get A (host @ ''/auth/derive-api-key'') hdrs) s = (Inr (status2, body2), t)" and
    d: "after_derive J (status, body) (status2, body2) t = (Inr u, s')"
    by (auto simp: after_create_def elim!: bind_InrE)
  from d have c: "status2 = 200" "store_creds J body2 t = (Inr u, s')"
    by (auto simp: after_derive_def throw_def split: if_splits)
  obtain w2 w3 where "au_http_get A (host @ ''/auth/derive-api-key'') hdrs w2 = (Inr (200, body2), w3)"
    using ar_call_run [OF g] c(1) by blast
  then have "fst (au_http_get A (host @ ''/auth/derive-api-key'') hdrs w2) = Inr (200, body2)" by simp
  then show ?thesis using store_creds_returned [OF c(2)] ar_call_run [OF g] assms(2) s unfolding granted_def by metis
qed

lemma authenticate_returned:
  assumes "authenticate J A L km n s = (Inr u, s')"
  shows "km_loaded km \<and> wallet_hex (ar_auth s') = address_to_hex (wallet_address km)
    \<and> (\<exists>c. ca_creds (ar_auth s') = Some c \<and> granted J A (ca_host (ar_auth s)) c)"
proof -
  have l: "km_loaded km" using assms by (auto simp: authenticate_def throw_def split: if_splits)
  let ?s1 = "s\<lparr>ar_auth := (ar_auth s)\<lparr>wallet_hex := address_to_hex (wallet_address km)\<rparr>\<rparr>"
  let ?h = "ca_host (ar_auth s)"
  have "bind (ar_call (level1_headers A L km n)) (\<lambda>hdrs. bind (gets (\<lambda>s. ca_host (ar_auth s))) (\<lambda>host.
       bind (ar_call (au_http_post A (host @ ''/auth/api-key'') hdrs [])) (after_create J A host hdrs))) ?s1 = (Inr u, s')"
    using assms l by (simp add: authenticate_def)
  then obtain hdrs t status body v where
    h: "ar_call (level1_headers A L km n) ?s1 = (Inr hdrs, t)" and
    p: "ar_call (au_http_post A (ca_host (ar_auth t) @ ''/auth/api-key'') hdrs []) t = (Inr (status, body), v)" and
    r: "after_create J A (ca_host (ar_auth t)) hdrs (status, body) v = (Inr u, s')"
    by (elim bind_InrE) (auto elim!: bind_InrE)
  have t: "ar_auth t = ar_auth ?s1" using ar_call_run [OF h] by blast
  obtain w w' where p': "au_http_post A (?h @ ''/auth/api-key'') hdrs [] w = (Inr (status, body), w')"
    and v: "ar_auth v = ar_auth t" using ar_call_run [OF p] t by auto
  have f: "fst (au_http_post A (?h @ ''/auth/api-key'') hdrs [] w) = Inr (status, body)" using p' by simp
  have r': "after_create J A ?h hdrs (status, body) v = (Inr u, s')" using r t by simp
  show ?thesis using after_create_returned [OF r' f] l t v by simp
qed

text \<open>
  C37. A login is all or nothing. When it returns, the key was loaded, the session has the wallet's
  address and credentials that the server's answer contained: of the create call with status 200, or
  of the derive call with status 200 after a create with status 400. When it throws, the credentials
  are the ones from before.
\<close>

theorem login_all_or_nothing:
  "case authenticate J A L km n s of
     (Inl e, s') \<Rightarrow> ca_creds (ar_auth s') = ca_creds (ar_auth s)
   | (Inr _, s') \<Rightarrow> km_loaded km \<and> wallet_hex (ar_auth s') = address_to_hex (wallet_address km)
       \<and> (\<exists>c. ca_creds (ar_auth s') = Some c \<and> granted J A (ca_host (ar_auth s)) c)"
  using authenticate_failed [of J A L km n s] authenticate_returned [of J A L km n s]
  by (auto split: prod.split sum.split)

end
