(* ===== verification/Clob_Client.thy ===== *)
theory Clob_Client
  imports Clob_Auth Venue
begin

text \<open>
  The REST client of the CLOB, \<open>src/execution/clob_client.hpp\<close> and \<open>clob_client.cpp\<close>. One HTTP
  exchange over libcurl (\<open>curl_do\<close>: url, method, body and headers to the response text, which is
  what was received before any failure) is a function over the world.
\<close>

type_synonym 'w curl = "string \<Rightarrow> string \<Rightarrow> string \<Rightarrow> headers \<Rightarrow> 'w \<Rightarrow> string \<times> 'w"

definition DEFAULT_CLOB_URL :: string where
  "DEFAULT_CLOB_URL = ''https://clob.polymarket.com''"

subsection \<open>Serialisation\<close>

definition order_json :: "'j json_lib \<Rightarrow> order \<Rightarrow> 'j" where
  "order_json J r = j_object J
     [(''salt'', j_text J (uint256_to_decimal (salt r))), (''maker'', j_text J (address_to_hex (maker r))),
      (''signer'', j_text J (address_to_hex (signer r))), (''taker'', j_text J (address_to_hex (taker r))),
      (''tokenId'', j_text J (uint256_to_decimal (tokenId r))),
      (''makerAmount'', j_text J (uint256_to_decimal (makerAmount r))),
      (''takerAmount'', j_text J (uint256_to_decimal (takerAmount r))),
      (''expiration'', j_text J (uint256_to_decimal (expiration r))),
      (''nonce'', j_text J (uint256_to_decimal (nonce r))),
      (''feeRateBps'', j_text J (uint256_to_decimal (feeRateBps r))),
      (''side'', j_text J (if side r = 0 then ''BUY'' else ''SELL'')),
      (''signatureType'', j_number J (uint (signatureType r)))]"

definition build_order_json :: "'j json_lib \<Rightarrow> order \<Rightarrow> bytes \<Rightarrow> string \<Rightarrow> string \<Rightarrow> string" where
  "build_order_json J r sig owner_hex order_type =
     j_dump J (j_object J [(''order'', order_json J r), (''signature'', j_text J (bytes_to_hex sig)),
                           (''owner'', j_text J owner_hex), (''orderType'', j_text J order_type)])"

subsection \<open>Requests\<close>

definition clob_post :: "'w curl \<Rightarrow> string \<Rightarrow> string \<Rightarrow> string \<Rightarrow> headers \<Rightarrow> 'w \<Rightarrow> string \<times> 'w" where
  "clob_post H base path body hdrs = H (base @ path) ''POST'' body hdrs"

definition clob_get :: "'w curl \<Rightarrow> string \<Rightarrow> string \<Rightarrow> 'w \<Rightarrow> string \<times> 'w" where
  "clob_get H base path = H (base @ path) ''GET'' [] (\<lambda>_. None)"

definition clob_del :: "'w curl \<Rightarrow> string \<Rightarrow> string \<Rightarrow> headers \<Rightarrow> 'w \<Rightarrow> string \<times> 'w" where
  "clob_del H base path hdrs = H (base @ path) ''DELETE'' [] hdrs"

text \<open>
  Reading the answer to a submit. A throw ends the \<open>try\<close> block: the fields set before it keep their
  values.
\<close>

definition read_submit :: "'j json_lib \<Rightarrow> string \<Rightarrow> submit_result" where
  "read_submit J resp =
     (let r0 = \<lparr>sr_success = False, sr_order_id = [], sr_error = []\<rparr>
      in if resp = [] then r0\<lparr>sr_error := ''no response''\<rparr>
         else case j_parse J resp of
           Inl e \<Rightarrow> r0\<lparr>sr_error := exn_what e\<rparr>
         | Inr j \<Rightarrow>
             (case j_value_bool J j ''success'' False of
                Inl e \<Rightarrow> r0\<lparr>sr_error := exn_what e\<rparr>
              | Inr ok \<Rightarrow>
                  let r1 = r0\<lparr>sr_success := ok\<rparr>
                  in case j_value_string J j ''orderID'' [] of
                       Inl e \<Rightarrow> r1\<lparr>sr_error := exn_what e\<rparr>
                     | Inr oid \<Rightarrow>
                         let r2 = r1\<lparr>sr_order_id := oid\<rparr>
                         in if ok then r2
                            else case j_value_string J j ''errorMsg'' ''unknown error'' of
                                   Inl e \<Rightarrow> r2\<lparr>sr_error := exn_what e\<rparr>
                                 | Inr m \<Rightarrow> r2\<lparr>sr_error := m\<rparr>))"

lemma read_submit_empty: "read_submit J [] = \<lparr>sr_success = False, sr_order_id = [], sr_error = ''no response''\<rparr>"
  by (simp add: read_submit_def)

definition submit_order ::
  "'j json_lib \<Rightarrow> 'w auth_lib \<Rightarrow> 'w curl \<Rightarrow> string \<Rightarrow> clob_auth \<Rightarrow> order \<Rightarrow> bytes \<Rightarrow> string
     \<Rightarrow> 'w \<Rightarrow> (exn + submit_result) \<times> 'w" where
  "submit_order J A H base au r sig order_type w =
     (let body = build_order_json J r sig (wallet_hex au) order_type
      in case level2_headers A au ''POST'' ''/order'' body w of
           (Inl e, w1) \<Rightarrow> (Inl e, w1)
         | (Inr hdrs, w1) \<Rightarrow>
             (case clob_post H base ''/order'' body hdrs w1 of (resp, w2) \<Rightarrow> (Inr (read_submit J resp), w2)))"

definition cancel_order ::
  "'j json_lib \<Rightarrow> 'w auth_lib \<Rightarrow> 'w curl \<Rightarrow> string \<Rightarrow> clob_auth \<Rightarrow> string \<Rightarrow> 'w \<Rightarrow> (exn + bool) \<times> 'w" where
  "cancel_order J A H base au order_id w =
     (let path = ''/order/'' @ order_id
      in case level2_headers A au ''DELETE'' path [] w of
           (Inl e, w1) \<Rightarrow> (Inl e, w1)
         | (Inr hdrs, w1) \<Rightarrow>
             (case clob_del H base path hdrs w1 of (resp, w2) \<Rightarrow>
                (Inr (resp \<noteq> [] \<and> (case j_parse J resp of Inl _ \<Rightarrow> False
                        | Inr j \<Rightarrow> j_value_bool J j ''success'' False = Inr True)), w2)))"

definition status_state :: "string \<Rightarrow> clob_order_state" where
  "status_state s =
     (if s = ''LIVE'' then OPEN else if s = ''MATCHED'' then MATCHED
      else if s = ''FILLED'' then FILLED else if s = ''CANCELLED'' then CANCELLED else UNKNOWN)"

definition read_status :: "'j json_lib \<Rightarrow> string \<Rightarrow> order_status" where
  "read_status J resp =
     (let t0 = \<lparr>os_state = UNKNOWN, os_size_matched = Fin 0, os_avg_price = Fin 0\<rparr>
      in if resp = [] then t0
         else case sbind (j_parse J resp) (\<lambda>j. sbind (j_value_string J j ''status'' ''UNKNOWN'') (\<lambda>s. Inr (j, s))) of
           Inl _ \<Rightarrow> t0
         | Inr (j, s) \<Rightarrow>
             let t1 = t0\<lparr>os_state := status_state s\<rparr>
             in case sbind (j_value_string J j ''sizeMatched'' ''0'') stod of
                  Inl _ \<Rightarrow> t1
                | Inr m \<Rightarrow>
                    let t2 = t1\<lparr>os_size_matched := m\<rparr>
                    in case sbind (j_value_string J j ''avgPrice'' ''0'') stod of
                         Inl _ \<Rightarrow> t2
                       | Inr p \<Rightarrow> t2\<lparr>os_avg_price := p\<rparr>)"

definition get_status :: "'j json_lib \<Rightarrow> 'w curl \<Rightarrow> string \<Rightarrow> string \<Rightarrow> 'w \<Rightarrow> order_status \<times> 'w" where
  "get_status J H base order_id w =
     (case clob_get H base (''/order/'' @ order_id) w of (resp, w1) \<Rightarrow> (read_status J resp, w1))"

end
