(* ===== verification/Coinbase_Client.thy ===== *)
theory Coinbase_Client
  imports Json_Lib Venue
begin

text \<open>
  The hedge client, \<open>src/execution/coinbase_client.hpp\<close> and \<open>coinbase_client.cpp\<close>: number formats, the
  JWT of a request, the request, the poll for the fill, submit and cancel. OpenSSL, libcurl, the
  clock and the sleeps are the fields of a record \<open>'w cb_lib\<close>.
\<close>

record 'w cb_lib =
  cb_system_ns :: "'w \<Rightarrow> int \<times> 'w"
  cb_rand16 :: "'w \<Rightarrow> bytes \<times> 'w"
  cb_sleep_ms :: "nat \<Rightarrow> 'w \<Rightarrow> 'w"
  bio_b64_decode :: "string \<Rightarrow> bytes"
  ed25519_key :: "bytes \<Rightarrow> bool"
  ed25519_context :: "'w \<Rightarrow> bool \<times> 'w"
  ed25519_init :: "'w \<Rightarrow> bool \<times> 'w"
  ed25519_sign :: "bytes \<Rightarrow> bytes \<Rightarrow> bytes option"
  curl_init :: "'w \<Rightarrow> bool \<times> 'w"
  curl_perform :: "string \<Rightarrow> string \<Rightarrow> string list \<Rightarrow> string \<Rightarrow> 'w \<Rightarrow> string \<times> 'w"

record coinbase_client =
  cb_key_id :: string
  cb_key_secret :: string
  cb_base_url :: string

subsection \<open>Number formats\<close>

text \<open>
  \<open>%.nf\<close> of the C library, which rounds the exact binary value half to even; \<open>snprintf\<close> keeps 31
  characters. The model has no negative zero and no sign of a NaN.
\<close>

definition fixed_text :: "nat \<Rightarrow> rat \<Rightarrow> string" where
  "fixed_text n x =
     (let k = nat (rne (\<bar>x\<bar> * 10 ^ n))
      in (if x < 0 then ''-'' else []) @ show_nat (k div 10 ^ n) @ ''.'' @ pad_zero n (show_nat (k mod 10 ^ n)))"

definition printf_fixed :: "nat \<Rightarrow> f64 \<Rightarrow> string" where
  "printf_fixed n x =
     (case x of NaN \<Rightarrow> ''nan'' | PInf \<Rightarrow> ''inf'' | NInf \<Rightarrow> ''-inf'' | Fin v \<Rightarrow> fixed_text n v)"

definition fmt_qty :: "f64 \<Rightarrow> string" where
  "fmt_qty q = take 31 (printf_fixed 3 (fdiv (ffloor (fmul q (lit 1000))) (lit 1000)))"

definition fmt_price :: "f64 \<Rightarrow> string" where
  "fmt_price p = take 31 (printf_fixed 1 (fdiv (fround (fmul p (lit 10))) (lit 10)))"

subsection \<open>The token of a request\<close>

definition random_hex :: "'w cb_lib \<Rightarrow> 'w \<Rightarrow> string \<times> 'w" where
  "random_hex C w = (case cb_rand16 C w of (b, w1) \<Rightarrow> (hex_body b, w1))"

definition b64_decode :: "'w cb_lib \<Rightarrow> string \<Rightarrow> bytes" where
  "b64_decode C s = bio_b64_decode C (filter (\<lambda>c. \<not> is_space c) s)"

definition jwt_header :: "'j json_lib \<Rightarrow> string \<Rightarrow> string \<Rightarrow> 'j" where
  "jwt_header J key_id hex = j_object J
     [(''alg'', j_text J ''EdDSA''), (''typ'', j_text J ''JWT''), (''kid'', j_text J key_id), (''nonce'', j_text J hex)]"

definition jwt_payload :: "'j json_lib \<Rightarrow> string \<Rightarrow> int \<Rightarrow> string \<Rightarrow> 'j" where
  "jwt_payload J key_id now uri = j_object J
     [(''sub'', j_text J key_id), (''iss'', j_text J ''cdp''), (''aud'', j_array J [j_text J ''cdp_service'']),
      (''nbf'', j_number J now), (''exp'', j_number J (now + 120)), (''uri'', j_text J uri)]"

definition build_jwt ::
  "'j json_lib \<Rightarrow> 'w cb_lib \<Rightarrow> coinbase_client \<Rightarrow> string \<Rightarrow> string \<Rightarrow> 'w \<Rightarrow> (exn + string) \<times> 'w" where
  "build_jwt J C c meth path w =
     (case cb_system_ns C w of (ns, w1) \<Rightarrow>
        let now = ns sdiv 1000000000; key = b64_decode C (cb_key_secret c)
        in if length key < 32
           then (Inl (Runtime_Error (''coinbase_client: key secret too short after base64 decode - expected >=32 bytes, got ''
                   @ show_nat (length key))), w1)
           else if \<not> ed25519_key C (take 32 key)
           then (Inl (Runtime_Error ''coinbase_client: EVP_PKEY_new_raw_private_key failed''), w1)
           else case random_hex C w1 of (hex, w2) \<Rightarrow>
             let signing_input = base64url_encode (str_bytes (j_dump J (jwt_header J (cb_key_id c) hex))) @ ''.''
                   @ base64url_encode (str_bytes (j_dump J (jwt_payload J (cb_key_id c) now (meth @ '' api.coinbase.com'' @ path))))
             in case ed25519_context C w2 of (ctx, w3) \<Rightarrow>
                if \<not> ctx then (Inl (Runtime_Error ''coinbase_client: EVP_PKEY_CTX_new failed''), w3)
                else case ed25519_init C w3 of (ok, w4) \<Rightarrow>
                if \<not> ok then (Inl (Runtime_Error ''coinbase_client: EVP_PKEY_sign_init failed''), w4)
                else case ed25519_sign C (take 32 key) (str_bytes signing_input) of
                  None \<Rightarrow> (Inl (Runtime_Error ''coinbase_client: EVP_PKEY_sign failed''), w4)
                | Some sig \<Rightarrow> (Inr (signing_input @ ''.'' @ base64url_encode sig), w4))"

definition http_request ::
  "'j json_lib \<Rightarrow> 'w cb_lib \<Rightarrow> coinbase_client \<Rightarrow> string \<Rightarrow> string \<Rightarrow> string \<Rightarrow> 'w \<Rightarrow> string \<times> 'w" where
  "http_request J C c meth path body w =
     (case curl_init C w of (ok, w1) \<Rightarrow>
        if \<not> ok then ([], w1)
        else case build_jwt J C c meth path w1 of
          (Inl _, w2) \<Rightarrow> ([], w2)
        | (Inr jwt, w2) \<Rightarrow>
            curl_perform C meth (cb_base_url c @ path)
              [''Authorization: Bearer '' @ jwt, ''Content-Type: application/json'']
              (if meth = ''POST'' then body else []) w2)"

subsection \<open>Orders\<close>

definition hedge_failure :: "string \<Rightarrow> string \<Rightarrow> hedge_result" where
  "hedge_failure oid err = \<lparr>hr_success = False, hr_order_id = oid, hr_executed_qty = Fin 0, hr_avg_price = Fin 0, hr_error = err\<rparr>"

text \<open>
  The answer to one poll: \<open>None\<close> when the order is still settling. Every throw of the \<open>try\<close> block comes
  before a field is set.
\<close>

definition read_fill :: "'j json_lib \<Rightarrow> string \<Rightarrow> string \<Rightarrow> hedge_result option" where
  "read_fill J oid resp =
     (if resp = [] then Some (hedge_failure oid ''no response from get_order'')
      else case sbind (j_parse J resp) (\<lambda>j.
        if \<not> j_contains J j ''order'' then Inr (Some (hedge_failure oid resp))
        else sbind (j_at J j ''order'') (\<lambda>ord.
          sbind (j_value_string J ord ''status'' []) (\<lambda>status.
            if status = ''OPEN'' \<or> status = ''PENDING'' then Inr None
            else sbind (j_value_string J ord ''filled_size'' ''0'') (\<lambda>filled_s.
                 sbind (j_value_string J ord ''average_filled_price'' ''0'') (\<lambda>price_s.
                 sbind (if filled_s = [] then Inr (Fin 0) else stod filled_s) (\<lambda>filled.
                 sbind (if price_s = [] then Inr (Fin 0) else stod price_s) (\<lambda>price.
                   Inr (Some (if flt (Fin 0) filled
                              then \<lparr>hr_success = True, hr_order_id = oid, hr_executed_qty = filled, hr_avg_price = price, hr_error = []\<rparr>
                              else hedge_failure oid (''order not filled (status='' @ status @ '')''))))))))))
      of Inl e \<Rightarrow> Some (hedge_failure oid (exn_what e)) | Inr r \<Rightarrow> r)"

fun poll_attempts ::
  "'j json_lib \<Rightarrow> 'w cb_lib \<Rightarrow> coinbase_client \<Rightarrow> string \<Rightarrow> nat \<Rightarrow> 'w \<Rightarrow> hedge_result \<times> 'w" where
  "poll_attempts J C c oid 0 w = (hedge_failure oid ''order still pending after retries'', w)"
| "poll_attempts J C c oid (Suc n) w =
     (case http_request J C c ''GET'' (''/api/v3/brokerage/orders/'' @ oid) [] w of (resp, w1) \<Rightarrow>
        case read_fill J oid resp of
          Some r \<Rightarrow> (r, w1)
        | None \<Rightarrow> poll_attempts J C c oid n (cb_sleep_ms C 50 w1))"

definition poll_fill ::
  "'j json_lib \<Rightarrow> 'w cb_lib \<Rightarrow> coinbase_client \<Rightarrow> string \<Rightarrow> 'w \<Rightarrow> hedge_result \<times> 'w" where
  "poll_fill J C c oid w = poll_attempts J C c oid 3 (cb_sleep_ms C 30 w)"

definition COINBASE_HEDGE_SYMBOL :: string where
  "COINBASE_HEDGE_SYMBOL = ''BIP-20DEC30-CDE''"

definition order_configuration :: "'j json_lib \<Rightarrow> f64 \<Rightarrow> f64 \<Rightarrow> 'j" where
  "order_configuration J quantity price =
     (if fle price (Fin 0)
      then j_object J [(''market_market_ioc'', j_object J [(''base_size'', j_text J (fmt_qty quantity))])]
      else j_object J [(''sor_limit_ioc'', j_object J [(''base_size'', j_text J (fmt_qty quantity)),
                                                     (''limit_price'', j_text J (fmt_price price))])])"

text \<open>The answer to a submit: an error text, or the id the server gave the order.\<close>

definition rejection :: "'j json_lib \<Rightarrow> 'j \<Rightarrow> exn + string" where
  "rejection J j =
     (if j_contains J j ''error_response''
      then sbind (j_at J j ''error_response'') (\<lambda>er.
           sbind (j_value_string J er ''error'' ''order rejected'') (\<lambda>d. j_value_string J er ''message'' d))
      else j_value_string J j ''failure_reason'' ''order rejected'')"

definition assigned_id :: "'j json_lib \<Rightarrow> 'j \<Rightarrow> exn + string" where
  "assigned_id J j =
     sbind (j_value_string J j ''order_id'' []) (\<lambda>oid.
       if oid = [] \<and> j_contains J j ''success_response''
       then sbind (j_at J j ''success_response'') (\<lambda>sr. j_value_string J sr ''order_id'' [])
       else Inr oid)"

definition read_create :: "'j json_lib \<Rightarrow> string \<Rightarrow> exn + (string + string)" where
  "read_create J resp =
     sbind (j_parse J resp) (\<lambda>j.
     sbind (j_value_bool J j ''success'' False) (\<lambda>ok.
       if \<not> ok then sbind (rejection J j) (\<lambda>m. Inr (Inl m))
       else sbind (assigned_id J j) (\<lambda>oid. Inr (if oid = [] then Inl ''no order_id in response'' else Inr oid))))"

definition hedge_order ::
  "'j json_lib \<Rightarrow> 'w cb_lib \<Rightarrow> coinbase_client \<Rightarrow> string \<Rightarrow> f64 \<Rightarrow> f64 \<Rightarrow> 'w \<Rightarrow> hedge_result \<times> 'w" where
  "hedge_order J C c sd quantity price w =
     (case random_hex C w of (cid, w1) \<Rightarrow>
        let body = j_object J [(''client_order_id'', j_text J cid), (''product_id'', j_text J COINBASE_HEDGE_SYMBOL),
                     (''side'', j_text J sd), (''order_configuration'', order_configuration J quantity price)]
        in case http_request J C c ''POST'' ''/api/v3/brokerage/orders'' (j_dump J body) w1 of (resp, w2) \<Rightarrow>
           if resp = [] then (hedge_failure [] ''no response'', w2)
           else case read_create J resp of
             Inl e \<Rightarrow> (hedge_failure [] (exn_what e), w2)
           | Inr (Inl m) \<Rightarrow> (hedge_failure [] m, w2)
           | Inr (Inr oid) \<Rightarrow>
               (case poll_fill J C c oid w2 of (r, w3) \<Rightarrow> (if hr_success r then r else r\<lparr>hr_order_id := oid\<rparr>, w3)))"

definition hedge_cancel_order ::
  "'j json_lib \<Rightarrow> 'w cb_lib \<Rightarrow> coinbase_client \<Rightarrow> string \<Rightarrow> 'w \<Rightarrow> bool \<times> 'w" where
  "hedge_cancel_order J C c oid w =
     (let body = j_object J [(''order_ids'', j_array J [j_text J oid])]
      in case http_request J C c ''POST'' ''/api/v3/brokerage/orders/batch_cancel'' (j_dump J body) w of (resp, w1) \<Rightarrow>
         (resp \<noteq> [] \<and>
          sbind (j_parse J resp) (\<lambda>j.
            if j_contains J j ''results''
            then sbind (j_at J j ''results'') (\<lambda>rs.
              if j_items J rs = [] then Inr False
              else sbind (j_nth J rs 0) (\<lambda>r. j_value_bool J r ''success'' False))
            else Inr False) = Inr True, w1))"


subsection \<open>The size of a hedge order\<close>

text \<open>The thousandths of a bitcoin the client sends for a quantity.\<close>

definition sent_thousandths :: "rat \<Rightarrow> nat" where
  "sent_thousandths r = nat \<lfloor>rnd (r * 1000)\<rfloor>"

lemma length_fixed:
  assumes "k < 10 ^ 12"
  shows "length (show_nat (k div 1000) @ ''.'' @ pad_zero 3 (show_nat (k mod 1000))) \<le> 31"
proof -
  have "k div 1000 < 10 ^ 9" using assms by (simp add: div_less_iff_less_mult)
  then have "length (show_nat (k div 1000)) \<le> 9" by (rule length_show_nat_le) simp
  moreover have "length (pad_zero 3 (show_nat (k mod 1000))) = 3"
    by (intro length_pad_zero length_show_nat_le) simp_all
  ultimately show ?thesis by simp
qed

lemma fixed_of_thousandths:
  assumes "k < 10 ^ 12"
  shows "take 31 (printf_fixed 3 (fdiv (Fin (of_nat k)) (lit 1000)))
    = show_nat (k div 1000) @ ''.'' @ pad_zero 3 (show_nat (k mod 1000))"
proof -
  let ?q = "of_nat k / 1000 :: rat"
  have k: "(of_nat k :: rat) < 10 ^ 12" using assms by (metis of_nat_less_iff of_nat_numeral of_nat_power)
  have big: "(10 ^ 12 :: rat) \<le> pow2 1023" "pow2 (- 53) = 1 / 2 ^ 53" by (simp_all add: pow2_def)
  have q: "fdiv (Fin (of_nat k)) (lit 1000) = Fin (rnd ?q)"
    using fl_small [of ?q] k big by (simp add: lit_numeral)
  have "rne (\<bar>rnd ?q\<bar> * 10 ^ 3) = int k"
  proof (cases "k = 0")
    case False
    then have "1 / 1000 \<le> ?q" by simp
    moreover have "pow2 (- 1022) \<le> 1 / 1000"
    proof -
      have "pow2 (- 1022) \<le> pow2 (- 10)" by simp
      also have "\<dots> \<le> 1 / 1000" by (simp add: pow2_def)
      finally show ?thesis .
    qed
    ultimately have "\<bar>rnd ?q - ?q\<bar> \<le> \<bar>?q\<bar> * pow2 (- 53)" by (intro rnd_rel_error) auto
    then have e: "\<bar>rnd ?q - ?q\<bar> * 1000 \<le> of_nat k / 2 ^ 53" unfolding big by (simp add: field_simps)
    have "of_nat k / 2 ^ 53 < (1 / 2 :: rat)" using k by simp
    moreover have "rnd ?q * 1000 - of_nat k = (rnd ?q - ?q) * 1000" by (simp add: algebra_simps)
    then have "\<bar>rnd ?q * 1000 - of_nat k\<bar> = \<bar>(rnd ?q - ?q) * 1000\<bar>" by (simp only:)
    then have "\<bar>rnd ?q * 1000 - of_nat k\<bar> = \<bar>rnd ?q - ?q\<bar> * 1000" by (simp only: abs_mult abs_numeral)
    ultimately have "\<bar>rnd ?q * 1000 - of_int (int k)\<bar> < 1 / 2" using e by simp
    moreover have "0 \<le> rnd ?q" by (rule rnd_nonneg) simp
    ultimately show ?thesis by (intro rne_eqI) simp
  next
    case True
    then show ?thesis using rne_of_int [of 0] by simp
  qed
  moreover have "\<not> rnd ?q < 0" using rnd_nonneg [of ?q] by simp
  ultimately have "printf_fixed 3 (fdiv (Fin (of_nat k)) (lit 1000))
      = show_nat (k div 1000) @ ''.'' @ pad_zero 3 (show_nat (k mod 1000))"
    unfolding q printf_fixed_def fixed_text_def by (simp add: Let_def)
  then show ?thesis using length_fixed [OF assms] by simp
qed

lemma hedge_minimum: "lit (1 / 1000) = Fin (4611686018427388 / 2 ^ 62)"
proof -
  have "fl (1 / 1000) = Fin (of_int 4611686018427388 * pow2 (- 10 - 52))"
    by (rule fl_eqI) (simp_all add: pow2_def)
  then show ?thesis by (simp add: lit_def pow2_def)
qed

text \<open>
  The size of a hedge order. For a quantity of at least the 0.001 BTC the arms ask for (and at most
  a million), the text sent to the exchange is a decimal with three digits that stands for at least
  one thousandth and agrees with the quantity rounded down, up to one rounding of the product: the
  order never has the size zero and never exceeds the hedge by more than that rounding.
\<close>

theorem hedge_size_text:
  assumes "fle (lit (1 / 1000)) (Fin r)" and "r \<le> 1000000"
  shows "let k = sent_thousandths r in
      fmt_qty (Fin r) = show_nat (k div 1000) @ ''.'' @ pad_zero 3 (show_nat (k mod 1000))
      \<and> 1 \<le> k \<and> of_nat k \<le> r * 1000 * (1 + pow2 (- 53)) \<and> r * 1000 * (1 - pow2 (- 53)) < of_nat k + 1"
proof -
  let ?x = "rnd (r * 1000)"
  have r: "1 / 1000 \<le> r" using assms(1) by (simp add: hedge_minimum)
  then have x1: "1 \<le> ?x" using rnd_mono [of 1 "r * 1000"] rnd_of_int [of 1] by simp
  have "?x \<le> rnd (of_int 1000000000)" using assms(2) by (intro rnd_mono) simp
  also have "\<dots> = 1000000000" by (subst rnd_of_int) simp_all
  finally have x2: "?x \<le> 1000000000" .
  define k where "k = sent_thousandths r"
  have f: "0 \<le> \<lfloor>?x\<rfloor>" "1 \<le> \<lfloor>?x\<rfloor>" "\<lfloor>?x\<rfloor> < 10 ^ 12" using x1 x2 by (linarith, linarith, simp add: floor_less_iff)
  then have k: "of_nat k = (of_int \<lfloor>?x\<rfloor> :: rat)" "1 \<le> k" "k < 10 ^ 12"
    unfolding k_def sent_thousandths_def by (simp_all add: nat_less_iff le_nat_iff)
  have "(1000000000 :: rat) \<le> pow2 1023" by (simp add: pow2_def)
  then have "fl (r * 1000) = Fin ?x" using assms(2) r by (intro fl_small) simp
  then have "fmt_qty (Fin r) = take 31 (printf_fixed 3 (fdiv (Fin (of_nat k)) (lit 1000)))"
    by (simp add: fmt_qty_def lit_numeral k(1))
  then have t: "fmt_qty (Fin r) = show_nat (k div 1000) @ ''.'' @ pad_zero 3 (show_nat (k mod 1000))"
    using fixed_of_thousandths [OF k(3)] by simp
  have "pow2 (- 1022) \<le> pow2 0" by (simp only: pow2_le_iff)
  then have "pow2 (- 1022) \<le> 1" by (simp only: pow2_0)
  then have "pow2 (- 1022) \<le> \<bar>r * 1000\<bar>" using r by simp
  from rnd_rel_error [OF this] have e: "\<bar>?x - r * 1000\<bar> \<le> r * 1000 * pow2 (- 53)" using r by simp
  have fx: "of_int \<lfloor>?x\<rfloor> \<le> ?x" "?x < of_int \<lfloor>?x\<rfloor> + 1" by linarith+
  have "of_nat k \<le> r * 1000 * (1 + pow2 (- 53))" "r * 1000 * (1 - pow2 (- 53)) < of_nat k + 1"
    unfolding k(1) distrib_left right_diff_distrib mult_1_right using e fx unfolding abs_le_iff by linarith+
  then show ?thesis using t k(2) by (simp add: k_def [symmetric] Let_def)
qed

theorem hedge_size_text_witness:
  "fmt_qty (Fin (5 / 4)) = ''1.250'' \<and> sent_thousandths (5 / 4) = 1250"
proof -
  have "rnd (of_int 1250) = 1250" by (subst rnd_of_int) simp_all
  then have k: "sent_thousandths (5 / 4) = 1250" by (simp add: sent_thousandths_def)
  have "fle (lit (1 / 1000)) (Fin (5 / 4))" by (simp add: hedge_minimum)
  moreover have "show_nat 1 @ ''.'' @ pad_zero 3 (show_nat 250) = ''1.250''" by code_simp
  ultimately show ?thesis using hedge_size_text [of "5 / 4"] k by (simp add: Let_def)
qed


subsection \<open>What a hedge result says\<close>

definition hedge_sound :: "hedge_result \<Rightarrow> bool" where
  "hedge_sound r \<longleftrightarrow>
     (if hr_success r then flt (Fin 0) (hr_executed_qty r) \<and> hr_error r = []
      else hr_executed_qty r = Fin 0 \<and> hr_avg_price r = Fin 0)"

lemma hedge_failure_sound [simp]: "hedge_sound (hedge_failure oid e)" "hr_order_id (hedge_failure oid e) = oid"
  "\<not> hr_success (hedge_failure oid e)"
  by (simp_all add: hedge_sound_def hedge_failure_def)

lemma read_fill_sound: "read_fill J oid resp = Some r \<Longrightarrow> hedge_sound r \<and> hr_order_id r = oid"
  unfolding read_fill_def
  by (auto simp: sbind_def hedge_sound_def hedge_failure_def split: if_splits sum.splits)

lemma poll_sound: "poll_attempts J C c oid n w = (r, w') \<Longrightarrow> hedge_sound r \<and> hr_order_id r = oid"
  by (induction n arbitrary: w) (auto split: prod.splits option.splits dest!: read_fill_sound)

lemma read_create_id: "read_create J resp = Inr (Inr oid) \<Longrightarrow> oid \<noteq> []"
  by (auto simp: read_create_def sbind_def split: sum.splits if_splits)

text \<open>
  What a hedge result says. Whatever the exchange answers and wherever an answer fails to parse, a
  result that reports success has a positive executed quantity, the order id the exchange assigned
  and no error, and one that reports failure has executed nothing: the arms never see a filled hedge
  without a quantity or a failed one with a quantity.
\<close>

theorem hedge_result_sound:
  "let r = fst (hedge_order J C c sd q p w)
   in if hr_success r then flt (Fin 0) (hr_executed_qty r) \<and> hr_order_id r \<noteq> [] \<and> hr_error r = []
      else hr_executed_qty r = Fin 0 \<and> hr_avg_price r = Fin 0"
proof -
  obtain r w' where h: "hedge_order J C c sd q p w = (r, w')" by fastforce
  have "hedge_sound r \<and> (if hr_success r then hr_order_id r \<noteq> [] else True)"
    using h unfolding hedge_order_def Let_def poll_fill_def
    by (auto split: prod.splits if_splits sum.splits dest!: poll_sound read_create_id)
  then show ?thesis using h by (auto simp: hedge_sound_def Let_def)
qed

end
