(* ===== verification/Http_Venue.thy ===== *)
theory Http_Venue
  imports Clob_Client Coinbase_Client Osm_Safety
begin

text \<open>
  The venue the arms really trade on: the two REST clients of \<open>src/execution/\<close> with the session of
  \<open>src/wallet/clob_auth.cpp\<close> and the key of \<open>src/wallet/key_manager.cpp\<close>, put together as the constructor
  of \<open>src/execution/order_state_machine.cpp\<close> does.
\<close>

text \<open>\<open>random_salt\<close>: what opening and reading \<open>/dev/urandom\<close> give.\<close>

definition random_salt :: "('w \<Rightarrow> bool \<times> 'w) \<Rightarrow> (nat \<Rightarrow> 'w \<Rightarrow> bytes \<times> 'w) \<Rightarrow> 'w \<Rightarrow> (exn + uint256) \<times> 'w" where
  "random_salt uopen uread w =
     (case uopen w of (ok, w1) \<Rightarrow>
        if \<not> ok then (Inl (Runtime_Error ''eip712: cannot open /dev/urandom''), w1)
        else case uread 32 w1 of (b, w2) \<Rightarrow>
          if length b \<noteq> 32 then (Inl (Runtime_Error ''eip712: /dev/urandom read failed''), w2)
          else (Inr b, w2))"

record ('j, 'w, 'k) bot_libs =
  bl_json :: "'j json_lib"
  bl_auth :: "'w auth_lib"
  bl_key :: "'k key_lib"
  bl_curl :: "'w curl"
  bl_cb :: "'w cb_lib"
  bl_steady_ns :: "'w \<Rightarrow> int \<times> 'w"
  bl_urandom_open :: "'w \<Rightarrow> bool \<times> 'w"
  bl_urandom_read :: "nat \<Rightarrow> 'w \<Rightarrow> bytes \<times> 'w"

definition DEFAULT_COINBASE_URL :: string where
  "DEFAULT_COINBASE_URL = ''https://api.coinbase.com''"

definition hedge_client :: "'k key_manager \<Rightarrow> coinbase_client" where
  "hedge_client km = \<lparr>cb_key_id = coinbase_key_id km, cb_key_secret = coinbase_key_secret km,
     cb_base_url = DEFAULT_COINBASE_URL\<rparr>"

definition http_venue :: "('j, 'w, 'k) bot_libs \<Rightarrow> 'k key_manager \<Rightarrow> clob_auth \<Rightarrow> 'w venue" where
  "http_venue B km au =
     \<lparr>v_system_ns = au_system_ns (bl_auth B), v_steady_ns = bl_steady_ns B,
      v_salt = random_salt (bl_urandom_open B) (bl_urandom_read B),
      v_wallet = wallet_address km,
      v_sign = (\<lambda>d w. (km_sign (bl_key B) km d, w)),
      v_submit = submit_order (bl_json B) (bl_auth B) (bl_curl B) DEFAULT_CLOB_URL au,
      v_cancel = cancel_order (bl_json B) (bl_auth B) (bl_curl B) DEFAULT_CLOB_URL au,
      v_status = get_status (bl_json B) (bl_curl B) DEFAULT_CLOB_URL,
      v_hedge = hedge_order (bl_json B) (bl_cb B) (hedge_client km),
      v_hedge_cancel = hedge_cancel_order (bl_json B) (bl_cb B) (hedge_client km)\<rparr>"

subsection \<open>When no client call throws\<close>

text \<open>
  What start-up established and the libraries do in ordinary operation: the key is loaded, the
  session has credentials whose secret decodes, HMAC and the curve library give results, and the
  random device can be read.
\<close>

definition session_ready :: "('j, 'w, 'k) bot_libs \<Rightarrow> 'k key_manager \<Rightarrow> clob_auth \<Rightarrow> bool" where
  "session_ready B km au \<longleftrightarrow>
     km_loaded km \<and> (\<forall>d. secp_sign (bl_key B) d (key_of km) \<noteq> None)
     \<and> (case ca_creds au of None \<Rightarrow> False | Some c \<Rightarrow> \<not> isl (b64url_decode (bl_auth B) (api_secret c)))
     \<and> (\<forall>k m. hmac_lib (bl_auth B) k m \<noteq> None)
     \<and> (\<forall>w. fst (bl_urandom_open B w)) \<and> (\<forall>w. length (fst (bl_urandom_read B 32 w)) = 32)"

lemma sign_ready: "session_ready B km au \<Longrightarrow> \<not> isl (km_sign (bl_key B) km d)"
  unfolding session_ready_def km_sign_def by (auto split: option.splits)

lemma headers_ready:
  assumes "session_ready B km au"
  shows "\<exists>h w'. level2_headers (bl_auth B) au meth path body w = (Inr h, w')"
proof -
  have s: "case ca_creds au of None \<Rightarrow> False | Some c \<Rightarrow> \<not> isl (b64url_decode (bl_auth B) (api_secret c))"
    using assms unfolding session_ready_def by blast
  then obtain c where c: "ca_creds au = Some c" by (cases "ca_creds au") auto
  with s have "\<not> isl (b64url_decode (bl_auth B) (api_secret c))" by simp
  then obtain k where k: "b64url_decode (bl_auth B) (api_secret c) = Inr k" by (cases "b64url_decode (bl_auth B) (api_secret c)") auto
  obtain ns w' where n: "au_system_ns (bl_auth B) w = (ns, w')" by fastforce
  have h: "hmac_lib (bl_auth B) k m \<noteq> None" for m using assms unfolding session_ready_def by blast
  have "\<exists>d. hmac_sha256 (bl_auth B) k msg = Inr d" for msg
    using h [of "str_bytes msg"] unfolding hmac_sha256_def by (cases "hmac_lib (bl_auth B) k (str_bytes msg)") auto
  then obtain d where "hmac_sha256 (bl_auth B) k (timestamp_text ns @ meth @ path @ normalised_body body) = Inr d" by blast
  then show ?thesis
    by (simp only: level2_headers_def c k n option.case prod.case Let_def sbind_simps) blast
qed

lemma calm_http: "session_ready B km au \<Longrightarrow> calm (http_venue B km au)"
proof -
  assume r: "session_ready B km au"
  have "\<not> isl (fst (random_salt (bl_urandom_open B) (bl_urandom_read B) w))" for w
    using r unfolding session_ready_def random_salt_def by (auto split: prod.splits) (metis fst_conv)+
  moreover have "\<not> isl (fst (submit_order (bl_json B) (bl_auth B) (bl_curl B) DEFAULT_CLOB_URL au q g t w))" for q g t w
    using headers_ready [OF r, of "''POST''" "''/order''" "build_order_json (bl_json B) q g (wallet_hex au) t" w]
    by (auto simp: submit_order_def Let_def split: prod.splits)
  moreover have "\<not> isl (fst (cancel_order (bl_json B) (bl_auth B) (bl_curl B) DEFAULT_CLOB_URL au i w))" for i w
    using headers_ready [OF r, of "''DELETE''" "''/order/'' @ i" "[]" w]
    by (auto simp: cancel_order_def Let_def split: prod.splits)
  ultimately show "calm (http_venue B km au)"
    using sign_ready [OF r] by (simp add: calm_def http_venue_def)
qed

text \<open>
  C15. No order machine ends the process. With the key loaded, a session whose secret decodes,
  working HMAC, curve and random libraries, and a market whose token id is a decimal number below
  2^256, any number of turns of a machine over the REST clients returns, whatever the exchanges
  answer: malformed JSON, empty answers and rejections never become an exception that leaves the
  \<open>noexcept\<close> loop.
\<close>

lemma returns_run_turns:
  "calm V \<Longrightarrow> parse_token_id (token_id c) = Inr v \<Longrightarrow> returns (run_turns V c n)"
  by (induction n) (auto intro!: total)

theorem machine_survives_exceptions:
  assumes "session_ready B km au" and "parse_token_id (token_id c) = Inr v"
  shows "\<exists>go s'. run_turns (http_venue B km au) c n s = (Inr go, s')"
  using returnsE [OF returns_run_turns [OF calm_http [OF assms(1)] assms(2)]] by blast


subsection \<open>A concrete session\<close>

text \<open>Constant libraries: every exchange answers nothing, every signature is zero.\<close>

definition silent_auth :: "unit auth_lib" where
  "silent_auth =
     \<lparr>au_system_ns = Pair 1000000000, au_http_post = (\<lambda>_ _ _. Pair (Inr (200, []))), au_http_get = (\<lambda>_ _. Pair (Inr (200, []))),
      evp_encode_block = (\<lambda>_. []), evp_decode_block = (\<lambda>_. Some []), hmac_lib = (\<lambda>_ _. Some (replicate 32 0))\<rparr>"

definition silent_key :: "unit key_lib" where
  "silent_key =
     \<lparr>file_size = (\<lambda>_. Pair (Some 45)), file_read = (\<lambda>_ n. Pair (Some (replicate n 0))), read_passphrase = Pair [],
      pbkdf2_hmac = (\<lambda>_ _ _ _. Some (replicate 32 0)), gcm_context = Pair True, gcm_init = (\<lambda>_ _. True),
      gcm_update = (\<lambda>_ _ _. Some []), gcm_set_tag = (\<lambda>_. True), gcm_final = (\<lambda>_ _ _ _. Some []), page_alloc = Pair True,
      page_lock = Pair True, rand_bytes = (\<lambda>n. Pair (Some (replicate n 0))), secp_context = Pair True,
      secp_verify = (\<lambda>_. True), secp_pubkey = (\<lambda>_. Some (replicate 65 4)), secp_sign = (\<lambda>_ _. Some (replicate 64 0, 0))\<rparr>"

definition silent_cb :: "unit cb_lib" where
  "silent_cb =
     \<lparr>cb_system_ns = Pair 1000000000, cb_rand16 = Pair (replicate 16 0), cb_sleep_ms = (\<lambda>_ w. w),
      bio_b64_decode = (\<lambda>_. replicate 64 0), ed25519_key = (\<lambda>_. True), ed25519_context = Pair True,
      ed25519_init = Pair True, ed25519_sign = (\<lambda>_ _. Some (replicate 64 0)), curl_init = Pair True,
      curl_perform = (\<lambda>_ _ _ _. Pair [])\<rparr>"

definition silent_libs :: "(jv, unit, unit) bot_libs" where
  "silent_libs =
     \<lparr>bl_json = table_json [], bl_auth = silent_auth, bl_key = silent_key, bl_curl = (\<lambda>_ _ _ _. Pair []), bl_cb = silent_cb,
      bl_steady_ns = Pair 1000000000, bl_urandom_open = Pair True, bl_urandom_read = (\<lambda>n. Pair (replicate n 7))\<rparr>"

definition held_key :: "unit key_manager" where
  "held_key = (new_key_manager ())\<lparr>km_loaded := True, privkey := Some (replicate 32 1), wallet_address := replicate 20 1\<rparr>"

definition open_session :: clob_auth where
  "open_session = \<lparr>ca_host = DEFAULT_CLOB_URL, wallet_hex = address_to_hex (replicate 20 1),
     ca_creds = Some \<lparr>api_key = ''k'', api_secret = [], api_passphrase = ''p''\<rparr>\<rparr>"

lemma silent_ready: "session_ready silent_libs held_key open_session"
proof -
  have "b64url_decode silent_auth [] = Inr []" by (simp add: b64url_decode_def pad4_def silent_auth_def trailing_pads_def)
  then show ?thesis
    by (simp add: session_ready_def silent_libs_def held_key_def open_session_def silent_auth_def silent_key_def)
qed

theorem machine_survives_exceptions_witness:
  "session_ready silent_libs held_key open_session
   \<and> (\<exists>go s'. run_turns (http_venue silent_libs held_key open_session) sample_market 3 (new_osm initial_shared) = (Inr go, s'))"
  using machine_survives_exceptions [OF silent_ready token_sample, of 3 "new_osm initial_shared"] silent_ready by simp

end
