(* ===== verification/Bot.thy ===== *)
theory Bot
  imports Scanner_Safety Watchdog Bayes_Engine Osm_Safety Http_Venue Nonce_Manager
begin

text \<open>
  The program, \<open>src/main.cpp\<close>: the map from markets to order machines and its synchronisation with the
  scanner, the deadline callbacks, the flatten callback of the watchdog, the configuration of the
  engine, and the main loop. The state \<open>('x, 'w) bot\<close> is what the callbacks act on, so it is the world
  of the scanner and of the watchdog; \<open>outside\<close> is what the network and the clocks act on. A thread is
  a flag that says whether it is joinable; \<open>retired\<close> keeps the machines that were removed.
\<close>

record 'w machine =
  m_config :: osm_config
  m_osm :: "'w osm"

record ('x, 'w) bot =
  outside :: 'x
  osm_map :: "(string \<times> 'w machine) list"
  osm_threads :: "(string \<times> bool) list"
  retired :: "(string \<times> 'w machine) list"

definition to_hex_address :: "address \<Rightarrow> string" where
  "to_hex_address a = ''0x'' @ concat (map (\<lambda>b. [HEX_CHARS ! unat (drop_bit 4 b), HEX_CHARS ! unat (b AND 0xf)]) a)"

text \<open>The shared state at startup: 5 times the initial exposure cap as bankroll.\<close>

definition seeded_state :: shared_state where
  "seeded_state = initial_shared\<lparr>bankroll_usdc := fmul (to_double RAMP_MAX_TOTAL_EXPOSURE_USDC) (lit 5)\<rparr>"

subsection \<open>Machines\<close>

text \<open>The configuration of a market's machine; the two maker parameters have their defaults.\<close>

definition machine_config :: "active_market \<Rightarrow> osm_config" where
  "machine_config am =
     osm_config.make (active_market.condition_id am) (token_id_yes am) (active_market.strike_price am)
       (active_market.resolution_us am) (active_market.is_above am) (lit (5 / 1000)) MAX_MAKER_QUOTE_USDC"

definition fresh_osm :: "'w \<Rightarrow> u64 \<Rightarrow> shared_state \<Rightarrow> 'w osm" where
  "fresh_osm w n sh =
     \<lparr>world = w, calls = [], next_nonce = n, ss = sh, last_entry = 0, bid_order_id = [], ask_order_id = [],
      quoted_mid = Fin 0, quoted_fair = Fin 0, quote_time = 0, pos = new_position_manager, st = IDLE,
      stop_flag = False, flatten_flag = False, entries_stopped = False, quotes_cancelled = False,
      positions_closed = False, force_closed = False, close_poly_order_id = [], close_coinbase_order_id = []\<rparr>"

definition add_machine ::
  "'w \<Rightarrow> u64 \<Rightarrow> shared_state \<Rightarrow> string \<times> active_market \<Rightarrow> ('x, 'w) bot \<Rightarrow> ('x, 'w) bot" where
  "add_machine w n sh = (\<lambda>(cid, am) b.
     if cid \<in> set (map fst (osm_map b)) then b
     else b\<lparr>osm_map := osm_map b @ [(cid, \<lparr>m_config = machine_config am, m_osm = fresh_osm w n sh\<rparr>)],
            osm_threads := osm_threads b @ [(cid, True)]\<rparr>)"

definition on_machine :: "('w osm \<Rightarrow> 'w osm) \<Rightarrow> 'w machine \<Rightarrow> 'w machine" where
  "on_machine f m = m\<lparr>m_osm := f (m_osm m)\<rparr>"

definition stop_missing :: "string set \<Rightarrow> ('x, 'w) bot \<Rightarrow> ('x, 'w) bot" where
  "stop_missing live b =
     b\<lparr>osm_map := map (\<lambda>(cid, m). (cid, if cid \<in> live then m else on_machine stop m)) (osm_map b)\<rparr>"

definition to_clean :: "string set \<Rightarrow> ('x, 'w) bot \<Rightarrow> string list" where
  "to_clean live b = filter (\<lambda>cid. cid \<notin> live) (map fst (osm_map b))"

definition remove_machine :: "string \<Rightarrow> ('x, 'w) bot \<Rightarrow> ('x, 'w) bot" where
  "remove_machine cid b =
     b\<lparr>osm_threads := filter (\<lambda>(k, _). k \<noteq> cid) (osm_threads b),
       osm_map := filter (\<lambda>(k, _). k \<noteq> cid) (osm_map b),
       retired := retired b @ filter (\<lambda>(k, _). k = cid) (osm_map b)\<rparr>"

definition sync_osms_with_scanner ::
  "'w \<Rightarrow> u64 \<Rightarrow> shared_state \<Rightarrow> (string \<times> active_market) list \<Rightarrow> ('x, 'w) bot \<Rightarrow> ('x, 'w) bot" where
  "sync_osms_with_scanner w n sh snapshot b =
     (let live = set (map fst snapshot);
          b1 = fold (add_machine w n sh) snapshot b;
          b2 = stop_missing live b1
      in fold remove_machine (to_clean live b1) b2)"

text \<open>The machines built at startup: the same loop on an empty map.\<close>

definition initial_machines ::
  "'w \<Rightarrow> u64 \<Rightarrow> shared_state \<Rightarrow> (string \<times> active_market) list \<Rightarrow> ('x, 'w) bot \<Rightarrow> ('x, 'w) bot" where
  "initial_machines w n sh snapshot b = fold (add_machine w n sh) snapshot b"

subsection \<open>Callbacks\<close>

definition notify :: "cb \<Rightarrow> 'w osm \<Rightarrow> 'w osm" where
  "notify t = (case t of StopEntries \<Rightarrow> notify_stop_entries | CancelQuotes \<Rightarrow> notify_cancel_quotes
     | ClosePositions \<Rightarrow> notify_close_positions | ForceClose \<Rightarrow> notify_force_close | Remove \<Rightarrow> id)"

definition lifecycle_callback :: "cb \<Rightarrow> string \<Rightarrow> ('x, 'w) bot \<Rightarrow> ('x, 'w) bot" where
  "lifecycle_callback t cid b =
     b\<lparr>osm_map := map (\<lambda>(k, m). (k, if k = cid then on_machine (notify t) m else m)) (osm_map b)\<rparr>"

definition flatten_all :: "('x, 'w) bot \<Rightarrow> ('x, 'w) bot" where
  "flatten_all b = b\<lparr>osm_map := map (\<lambda>(k, m). (k, on_machine emergency_flatten m)) (osm_map b)\<rparr>"

text \<open>The scanner on this state: network and clocks see \<open>outside\<close>, the callbacks the machines.\<close>

definition on_ext :: "('x \<Rightarrow> 'a \<times> 'x) \<Rightarrow> ('x, 'w) bot \<Rightarrow> 'a \<times> ('x, 'w) bot" where
  "on_ext f b = (case f (outside b) of (y, x) \<Rightarrow> (y, b\<lparr>outside := x\<rparr>))"

definition main_env :: "(string \<Rightarrow> 'x \<Rightarrow> string \<times> 'x) \<Rightarrow> ('x \<Rightarrow> i64 \<times> 'x) \<Rightarrow> ('x \<Rightarrow> i64 \<times> 'x) \<Rightarrow> ('x, 'w) bot scanner_env" where
  "main_env http now_us now_s =
     \<lparr>sc_http = (\<lambda>path. on_ext (http path)), sc_now_us = on_ext now_us, sc_now_s = on_ext now_s,
      sc_callback = lifecycle_callback\<rparr>"

subsection \<open>The engine's market and the main loop\<close>

text \<open>The first market of the map, or a zero configuration when the initial scan found none.\<close>

definition engine_config :: "(string \<times> active_market) list \<Rightarrow> market_config" where
  "engine_config ms = (case ms of
     [] \<Rightarrow> market_config.make [] (Fin 0) 0 False
   | (_, am) # _ \<Rightarrow> market_config.make (token_id_yes am) (active_market.strike_price am)
       (active_market.resolution_us am) (active_market.is_above am))"

datatype main_outcome = Shut_Down | Kill_Switch | Continue int

definition main_turn ::
  "bool \<Rightarrow> shared_state \<Rightarrow> int \<Rightarrow> int \<Rightarrow> 'w \<Rightarrow> u64 \<Rightarrow> (string \<times> active_market) list \<Rightarrow> ('x, 'w) bot
     \<Rightarrow> main_outcome \<times> ('x, 'w) bot" where
  "main_turn shutdown sh now_ns last_ns w n snapshot b =
     (if shutdown then (Shut_Down, b)
      else if kill_switch sh then (Kill_Switch, b)
      else if 30 \<le> (now_ns - last_ns) sdiv 1000000000
      then (Continue now_ns, sync_osms_with_scanner w n sh snapshot b)
      else (Continue last_ns, b))"

definition shut_down :: "('x, 'w) bot \<Rightarrow> ('x, 'w) bot" where
  "shut_down b = b\<lparr>osm_map := map (\<lambda>(k, m). (k, on_machine stop m)) (osm_map b),
     osm_threads := map (\<lambda>(k, _). (k, False)) (osm_threads b)\<rparr>"

subsection \<open>Startup\<close>

text \<open>
  The start of \<open>main\<close> up to the shared state. The heartbeat thread runs from before the key is loaded,
  and a \<open>std::thread\<close> that is destroyed while joinable terminates the process; \<open>Abort\<close> is that end.
\<close>

datatype startup_end = Exit int | Abort

record ('w, 'k) session =
  se_key :: "'k key_manager"
  se_auth :: "'w auth_run"
  se_nonce :: "'w nonce_state"

definition leave :: "bool \<Rightarrow> int \<Rightarrow> startup_end" where
  "leave hb_joinable code = (if hb_joinable then Abort else Exit code)"

definition seed_nonce :: "'j json_lib \<Rightarrow> 'w https \<Rightarrow> 'k key_manager \<Rightarrow> 'w \<Rightarrow> 'w nonce_state" where
  "seed_nonce J net km w = snd (sync J net (to_hex_address (wallet_address km)) \<lparr>counter_value = 0, nworld = w\<rparr>)"

definition startup ::
  "'j json_lib \<Rightarrow> 'w auth_lib \<Rightarrow> 'k key_lib \<Rightarrow> 'w https \<Rightarrow> string list \<Rightarrow> 'k \<Rightarrow> 'w
     \<Rightarrow> startup_end + ('w, 'k) session" where
  "startup J A L net argv k w =
     (if length argv < 2 then Inl (leave False 1)
      else case km_load J L (argv ! 1) (new_key_manager k) of
        (Inl _, _) \<Rightarrow> Inl (leave True 1)
      | (Inr _, km) \<Rightarrow>
          (case authenticate J A L km 0 \<lparr>ar_world = w, ar_auth = new_clob_auth ''https://clob.polymarket.com''\<rparr> of
             (Inl _, _) \<Rightarrow> Inl (leave True 1)
           | (Inr _, au) \<Rightarrow> Inr \<lparr>se_key = km, se_auth = au, se_nonce = seed_nonce J net km (ar_world au)\<rparr>))"

subsection \<open>The machines follow the scanner\<close>

definition new_entry :: "'w \<Rightarrow> u64 \<Rightarrow> shared_state \<Rightarrow> string \<times> active_market \<Rightarrow> string \<times> 'w machine" where
  "new_entry w n sh = (\<lambda>(cid, am). (cid, \<lparr>m_config = machine_config am, m_osm = fresh_osm w n sh\<rparr>))"

lemma add_machine_eq:
  "add_machine w n sh x b =
     (if fst x \<in> set (map fst (osm_map b)) then b
      else b\<lparr>osm_map := osm_map b @ [new_entry w n sh x], osm_threads := osm_threads b @ [(fst x, True)]\<rparr>)"
  by (simp add: add_machine_def new_entry_def case_prod_unfold)

lemma fst_new_entry [simp]: "fst (new_entry w n sh x) = fst x"
  by (simp add: new_entry_def case_prod_unfold)

definition unknown :: "('x, 'w) bot \<Rightarrow> (string \<times> active_market) list \<Rightarrow> (string \<times> active_market) list" where
  "unknown b = filter (\<lambda>x. fst x \<notin> set (map fst (osm_map b)))"

lemma add_machines:
  "distinct (map fst snapshot) \<Longrightarrow>
   fold (add_machine w n sh) snapshot b =
     b\<lparr>osm_map := osm_map b @ map (new_entry w n sh) (unknown b snapshot),
       osm_threads := osm_threads b @ map (\<lambda>x. (fst x, True)) (unknown b snapshot)\<rparr>"
proof (induction snapshot arbitrary: b)
  case (Cons x xs)
  have f: "filter (\<lambda>y. fst y \<noteq> fst x \<and> fst y \<notin> fst ` set (osm_map b)) xs
      = filter (\<lambda>y. fst y \<notin> fst ` set (osm_map b)) xs"
    using Cons.prems by (intro filter_cong) (auto simp: image_iff)
  have d: "distinct (map fst xs)" using Cons.prems by simp
  show ?case by (simp add: Cons.IH [OF d] add_machine_eq [of w n sh x b] unknown_def f)
qed (simp add: unknown_def)

lemma remove_machines_map: "osm_map (fold remove_machine cids b) = filter (\<lambda>x. fst x \<notin> set cids) (osm_map b)"
  by (induction cids arbitrary: b) (auto simp: remove_machine_def case_prod_unfold intro!: filter_cong)

lemma remove_machines_threads:
  "osm_threads (fold remove_machine cids b) = filter (\<lambda>x. fst x \<notin> set cids) (osm_threads b)"
  by (induction cids arbitrary: b) (auto simp: remove_machine_def case_prod_unfold intro!: filter_cong)

lemma remove_machines_outside [simp]: "outside (fold remove_machine cids b) = outside b"
  by (induction cids arbitrary: b) (simp_all add: remove_machine_def)

lemma remove_machines_retired:
  "distinct cids \<Longrightarrow> retired (fold remove_machine cids b) =
     retired b @ concat (map (\<lambda>c. filter (\<lambda>x. fst x = c) (osm_map b)) cids)"
proof (induction cids arbitrary: b)
  case (Cons c cids)
  have "filter (\<lambda>x. fst x \<noteq> c \<and> fst x = d) (osm_map b) = filter (\<lambda>x. fst x = d) (osm_map b)" if "d \<in> set cids" for d
    using that Cons.prems by (intro filter_cong) auto
  then have e: "map (\<lambda>d. filter (\<lambda>x. fst x = d) (osm_map (remove_machine c b))) cids
      = map (\<lambda>d. filter (\<lambda>x. fst x = d) (osm_map b)) cids"
    by (intro map_cong) (simp_all add: remove_machine_def case_prod_unfold)
  have "retired (remove_machine c b) = retired b @ filter (\<lambda>x. fst x = c) (osm_map b)"
    by (simp add: remove_machine_def case_prod_unfold)
  then show ?case using Cons.prems by (simp add: Cons.IH e)
qed simp

lemma retire_order:
  "distinct (map fst m) \<Longrightarrow>
     concat (map (\<lambda>c. filter (\<lambda>x. fst x = c) m) (filter P (map fst m))) = filter (\<lambda>x. P (fst x)) m"
proof (induction m)
  case (Cons y m)
  have e: "filter (\<lambda>x. fst x = fst y) m = []"
    unfolding filter_empty_conv using Cons.prems by (metis distinct.simps(2) imageI list.map(2) list.set_map)
  have r: "concat (map (\<lambda>c. filter (\<lambda>x. fst x = c) (y # m)) (filter P (map fst m))) = filter (\<lambda>x. P (fst x)) m"
  proof -
    have "map (\<lambda>c. filter (\<lambda>x. fst x = c) (y # m)) (filter P (map fst m))
        = map (\<lambda>c. filter (\<lambda>x. fst x = c) m) (filter P (map fst m))"
      using Cons.prems by (intro map_cong) auto
    then show ?thesis using Cons by (simp only: distinct.simps list.map)
  qed
  have f: "filter (\<lambda>x. fst x = fst y) (y # m) = [y]" by (simp add: e)
  show ?case
  proof (cases "P (fst y)")
    case True
    then have "filter P (map fst (y # m)) = fst y # filter P (map fst m)" by simp
    then show ?thesis by (simp only: list.map concat.simps f r) (simp add: True)
  next
    case False
    then have "filter P (map fst (y # m)) = filter P (map fst m)" by simp
    then show ?thesis by (simp only: r) (simp add: False)
  qed
qed simp

lemma retire_missing:
  fixes b :: "('x, 'w) bot" and live :: "string set"
  assumes "distinct (map fst (osm_map b))" and "map fst (osm_threads b) = map fst (osm_map b)"
  defines "b' \<equiv> fold remove_machine (to_clean live b) (stop_missing live b)"
  shows "osm_map b' = filter (\<lambda>x. fst x \<in> live) (osm_map b)"
    and "retired b' = retired b @ map (\<lambda>(cid, m). (cid, on_machine stop m)) (filter (\<lambda>x. fst x \<notin> live) (osm_map b))"
    and "map fst (osm_threads b') = map fst (osm_map b')"
proof -
  let ?st = "\<lambda>(cid, m :: 'w machine). (cid, if cid \<in> live then m else on_machine stop m)"
  have ms: "map fst (map ?st xs) = map fst xs" for xs :: "(string \<times> 'w machine) list" by (simp add: o_def case_prod_unfold)
  have m2: "osm_map (stop_missing live b) = map ?st (osm_map b)" by (simp add: stop_missing_def)
  have tc: "to_clean live b = filter (\<lambda>c. c \<notin> live) (map fst (map ?st (osm_map b)))" by (simp only: ms to_clean_def)
  have cl: "set (to_clean live b) = set (map fst (osm_map b)) - live" by (auto simp: to_clean_def)
  have "osm_map b' = filter (\<lambda>x. fst x \<in> live) (map ?st (osm_map b))"
    unfolding b'_def remove_machines_map m2
  proof (rule filter_cong [OF refl])
    fix x assume "x \<in> set (map ?st (osm_map b))"
    then have "fst x \<in> set (map fst (osm_map b))" by (metis (no_types, lifting) image_eqI list.set_map ms)
    then show "(fst x \<notin> set (to_clean live b)) = (fst x \<in> live)" unfolding cl by blast
  qed
  also have "\<dots> = map ?st (filter (\<lambda>x. fst x \<in> live) (osm_map b))" by (simp add: filter_map o_def case_prod_unfold)
  also have "\<dots> = filter (\<lambda>x. fst x \<in> live) (osm_map b)"
    by (rule map_idI) (simp only: mem_Collect_eq set_filter split_beta fst_conv if_True prod.collapse)
  finally show "osm_map b' = filter (\<lambda>x. fst x \<in> live) (osm_map b)" .
  have "distinct (map fst (map ?st (osm_map b)))" using assms(1) by (simp only: ms)
  note ro = retire_order [OF this, of "\<lambda>c. c \<notin> live"]
  have "distinct (to_clean live b)" unfolding to_clean_def using assms(1) by (rule distinct_filter)
  then have "retired b' = retired b @ filter (\<lambda>x. fst x \<notin> live) (map ?st (osm_map b))"
    unfolding b'_def by (simp only: remove_machines_retired m2 tc ro) (simp add: stop_missing_def)
  also have "filter (\<lambda>x. fst x \<notin> live) (map ?st (osm_map b)) = map ?st (filter (\<lambda>x. fst x \<notin> live) (osm_map b))"
    by (simp add: filter_map o_def case_prod_unfold)
  also have "\<dots> = map (\<lambda>(cid, m). (cid, on_machine stop m)) (filter (\<lambda>x. fst x \<notin> live) (osm_map b))"
    by (intro map_cong) auto
  finally show "retired b' = retired b @ map (\<lambda>(cid, m). (cid, on_machine stop m)) (filter (\<lambda>x. fst x \<notin> live) (osm_map b))" .
  have "map fst (osm_threads b') = filter (\<lambda>c. c \<notin> set (to_clean live b)) (map fst (osm_threads b))"
    by (simp add: b'_def remove_machines_threads stop_missing_def filter_map o_def)
  also have "\<dots> = filter (\<lambda>c. c \<notin> set (to_clean live b)) (map fst (map ?st (osm_map b)))" by (simp only: assms(2) ms)
  also have "\<dots> = map fst (osm_map b')" by (simp only: b'_def remove_machines_map m2 filter_map o_def)
  finally show "map fst (osm_threads b') = map fst (osm_map b')" .
qed

text \<open>
  C5. One synchronisation replaces the map of machines by exactly the scanner's markets: the machines
  of markets still listed go on untouched, each new market gets a fresh machine with that market's
  configuration and a running thread, and the machine of every market that is gone is told to stop and
  removed with its thread. Threads and machines keep the same keys.
\<close>

theorem osm_map_follows_scanner:
  fixes b :: "('x, 'w) bot"
  assumes "distinct (map fst snapshot)" and "distinct (map fst (osm_map b))"
    and "map fst (osm_threads b) = map fst (osm_map b)"
  shows "let b' = sync_osms_with_scanner w n sh snapshot b in
      osm_map b' = filter (\<lambda>x. fst x \<in> set (map fst snapshot)) (osm_map b)
        @ map (\<lambda>(cid, am). (cid, \<lparr>m_config = machine_config am, m_osm = fresh_osm w n sh\<rparr>)) (unknown b snapshot)
      \<and> set (map fst (osm_map b')) = set (map fst snapshot)
      \<and> retired b' = retired b @ map (\<lambda>(cid, m). (cid, on_machine stop m))
          (filter (\<lambda>x. fst x \<notin> set (map fst snapshot)) (osm_map b))
      \<and> map fst (osm_threads b') = map fst (osm_map b')"
proof -
  let ?live = "set (map fst snapshot)"
  let ?b1 = "fold (add_machine w n sh) snapshot b"
  let ?new = "map (new_entry w n sh) (unknown b snapshot)"
  have m1: "osm_map ?b1 = osm_map b @ ?new" and t1: "map fst (osm_threads ?b1) = map fst (osm_map ?b1)"
    and r1: "retired ?b1 = retired b"
    using assms(3) by (simp_all add: add_machines [OF assms(1)] o_def)
  have nl: "fst x \<in> ?live" "fst x \<notin> set (map fst (osm_map b))" if "x \<in> set ?new" for x
    using that by (force simp: unknown_def)+
  have dn: "distinct (map fst ?new)" using assms(1) by (simp add: o_def unknown_def distinct_map_filter)
  have d1: "distinct (map fst (osm_map ?b1))" unfolding m1 map_append distinct_append
  proof (intro conjI)
    show "set (map fst (osm_map b)) \<inter> set (map fst ?new) = {}"
      unfolding set_map [of fst ?new] using nl(2) by blast
  qed (use assms(2) dn in blast)+
  have b': "sync_osms_with_scanner w n sh snapshot b = fold remove_machine (to_clean ?live ?b1) (stop_missing ?live ?b1)"
    by (simp add: sync_osms_with_scanner_def Let_def)
  have live: "filter (\<lambda>x. fst x \<in> ?live) (osm_map ?b1) = filter (\<lambda>x. fst x \<in> ?live) (osm_map b) @ ?new"
    unfolding m1 filter_append using nl(1) by (subst (2) filter_True) blast+
  have gone: "filter (\<lambda>x. fst x \<notin> ?live) (osm_map ?b1) = filter (\<lambda>x. fst x \<notin> ?live) (osm_map b)"
    using nl(1) by (simp only: m1 filter_append) (simp add: filter_empty_conv)
  note parts = retire_missing [OF d1 t1, of ?live, folded b', unfolded live gone r1]
  have keys: "set (map fst (osm_map (sync_osms_with_scanner w n sh snapshot b))) = ?live"
    by (auto simp: parts(1) unknown_def image_iff; force)
  show ?thesis unfolding Let_def using parts keys by (simp only: new_entry_def)
qed

definition live_market :: "string \<times> active_market" where
  "live_market = (''c1'', new_market ''c1'' ''1'' ''2'' 100000000)"

definition sample_machine :: "string \<Rightarrow> unit machine" where
  "sample_machine cid = \<lparr>m_config = machine_config (new_market cid ''3'' ''4'' 200000000), m_osm = fresh_osm () 0 initial_shared\<rparr>"

definition one_machine :: "string \<Rightarrow> (unit, unit) bot" where
  "one_machine cid = \<lparr>outside = (), osm_map = [(cid, sample_machine cid)], osm_threads = [(cid, True)], retired = []\<rparr>"

theorem osm_map_follows_scanner_witness:
  "map fst (osm_map (sync_osms_with_scanner () 0 initial_shared [live_market] (one_machine ''c9''))) = [''c1'']
   \<and> map fst (retired (sync_osms_with_scanner () 0 initial_shared [live_market] (one_machine ''c9''))) = [''c9'']"
  using osm_map_follows_scanner [of "[live_market]" "one_machine ''c9''" "()" 0 initial_shared]
  by (simp add: Let_def live_market_def one_machine_def unknown_def)

subsection \<open>Deadlines reach the machines\<close>

lemma on_machine_id [simp]: "on_machine id m = m" "on_machine (\<lambda>s. s) m = m"
  by (simp_all add: on_machine_def)

lemma on_machine_twice: "on_machine f (on_machine g m) = on_machine (f \<circ> g) m"
  by (simp add: on_machine_def)

lemma fire_callbacks_machines:
  "osm_map (fire_callbacks (main_env http now_us now_s) p b) =
     map (\<lambda>(k, m). (k, on_machine (fold notify (events_of k p)) m)) (osm_map b)"
proof (induction p arbitrary: b)
  case (Cons e p)
  obtain cid t where e: "e = (cid, t)" by fastforce
  let ?b = "if t = Remove then b else lifecycle_callback t cid b"
  have "osm_map ?b = map (\<lambda>(k, m). (k, if k = cid then on_machine (notify t) m else m)) (osm_map b)"
    by (auto simp: lifecycle_callback_def notify_def intro!: map_idI [symmetric])
  moreover have "events_of k (e # p) = (if k = cid then t # events_of k p else events_of k p)" for k
    by (simp add: events_of_def e)
  moreover have "fire_callbacks (main_env http now_us now_s) (e # p) b = fire_callbacks (main_env http now_us now_s) p ?b"
    by (simp add: fire_callbacks_def e main_env_def)
  ultimately show ?case by (auto simp: Cons.IH on_machine_twice o_def)
qed (simp add: fire_callbacks_def fold_simps id_def)

text \<open>
  C17. The scanner and the machines composed. One deadline check of the scanner, with the callbacks
  that \<open>main\<close> installs, notifies the machine of every market of exactly the deadlines that market has
  just passed, in their order, and touches no other machine.
\<close>

theorem deadlines_reach_own_machine:
  assumes "check_lifecycle (main_env http now_us now_s) s = (Inr (), s')"
    and "now_us (outside (sc_world s)) = (now, x)" and "distinct (map fst (markets s))"
  shows "osm_map (sc_world s') =
    map (\<lambda>(cid, m). (cid, case map_of (markets s) cid of None \<Rightarrow> m
       | Some am \<Rightarrow> on_machine (fold notify (passed now am)) m)) (osm_map (sc_world s))"
proof -
  let ?E = "main_env http now_us now_s" and ?w = "(sc_world s)\<lparr>outside := x\<rparr>"
  have "sc_now_us ?E (sc_world s) = (now, ?w)" by (simp add: main_env_def on_ext_def assms(2))
  from check_lifecycle_eq [OF this] assms(1)
  have "sc_world s' = fire_callbacks ?E (pending now (markets s)) ?w" by auto
  then have "osm_map (sc_world s')
      = map (\<lambda>(k, m). (k, on_machine (fold notify (events_of k (pending now (markets s)))) m)) (osm_map (sc_world s))"
    by (simp add: fire_callbacks_machines)
  then show ?thesis
    by (auto simp: events_of_pending [OF assms(3)] id_def split: option.splits)
qed

definition bot_scanner :: "(i64, unit) bot scanner" where
  "bot_scanner =
     \<lparr>sc_world = \<lparr>outside = 80000000, osm_map = [(''c1'', sample_machine ''c1''), (''c9'', sample_machine ''c9'')],
        osm_threads = [(''c1'', True), (''c9'', True)], retired = []\<rparr>,
      markets = [live_market], fired = [], last_rebate_check_epoch_s = 0, rebate_windows = [], sc_running = True\<rparr>"

theorem deadlines_reach_own_machine_witness:
  "\<exists>s'. check_lifecycle (main_env (\<lambda>_. Pair []) (\<lambda>x. (x, x)) (\<lambda>x. (x, x))) bot_scanner = (Inr (), s')
     \<and> osm_map (sc_world s')
       = [(''c1'', on_machine (fold notify (passed 80000000 (snd live_market))) (sample_machine ''c1'')), (''c9'', sample_machine ''c9'')]"
proof -
  let ?E = "main_env (\<lambda>_. Pair []) (\<lambda>x. (x, x)) (\<lambda>x. (x, x)) :: (i64, unit) bot scanner_env"
  have n: "(\<lambda>x. (x, x)) (outside (sc_world bot_scanner)) = (80000000, 80000000)" by (simp add: bot_scanner_def)
  have d: "distinct (map fst (markets bot_scanner))" by (simp add: bot_scanner_def)
  obtain s' where r: "check_lifecycle ?E bot_scanner = (Inr (), s')"
    by (rule check_lifecycle_run) blast
  from deadlines_reach_own_machine [OF r n d]
  have "osm_map (sc_world s')
      = [(''c1'', on_machine (fold notify (passed 80000000 (snd live_market))) (sample_machine ''c1'')), (''c9'', sample_machine ''c9'')]"
    by (simp add: bot_scanner_def live_market_def split_def)
  then show ?thesis using r by blast
qed

subsection \<open>The kill switch\<close>

text \<open>
  A trip of the watchdog sets the kill switch and asks every machine to flatten, and the next
  turn of the main loop ends it. The shutdown that follows sets every stop flag, and a machine reads
  that flag before the flatten flag: one whose thread has had no turn in between leaves its loop with
  the request pending, its position open and no order sent.
\<close>

theorem kill_switch_can_skip_the_sale:
  assumes "\<not> tripped wd"
  shows "let wd' = trip [flatten_all] reason wd; r = main_turn False (wd_ss wd') now prev w n snapshot (wd_world wd') in
      fst r = Kill_Switch
      \<and> list_all (\<lambda>(_, m). flatten_flag (m_osm m)) (osm_map (snd r))
      \<and> list_all (\<lambda>(_, m). run_turns V (m_config m) (Suc k) (m_osm m) = (Inr False, m_osm m) \<and> flatten_flag (m_osm m))
          (osm_map (shut_down (snd r)))
      \<and> map (\<lambda>(_, m). is_open (pos (m_osm m))) (osm_map (shut_down (snd r)))
        = map (\<lambda>(_, m). is_open (pos (m_osm m))) (osm_map (wd_world wd))"
  using assms
  by (auto simp: Let_def trip_def main_turn_def flatten_all_def shut_down_def list_all_iff on_machine_def
      emergency_flatten_def stop_def run_iteration_def prog_defs)

theorem kill_switch_can_skip_the_sale_witness:
  "fst (main_turn False (wd_ss (trip [flatten_all] ''btc_spike'' (new_watchdog initial_shared (one_machine ''c9'')))) 0 0 () 0 []
     (wd_world (trip [flatten_all] ''btc_spike'' (new_watchdog initial_shared (one_machine ''c9''))))) = Kill_Switch"
  using kill_switch_can_skip_the_sale [of "new_watchdog initial_shared (one_machine ''c9'')" "''btc_spike''" 0 0 "()" 0 "[]"]
  by (simp add: new_watchdog_def Let_def)

subsection \<open>The engine in the program\<close>

lemma keeps_scan_now: "keeps scanner_inv (scan_now J E n)"
  unfolding scan_now_def scan_once_def by (intro keep keeps_basic)

lemma engine_strike_zero: "scanner_inv s \<Longrightarrow> mc_strike_price (engine_config (markets s)) = Fin 0"
  by (auto simp: engine_config_def scanner_inv_def market_ok_def market_config.defs split: list.splits)

text \<open>
  C12. The engine as \<open>main\<close> starts it computes no posterior. Whatever the exchange answers to the
  initial scan of an empty scanner, and whatever ticks follow, the published probability is the one of
  startup, one half: the scanner never learns a strike, and the engine updates only above strike 0.
\<close>

theorem program_posterior_is_constant:
  assumes "scan_now J E n s0 = (Inr (), s)" and "markets s0 = []"
  shows "p_true (eg_ss (process_all M ticks (new_engine seeded_state (engine_config (markets s))))) = lit (1 / 2)"
proof -
  have "scanner_inv s0" using assms(2) by (simp add: scanner_inv_def)
  from keepsD [OF keeps_scan_now this assms(1)] have "scanner_inv s" .
  from engine_strike_zero [OF this]
  have "fle (mc_strike_price (eg_config (new_engine seeded_state (engine_config (markets s))))) (Fin 0)"
    by (simp add: new_engine_def)
  from zero_strike_posterior [OF this] show ?thesis
    by (simp add: new_engine_def seeded_state_def initial_shared_def)
qed

definition empty_scanner :: "unit scanner" where
  "empty_scanner = sample_scanner\<lparr>markets := []\<rparr>"

theorem program_posterior_is_constant_witness:
  "\<exists>s. scan_now (table_json []) (sample_env 0) 1 empty_scanner = (Inr (), s)
     \<and> p_true (eg_ss (process_all plain_libm [(empty_tick, Fin 0)] (new_engine seeded_state (engine_config (markets s))))) = lit (1 / 2)"
proof -
  have m: "markets empty_scanner = []" by (simp add: empty_scanner_def)
  have "\<exists>s. scan_now (table_json []) (sample_env 0) 1 empty_scanner = (Inr (), s)"
    by (simp add: scan_now_def scan_once_def scan_page_def sample_env_def sc_read_def prog_defs empty_scanner_def
        sample_scanner_def check_lifecycle_def Let_def)
  then show ?thesis using program_posterior_is_constant [OF _ m] by blast
qed

subsection \<open>Startup failures\<close>


end
