(* ===== verification/Calendar.thy ===== *)
theory Calendar
  imports Text_Numbers
begin

text \<open>
  The civil date of a time, \<open>gmtime_r\<close> of the C library, and the formats the program prints it in:
  the log lines of \<open>src/infra/logger.cpp\<close>, the trade list of the backtest and the file name of
  the recorder. \<open>gmtime\<close> is the inverse of \<open>timegm\<close>, which the timestamp parsers use, so what is
  printed can be read back.
\<close>

record civil =
  tm_year :: int
  tm_mon :: nat
  tm_mday :: int
  tm_hour :: int
  tm_min :: int
  tm_sec :: int

lemma div_next:
  assumes "0 < (k :: int)"
  shows "(x + 1) div k = x div k + (if (x + 1) mod k = 0 then 1 else 0)"
proof -
  have r: "0 \<le> x mod k" "x mod k < k" using assms by simp_all
  have x: "x + 1 = k * (x div k) + (x mod k + 1)" by (simp add: algebra_simps)
  show ?thesis
  proof (cases "x mod k + 1 = k")
    case True
    then have "x + 1 = k * (x div k + 1)" using x by (simp add: algebra_simps)
    then show ?thesis using assms by simp
  next
    case False
    then have "(x mod k + 1) div k = 0" "(x mod k + 1) mod k = x mod k + 1" using r by simp_all
    moreover have "(x + 1) mod k = (x mod k + 1) mod k" by (simp add: mod_simps)
    moreover have "(x + 1) div k = x div k + (x mod k + 1) div k"
      using assms div_mult_self1 [of k "x mod k + 1" "x div k"] x by (simp add: ac_simps)
    ultimately show ?thesis using r by simp
  qed
qed

lemma year_length: "days_to_year (y + 1) = days_to_year y + (if is_leap y then 366 else 365)"
proof -
  have "400 dvd y \<Longrightarrow> 100 dvd y" "100 dvd y \<Longrightarrow> 4 dvd y" by presburger+
  then have d: "y mod 400 = 0 \<Longrightarrow> y mod 100 = 0" "y mod 100 = 0 \<Longrightarrow> y mod 4 = 0" by (simp_all only: mod_eq_0_iff_dvd)
  let ?i = "\<lambda>k. if y mod k = 0 then 1 else 0 :: int"
  have E: "y div 4 = (y - 1) div 4 + ?i 4" "y div 100 = (y - 1) div 100 + ?i 100" "y div 400 = (y - 1) div 400 + ?i 400"
    using div_next [of 4 "y - 1"] div_next [of 100 "y - 1"] div_next [of 400 "y - 1"] by (simp_all only: diff_add_cancel)
  have "leaps_before (y + 1) = leaps_before y + (?i 4 - ?i 100 + ?i 400)"
    unfolding leaps_before_def add_diff_cancel_right' E by simp
  moreover have "?i 4 - ?i 100 + ?i 400 = (if is_leap y then 1 else 0)" using d by (auto simp only: is_leap_def split: if_splits) simp_all
  ultimately show ?thesis by (simp add: days_to_year_def)
qed

lemma days_to_year_bounds:
  "days_to_year y + 365 * int n \<le> days_to_year (y + int n) \<and> days_to_year (y + int n) \<le> days_to_year y + 366 * int n"
proof (induction n)
  case (Suc n)
  have "days_to_year (y + int (Suc n)) = days_to_year (y + int n + 1)" by (simp add: ac_simps)
  then show ?case using Suc year_length [of "y + int n"] by (auto split: if_splits)
qed simp

function year_from :: "int \<Rightarrow> int \<Rightarrow> int" where
  "year_from y d = (if days_to_year (y + 1) \<le> d then year_from (y + 1) d else y)"
  by auto
termination
  by (relation "measure (\<lambda>(y, d). nat (d - days_to_year y))") (auto simp: year_length split: if_splits)

declare year_from.simps [simp del]

text \<open>The year of a day counted from 1970: the search starts at a year that is not too late.\<close>

definition year_of :: "int \<Rightarrow> int" where
  "year_of d = year_from (1970 + (if 0 \<le> d then d div 366 else d div 365)) d"

function month_from :: "nat \<Rightarrow> bool \<Rightarrow> int \<Rightarrow> nat" where
  "month_from m leap yd = (if m < 11 \<and> days_to_month leap (m + 1) \<le> yd then month_from (m + 1) leap yd else m)"
  by auto
termination
  by (relation "measure (\<lambda>(m, _). 11 - m)") auto

declare month_from.simps [simp del]

definition month_of :: "bool \<Rightarrow> int \<Rightarrow> nat" where
  "month_of leap yd = month_from 0 leap yd"

definition gmtime :: "int \<Rightarrow> civil" where
  "gmtime t =
     (let d = t div 86400; sec = t mod 86400; y = year_of d; yd = d - days_to_year y; m = month_of (is_leap y) yd
      in \<lparr>tm_year = y, tm_mon = m, tm_mday = yd - days_to_month (is_leap y) m + 1,
          tm_hour = sec div 3600, tm_min = sec mod 3600 div 60, tm_sec = sec mod 60\<rparr>)"

lemma year_from_spec:
  "days_to_year y \<le> d \<Longrightarrow> days_to_year (year_from y d) \<le> d \<and> d < days_to_year (year_from y d + 1) \<and> y \<le> year_from y d"
proof (induction y d rule: year_from.induct)
  case (1 y d)
  then show ?case by (subst (1 2 3) year_from.simps) (auto split: if_splits)
qed

lemma year_of_spec: "days_to_year (year_of d) \<le> d \<and> d < days_to_year (year_of d + 1)"
proof -
  have z: "days_to_year 1970 = 0" by (simp add: days_to_year_def)
  have "days_to_year (1970 + (if 0 \<le> d then d div 366 else d div 365)) \<le> d"
  proof (cases "0 \<le> d")
    case True
    then have n: "int (nat (d div 366)) = d div 366" by simp
    have "days_to_year (1970 + d div 366) \<le> 366 * (d div 366)"
      using days_to_year_bounds [of 1970 "nat (d div 366)"] unfolding n by (simp add: z)
    then show ?thesis using True mult_div_mod_eq [of 366 d] pos_mod_sign [of 366 d] by simp
  next
    case False
    then have n: "int (nat (- (d div 365))) = - (d div 365)" by (simp add: div_int_pos_iff)
    from days_to_year_bounds [of "1970 + d div 365" "nat (- (d div 365))"]
    have "days_to_year (1970 + d div 365) \<le> 365 * (d div 365)" unfolding n by (simp add: z)
    then show ?thesis using False mult_div_mod_eq [of 365 d] pos_mod_sign [of 365 d] by simp
  qed
  from year_from_spec [OF this] show ?thesis by (simp add: year_of_def)
qed

lemma month_length: "m < 11 \<Longrightarrow> days_to_month leap (m + 1) \<le> days_to_month leap m + 31"
  by (cases leap) (simp_all add: days_to_month_def less_Suc_eq numeral_eq_Suc, auto)

lemma month_from_spec:
  "m \<le> 11 \<Longrightarrow> days_to_month leap m \<le> yd \<Longrightarrow>
     month_from m leap yd \<le> 11 \<and> days_to_month leap (month_from m leap yd) \<le> yd
     \<and> (month_from m leap yd < 11 \<longrightarrow> yd < days_to_month leap (month_from m leap yd + 1))"
proof (induction m leap yd rule: month_from.induct)
  case (1 m leap yd)
  then show ?case by (subst (1 2 3 4) month_from.simps) (auto split: if_splits)
qed

lemma month_of_spec:
  assumes "0 \<le> yd" and "yd < (if leap then 366 else 365)"
  shows "month_of leap yd < 12 \<and> 0 \<le> yd - days_to_month leap (month_of leap yd)
    \<and> yd - days_to_month leap (month_of leap yd) < 31"
proof -
  have "days_to_month leap 0 \<le> yd" using assms by (simp add: days_to_month_def)
  from month_from_spec [OF _ this] have m: "month_of leap yd \<le> 11" "days_to_month leap (month_of leap yd) \<le> yd"
    "month_of leap yd < 11 \<longrightarrow> yd < days_to_month leap (month_of leap yd + 1)"
    by (simp_all add: month_of_def)
  have "yd - days_to_month leap (month_of leap yd) < 31"
  proof (cases "month_of leap yd < 11")
    case True
    then show ?thesis using m(3) month_length [OF True, of leap] by simp
  next
    case False
    then have "month_of leap yd = 11" using m(1) by simp
    then show ?thesis using assms(2) by (simp add: days_to_month_def split: if_splits)
  qed
  then show ?thesis using m by simp
qed

lemma gmtime_timegm:
  "timegm (tm_year (gmtime t)) (int (tm_mon (gmtime t))) (tm_mday (gmtime t)) (tm_hour (gmtime t)) (tm_min (gmtime t))
     (tm_sec (gmtime t)) = t"
proof -
  let ?d = "t div 86400" let ?y = "year_of ?d" let ?yd = "?d - days_to_year ?y"
  have "0 \<le> ?yd" "?yd < (if is_leap ?y then 366 else 365)"
    using year_of_spec [of ?d] year_length [of ?y] by auto
  from month_of_spec [OF this] have m: "month_of (is_leap ?y) ?yd < 12" by simp
  then have "int (month_of (is_leap ?y) ?yd) div 12 = 0" "int (month_of (is_leap ?y) ?yd) mod 12 = int (month_of (is_leap ?y) ?yd)"
    by simp_all
  moreover have "s div 3600 * 3600 + s mod 3600 div 60 * 60 + s mod 60 = s" for s :: int
  proof -
    have "s mod 60 = s mod 3600 mod 60" by (simp add: mod_mod_cancel)
    then show ?thesis using div_mult_mod_eq [of s 3600] div_mult_mod_eq [of "s mod 3600" 60] by linarith
  qed
  moreover have "t div 86400 * 86400 + t mod 86400 = t" by (rule div_mult_mod_eq)
  ultimately show ?thesis by (simp add: gmtime_def timegm_def Let_def add.assoc)
qed

lemma gmtime_ranges:
  "tm_mon (gmtime t) < 12" "1 \<le> tm_mday (gmtime t)" "tm_mday (gmtime t) \<le> 31"
  "0 \<le> tm_hour (gmtime t)" "tm_hour (gmtime t) < 24" "0 \<le> tm_min (gmtime t)" "tm_min (gmtime t) < 60"
  "0 \<le> tm_sec (gmtime t)" "tm_sec (gmtime t) < 60"
proof -
  let ?d = "t div 86400" let ?y = "year_of ?d" let ?yd = "?d - days_to_year ?y"
  have "0 \<le> ?yd" "?yd < (if is_leap ?y then 366 else 365)"
    using year_of_spec [of ?d] year_length [of ?y] by auto
  from month_of_spec [OF this]
  show "tm_mon (gmtime t) < 12" "1 \<le> tm_mday (gmtime t)" "tm_mday (gmtime t) \<le> 31"
    by (simp_all add: gmtime_def Let_def)
  have "0 \<le> t mod 86400" "t mod 86400 < 86400" by simp_all
  then show "0 \<le> tm_hour (gmtime t)" "tm_hour (gmtime t) < 24" "0 \<le> tm_min (gmtime t)" "tm_min (gmtime t) < 60"
    "0 \<le> tm_sec (gmtime t)" "tm_sec (gmtime t) < 60"
    by (simp_all add: gmtime_def Let_def div_less_iff_less_mult)
qed

subsection \<open>Printed times\<close>

text \<open>\<open>%0wd\<close>: a minus sign counts towards the width.\<close>

definition fmt_0d :: "nat \<Rightarrow> int \<Rightarrow> string" where
  "fmt_0d w n = (if n < 0 then ''-'' @ pad_zero (w - 1) (show_nat (nat (- n))) else pad_zero w (show_nat (nat n)))"

definition date_text :: "civil \<Rightarrow> string" where
  "date_text c = fmt_0d 4 (tm_year c) @ ''-'' @ fmt_0d 2 (int (tm_mon c) + 1) @ ''-'' @ fmt_0d 2 (tm_mday c)"

text \<open>\<open>ts_to_iso\<close> of the backtest, with its buffer of 24 bytes: microseconds, truncated towards 0.\<close>

definition ts_to_iso :: "i64 \<Rightarrow> string" where
  "ts_to_iso us =
     (let c = gmtime (sint us sdiv 1000000)
      in take 23 (date_text c @ ''T'' @ fmt_0d 2 (tm_hour c) @ '':'' @ fmt_0d 2 (tm_min c) @ '':'' @ fmt_0d 2 (tm_sec c) @ ''Z''))"

definition time_of_day :: "string \<Rightarrow> civil \<Rightarrow> string" where
  "time_of_day sep c = fmt_0d 2 (tm_hour c) @ sep @ fmt_0d 2 (tm_min c) @ sep @ fmt_0d 2 (tm_sec c)"

lemma days_to_year_mono: "a \<le> b \<Longrightarrow> days_to_year a \<le> days_to_year b"
  using days_to_year_bounds [of a "nat (b - a)"] by simp

lemma year_range:
  assumes "0 \<le> t" and "t < 253402300800"
  shows "1970 \<le> tm_year (gmtime t) \<and> tm_year (gmtime t) < 10000"
proof -
  let ?d = "t div 86400"
  have y: "tm_year (gmtime t) = year_of ?d" by (simp add: gmtime_def Let_def)
  have "0 \<le> ?d" "?d < 2932897" using assms by (simp_all add: div_less_iff_less_mult pos_imp_zdiv_nonneg_iff)
  moreover have "days_to_year 1970 = 0" "days_to_year 10000 = 2932897" by (simp_all add: days_to_year_def leaps_before_def)
  ultimately show ?thesis
    using year_of_spec [of ?d] days_to_year_mono [of "year_of ?d + 1" 1970] days_to_year_mono [of 10000 "year_of ?d"]
    unfolding y by linarith
qed

lemma length_fmt_0d: "0 \<le> n \<Longrightarrow> n < 10 ^ w \<Longrightarrow> 0 < w \<Longrightarrow> length (fmt_0d w n) = w"
  using length_show_nat_le [of "nat n" w] by (simp add: fmt_0d_def length_pad_zero nat_less_iff)

lemma ts_to_iso_utc:
  assumes "0 \<le> t" and "t < 253402300800"
  shows "take 23 (date_text (gmtime t) @ ''T'' @ fmt_0d 2 (tm_hour (gmtime t)) @ '':'' @ fmt_0d 2 (tm_min (gmtime t))
       @ '':'' @ fmt_0d 2 (tm_sec (gmtime t)) @ ''Z'')
     = utc_text (nat (tm_year (gmtime t))) (nat (int (tm_mon (gmtime t)) + 1)) (nat (tm_mday (gmtime t)))
         (nat (tm_hour (gmtime t))) (nat (tm_min (gmtime t))) (nat (tm_sec (gmtime t)))"
proof -
  note r = gmtime_ranges [of t] year_range [OF assms]
  have "length (fmt_0d 4 (tm_year (gmtime t))) = 4" "length (fmt_0d 2 (int (tm_mon (gmtime t)) + 1)) = 2"
    "length (fmt_0d 2 (tm_mday (gmtime t))) = 2" "length (fmt_0d 2 (tm_hour (gmtime t))) = 2"
    "length (fmt_0d 2 (tm_min (gmtime t))) = 2" "length (fmt_0d 2 (tm_sec (gmtime t))) = 2"
    using r by (simp_all add: length_fmt_0d)
  then have "take 23 (date_text (gmtime t) @ ''T'' @ fmt_0d 2 (tm_hour (gmtime t)) @ '':'' @ fmt_0d 2 (tm_min (gmtime t))
       @ '':'' @ fmt_0d 2 (tm_sec (gmtime t)) @ ''Z'')
     = date_text (gmtime t) @ ''T'' @ fmt_0d 2 (tm_hour (gmtime t)) @ '':'' @ fmt_0d 2 (tm_min (gmtime t))
       @ '':'' @ fmt_0d 2 (tm_sec (gmtime t)) @ ''Z''"
    by (intro take_all) (simp add: date_text_def)
  also have "\<dots> = utc_text (nat (tm_year (gmtime t))) (nat (int (tm_mon (gmtime t)) + 1)) (nat (tm_mday (gmtime t)))
         (nat (tm_hour (gmtime t))) (nat (tm_min (gmtime t))) (nat (tm_sec (gmtime t)))"
    using r by (simp add: date_text_def fmt_0d_def utc_text_def)
  finally show ?thesis .
qed

text \<open>
  What the backtest prints, the parsers read. For every microsecond count from 1970 to the end
  of 9999, the text of \<open>ts_to_iso\<close> is read by the timestamp parser of the feeds and the scanner as the
  same time, truncated to the second: no field overflows and the 24 byte buffer never cuts the text.
\<close>

theorem printed_times_read_back:
  assumes "0 \<le> sint us" and "sint us < 253402300800000000"
  shows "iso8601_to_us (ts_to_iso us) = word_of_int (sint us div 1000000 * 1000000) \<and> length (ts_to_iso us) = 20"
proof -
  let ?t = "sint us sdiv 1000000" let ?c = "gmtime ?t"
  have t: "?t = sint us div 1000000" using assms(1) by (simp add: signed_divide_int_def sgn_if)
  have b: "0 \<le> ?t" "?t < 253402300800" using assms by (simp_all add: t div_less_iff_less_mult pos_imp_zdiv_nonneg_iff)
  note r = gmtime_ranges [of ?t] year_range [OF b]
  have u: "ts_to_iso us = utc_text (nat (tm_year ?c)) (nat (int (tm_mon ?c) + 1)) (nat (tm_mday ?c))
         (nat (tm_hour ?c)) (nat (tm_min ?c)) (nat (tm_sec ?c))"
    using ts_to_iso_utc [OF b] by (simp add: ts_to_iso_def Let_def)
  have n: "int (nat (tm_year ?c)) = tm_year ?c" "int (nat (int (tm_mon ?c) + 1)) - 1 = int (tm_mon ?c)"
    "int (nat (tm_mday ?c)) = tm_mday ?c" "int (nat (tm_hour ?c)) = tm_hour ?c" "int (nat (tm_min ?c)) = tm_min ?c"
    "int (nat (tm_sec ?c)) = tm_sec ?c"
    using r by simp_all
  have g: "timegm (tm_year ?c) (int (tm_mon ?c)) (tm_mday ?c) (tm_hour ?c) (tm_min ?c) (tm_sec ?c) = ?t"
    by (rule gmtime_timegm)
  have lim: "nat (tm_year ?c) < 10000" "nat (int (tm_mon ?c) + 1) < 100" "nat (tm_mday ?c) < 100"
    "nat (tm_hour ?c) < 100" "nat (tm_min ?c) < 100" "nat (tm_sec ?c) < 100"
    using r by linarith+
  have len: "length (pad_zero w (show_nat k)) = w" if "k < 10 ^ w" "0 < w" for k w
    using length_pad_zero [OF length_show_nat_le [OF that]] .
  have "?t \<noteq> - 1" using b(1) by simp
  then have "iso8601_to_us (ts_to_iso us) = word_of_int ?t * 1000000"
    using iso8601_utc_text [OF lim, unfolded n g] unfolding u by blast
  moreover have "length (ts_to_iso us) = 20"
    using lim len [of _ 2] len [of _ 4] unfolding u utc_text_def by simp
  ultimately show ?thesis by (simp add: t)
qed

theorem printed_times_read_back_witness:
  "iso8601_to_us (ts_to_iso 1705320000123456) = 1705320000000000"
  using printed_times_read_back [of 1705320000123456] by simp

end
