(* ===== verification/Backtest.thy ===== *)
theory Backtest
  imports Bayes_Engine Position_Manager Calendar Coinbase_Client
begin

text \<open>
  The backtest, \<open>tools/bt_runner/main.cpp\<close>: the ticks of a directory, the five-minute markets found in
  them, the replay of each market through the engine and the position manager, the trade list as
  CSV, and the Sharpe ratio of daily profits. The C library's mathematics are the parameter
  \<open>libm\<close>. Boundaries of markets are mathematical integers until they are stored; the overflow of
  \<open>int64_t\<close> is undefined there.
\<close>

definition FILL_LATENCY_US :: i64 where "FILL_LATENCY_US = 5000"
definition MARKET_DURATION_US :: int where "MARKET_DURATION_US = 300 * 1000000"
definition WARMUP_US :: i64 where "WARMUP_US = 120 * 1000000"
definition ANNUALISE :: f64 where "ANNUALISE = lit (1587451 / 100000)"

record trade =
  tr_entry_us :: i64
  tr_exit_us :: i64
  tr_market_id :: string
  tr_is_above :: bool
  tr_entry_price :: f64
  tr_exit_price :: f64
  tr_shares :: f64
  tr_hedge_entry_btc :: f64
  tr_hedge_exit_btc :: f64
  tr_hedge_qty_btc :: f64
  tr_pnl_usdc :: f64
  tr_predicted_edge :: f64
  tr_expired :: bool

record bt_market =
  bm_open_us :: i64
  bm_resolution_us :: i64
  bm_strike :: f64
  bm_is_above :: bool
  bm_id :: string

definition compute_e_min :: "shared_state \<Rightarrow> f64" where
  "compute_e_min sh =
     (let b = poly_best_bid sh; a = poly_best_ask sh;
          h = (if flt b a \<and> flt (fsub a b) (lit 1) then fdiv (fsub a b) (lit 2)
               else fdiv HALF_SPREAD_DEFAULT_CENTS (lit 100))
      in fdiv (fadd (fadd (fadd FEE_TAKER_CENTS (fmul h (lit 100))) FRICTION_SETTLEMENT_CENTS)
                 ALPHA_BUFFER_CENTS) (lit 100))"

subsection \<open>Loading\<close>

text \<open>
  A directory is the list of its entries, with the complete records of each file (\<open>None\<close>: it cannot
  be opened). \<open>std::sort\<close> leaves the order of equal timestamps open; the model keeps it.
\<close>

definition is_bin :: "string \<Rightarrow> bool" where
  "is_bin nm \<longleftrightarrow> 5 \<le> length nm \<and> drop (length nm - 4) nm = ''.bin''"

definition load_tick_dir :: "(string \<times> tick list option) list \<Rightarrow> tick list" where
  "load_tick_dir dir =
     sort_key (\<lambda>t. sint (timestamp_us t))
       (concat (map (\<lambda>(nm, f). if is_bin nm then (case f of None \<Rightarrow> [] | Some ts \<Rightarrow> ts) else []) dir))"

subsection \<open>Markets\<close>

definition is_btc :: "tick \<Rightarrow> bool" where
  "is_btc t \<longleftrightarrow> tick_source t = BINANCE \<and> flt (Fin 0) (mid t)"

definition btc_span_step :: "tick \<Rightarrow> i64 \<times> i64 \<Rightarrow> i64 \<times> i64" where
  "btc_span_step t = (\<lambda>(t_first, t_last).
     if is_btc t then (if t_first = 0 then timestamp_us t else t_first, timestamp_us t) else (t_first, t_last))"

definition btc_span :: "tick list \<Rightarrow> i64 \<times> i64" where
  "btc_span ticks = fold btc_span_step ticks (0, 0)"

fun advance_to :: "int \<Rightarrow> tick list \<Rightarrow> f64 \<Rightarrow> tick list \<times> f64" where
  "advance_to boundary [] btc = ([], btc)"
| "advance_to boundary (t # ts) btc =
     (if sint (timestamp_us t) \<le> boundary then advance_to boundary ts (if is_btc t then mid t else btc)
      else (t # ts, btc))"

text \<open>\<open>snprintf\<close> into 128 bytes.\<close>

definition market_id :: "string \<Rightarrow> f64 \<Rightarrow> i64 \<Rightarrow> string" where
  "market_id dir strike res = take 127 (''BTC-'' @ dir @ ''-'' @ printf_fixed 2 strike @ ''@'' @ ts_to_iso res)"

definition market_pair :: "int \<Rightarrow> f64 \<Rightarrow> bt_market list" where
  "market_pair boundary strike =
     (let o_us = word_of_int boundary; r_us = word_of_int (boundary + MARKET_DURATION_US)
      in [\<lparr>bm_open_us = o_us, bm_resolution_us = r_us, bm_strike = strike, bm_is_above = True,
           bm_id = market_id ''ABOVE'' strike r_us\<rparr>,
          \<lparr>bm_open_us = o_us, bm_resolution_us = r_us, bm_strike = strike, bm_is_above = False,
           bm_id = market_id ''BELOW'' strike r_us\<rparr>])"

function market_windows :: "int \<Rightarrow> int \<Rightarrow> tick list \<Rightarrow> f64 \<Rightarrow> bt_market list" where
  "market_windows boundary t_last cur btc =
     (if boundary + MARKET_DURATION_US \<le> t_last
      then case advance_to boundary cur btc of (cur', btc') \<Rightarrow>
             (if fle btc' (Fin 0) then [] else market_pair boundary btc')
             @ market_windows (boundary + MARKET_DURATION_US) t_last cur' btc'
      else [])"
  by auto
termination
  by (relation "measure (\<lambda>(b, l, _). nat (l - b))") (auto simp: MARKET_DURATION_US_def)

declare market_windows.simps [simp del]

definition detect_markets :: "tick list \<Rightarrow> bt_market list" where
  "detect_markets ticks =
     (case btc_span ticks of (t_first, t_last) \<Rightarrow>
        if t_first = 0 then []
        else market_windows ((sint t_first sdiv MARKET_DURATION_US + 1) * MARKET_DURATION_US) (sint t_last) ticks (Fin 0))"

subsection \<open>Replay\<close>

record replay =
  rp_engine :: engine
  rp_pos :: position_manager
  rp_entries_stopped :: bool
  rp_last_entry_us :: i64
  e_price :: f64
  e_hedge_btc :: f64
  e_hedge_qty :: f64
  e_shares :: f64
  e_edge :: f64
  e_us :: i64
  rp_bankroll :: f64
  rp_exposure :: f64
  rp_out :: "trade list"

definition new_replay :: "bt_market \<Rightarrow> f64 \<Rightarrow> f64 \<Rightarrow> trade list \<Rightarrow> replay" where
  "new_replay mkt bankroll exposure out =
     \<lparr>rp_engine = new_engine initial_shared
        (market_config.make [] (bm_strike mkt) (bm_resolution_us mkt) (bm_is_above mkt)),
      rp_pos = new_position_manager, rp_entries_stopped = False, rp_last_entry_us = 0,
      e_price = Fin 0, e_hedge_btc = Fin 0, e_hedge_qty = Fin 0, e_shares = Fin 0, e_edge = Fin 0, e_us = 0,
      rp_bankroll = bankroll, rp_exposure = exposure, rp_out = out\<rparr>"

definition rp_ss :: "replay \<Rightarrow> shared_state" where
  "rp_ss r = eg_ss (rp_engine r)"

definition closing_trade :: "bt_market \<Rightarrow> f64 \<Rightarrow> f64 \<Rightarrow> i64 \<Rightarrow> bool \<Rightarrow> replay \<Rightarrow> trade" where
  "closing_trade mkt exit_bid btc_exit exit_us expired r =
     \<lparr>tr_entry_us = e_us r, tr_exit_us = exit_us, tr_market_id = bm_id mkt, tr_is_above = bm_is_above mkt,
      tr_entry_price = e_price r, tr_exit_price = exit_bid, tr_shares = e_shares r,
      tr_hedge_entry_btc = e_hedge_btc r, tr_hedge_exit_btc = btc_exit, tr_hedge_qty_btc = e_hedge_qty r,
      tr_pnl_usdc = fadd (fmul (fsub exit_bid (e_price r)) (e_shares r))
                      (fmul (fsub (e_hedge_btc r) btc_exit) (e_hedge_qty r)),
      tr_predicted_edge = e_edge r, tr_expired = expired\<rparr>"

definition do_close :: "bt_market \<Rightarrow> f64 \<Rightarrow> f64 \<Rightarrow> i64 \<Rightarrow> bool \<Rightarrow> replay \<Rightarrow> replay" where
  "do_close mkt exit_bid btc_exit exit_us expired r =
     (let tr = closing_trade mkt exit_bid btc_exit exit_us expired r;
          x = fsub (rp_exposure r) (fmul (e_shares r) (e_price r))
      in r\<lparr>rp_out := rp_out r @ [tr], rp_exposure := (if flt x (Fin 0) then Fin 0 else x),
           rp_bankroll := fadd (rp_bankroll r) (tr_pnl_usdc tr), rp_pos := pm_close (rp_pos r)\<rparr>)"

text \<open>The close at resolution, inside the loop and after it.\<close>

definition settle :: "bt_market \<Rightarrow> replay \<Rightarrow> replay" where
  "settle mkt r =
     (let btc = btc_mid (rp_ss r);
          btc_fin = (if fle btc (Fin 0) then e_hedge_btc r else btc);
          wins = (if bm_is_above mkt then flt (bm_strike mkt) btc_fin else fle btc_fin (bm_strike mkt))
      in do_close mkt (if wins then Fin 1 else Fin 0) btc_fin (bm_resolution_us mkt) True r)"

definition close_now :: "bt_market \<Rightarrow> i64 \<Rightarrow> replay \<Rightarrow> replay" where
  "close_now mkt ts r = do_close mkt (poly_best_bid (rp_ss r)) (btc_mid (rp_ss r)) (ts + FILL_LATENCY_US) False r"

definition flip_tick :: "bt_market \<Rightarrow> tick \<Rightarrow> tick" where
  "flip_tick mkt t =
     (if \<not> bm_is_above mkt \<and> tick_source t = POLYMARKET \<and> flt (Fin 0) (mid t) \<and> flt (mid t) (Fin 1)
      then t\<lparr>mid := fsub (Fin 1) (mid t), best_bid := fsub (Fin 1) (best_ask t), best_ask := fsub (Fin 1) (best_bid t)\<rparr>
      else t)"

definition bt_t_rem :: "bt_market \<Rightarrow> tick \<Rightarrow> f64" where
  "bt_t_rem mkt t =
     fdiv (fsub (f64_of_int (sint (bm_resolution_us mkt))) (f64_of_int (sint (timestamp_us t)))) (lit 1000000)"

definition cooling_down :: "tick \<Rightarrow> replay \<Rightarrow> bool" where
  "cooling_down t r \<longleftrightarrow> 0 <s rp_last_entry_us r
     \<and> flt (fdiv (f64_of_int (sint (timestamp_us t - rp_last_entry_us r))) (lit 1000000)) MIN_TAKER_INTERVAL_S"

text \<open>The entry: size, hedge quantity and ask price, \<open>None\<close> where the loop goes on without one.\<close>

definition entry_terms :: "replay \<Rightarrow> (amount \<times> f64 \<times> f64) option" where
  "entry_terms r =
     (let sh = rp_ss r; p = p_true sh; pm = p_market sh; bt = btc_mid sh; edge = fsub p pm;
          bk = from_double (rp_bankroll r);
          sz = kelly_size_usdc p pm bk (from_double (rp_exposure r));
          hqty = hedge_btc_qty sz bt bk; ask = poly_best_ask sh
      in if fle p (Fin 0) \<or> fle pm (Fin 0) \<or> fle bt (Fin 0) then None
         else if flt edge (compute_e_min sh) then None
         else if sz < from_double (lit 1) then None
         else if flt hqty (lit (1 / 1000)) then None
         else if fle ask (Fin 0) \<or> fle (Fin 1) ask then None
         else Some (sz, hqty, ask))"

definition enter :: "tick \<Rightarrow> amount \<times> f64 \<times> f64 \<Rightarrow> replay \<Rightarrow> replay" where
  "enter t = (\<lambda>(sz, hqty, ask) r.
     let sh = rp_ss r; edge = fsub (p_true sh) (p_market sh); shr = fdiv (to_double sz) ask
     in r\<lparr>rp_pos := pm_open (empty_entry\<lparr>entry_price_poly := ask, shares := shr, hedge_entry_btc := btc_mid sh,
              hedge_qty_btc := hqty, initial_edge_value := from_double (fmul edge (to_double sz)),
              is_yes_long := True\<rparr>) (rp_pos r),
          e_price := ask, e_hedge_btc := btc_mid sh, e_hedge_qty := hqty, e_shares := shr, e_edge := edge,
          e_us := timestamp_us t + FILL_LATENCY_US, rp_last_entry_us := timestamp_us t,
          rp_exposure := fadd (rp_exposure r) (to_double sz)\<rparr>)"

definition manage_open :: "bt_market \<Rightarrow> tick \<Rightarrow> replay \<Rightarrow> bool \<times> replay" where
  "manage_open mkt t r =
     (if fle (bt_t_rem mkt t) (Fin 0) then (True, settle mkt r)
      else if fle (bt_t_rem mkt t) HEDGE_CLOSE_BEFORE_EXPIRY_S then (False, close_now mkt (timestamp_us t) r)
      else case pm_evaluate (rp_ss r) (rp_pos r) of (reason, pm) \<Rightarrow>
        (False, if reason = NONE then r\<lparr>rp_pos := pm\<rparr> else close_now mkt (timestamp_us t) (r\<lparr>rp_pos := pm\<rparr>)))"

definition try_entry :: "bt_market \<Rightarrow> tick \<Rightarrow> replay \<Rightarrow> replay" where
  "try_entry mkt t r =
     (if tick_source t \<noteq> BINANCE \<or> timestamp_us t <s bm_open_us mkt \<or> rp_entries_stopped r then r
      else if fle (bt_t_rem mkt t) (lit 120) then r\<lparr>rp_entries_stopped := True\<rparr>
      else if regime (rp_ss r) = SPIKE \<or> cooling_down t r then r
      else case entry_terms r of None \<Rightarrow> r | Some e \<Rightarrow> enter t e r)"

text \<open>One tick; the flag says that the loop breaks.\<close>

definition replay_tick :: "libm \<Rightarrow> bt_market \<Rightarrow> tick \<Rightarrow> replay \<Rightarrow> bool \<times> replay" where
  "replay_tick M mkt t r =
     (let r = r\<lparr>rp_engine := process_tick M (Fin 0) (flip_tick mkt t) (rp_engine r)\<rparr>
      in if is_open (rp_pos r) then manage_open mkt t r else (False, try_entry mkt t r))"

fun replay_ticks :: "libm \<Rightarrow> bt_market \<Rightarrow> tick list \<Rightarrow> replay \<Rightarrow> replay" where
  "replay_ticks M mkt [] r = r"
| "replay_ticks M mkt (t # ts) r =
     (case replay_tick M mkt t r of (brk, r') \<Rightarrow> if brk then r' else replay_ticks M mkt ts r')"

definition replay_market :: "libm \<Rightarrow> bt_market \<Rightarrow> tick list \<Rightarrow> f64 \<times> f64 \<times> trade list \<Rightarrow> f64 \<times> f64 \<times> trade list" where
  "replay_market M mkt ts = (\<lambda>(bankroll, exposure, out).
     let r = replay_ticks M mkt ts (new_replay mkt bankroll exposure out);
         r = (if is_open (rp_pos r) then settle mkt r else r)
     in (rp_bankroll r, rp_exposure r, rp_out r))"

subsection \<open>The window of a market\<close>

text \<open>The loop \<open>while (lo < hi)\<close> of both binary searches; \<open>early\<close> is its test.\<close>

function bisect :: "(tick \<Rightarrow> bool) \<Rightarrow> tick list \<Rightarrow> nat \<Rightarrow> nat \<Rightarrow> nat" where
  "bisect early ticks lo hi =
     (if lo < hi
      then let m = (lo + hi) div 2
           in if early (ticks ! m) then bisect early ticks (m + 1) hi else bisect early ticks lo m
      else lo)"
  by auto
termination
  by (relation "measure (\<lambda>(_, _, lo, hi). hi - lo)") auto

declare bisect.simps [simp del]

definition market_ticks :: "bt_market \<Rightarrow> tick list \<Rightarrow> tick list" where
  "market_ticks mkt ticks =
     (let ws = bm_open_us mkt - WARMUP_US;
          t_start = bisect (\<lambda>t. timestamp_us t <s ws) ticks 0 (length ticks);
          t_end = bisect (\<lambda>t. timestamp_us t \<le>s bm_resolution_us mkt) ticks t_start (length ticks)
      in List.take (t_end - t_start) (drop t_start ticks))"

definition replay_all :: "libm \<Rightarrow> tick list \<Rightarrow> bt_market list \<Rightarrow> f64 \<times> f64 \<times> trade list \<Rightarrow> f64 \<times> f64 \<times> trade list" where
  "replay_all M ticks =
     fold (\<lambda>mkt acc. if market_ticks mkt ticks = [] then acc else replay_market M mkt (market_ticks mkt ticks) acc)"

subsection \<open>Sharpe ratio\<close>

text \<open>\<open>std::map<int, double>\<close> as the list of its pairs in key order.\<close>

fun add_pnl :: "int \<Rightarrow> f64 \<Rightarrow> (int \<times> f64) list \<Rightarrow> (int \<times> f64) list" where
  "add_pnl k x [] = [(k, fadd (Fin 0) x)]"
| "add_pnl k x ((j, y) # d) =
     (if j < k then (j, y) # add_pnl k x d
      else if j = k then (j, fadd y x) # d
      else (k, fadd (Fin 0) x) # (j, y) # d)"

definition in_period :: "i64 \<Rightarrow> i64 \<Rightarrow> trade \<Rightarrow> bool" where
  "in_period from_us to_us t \<longleftrightarrow> \<not> tr_exit_us t <s from_us \<and> tr_exit_us t <s to_us"

definition daily_pnl :: "trade list \<Rightarrow> i64 \<Rightarrow> i64 \<Rightarrow> (int \<times> f64) list" where
  "daily_pnl trades from_us to_us =
     fold (\<lambda>t. add_pnl (sint (tr_exit_us t) sdiv 86400000000) (tr_pnl_usdc t)) (filter (in_period from_us to_us) trades) []"

definition daily_sharpe :: "libm \<Rightarrow> trade list \<Rightarrow> i64 \<Rightarrow> i64 \<Rightarrow> f64" where
  "daily_sharpe M trades from_us to_us =
     (let v = map snd (daily_pnl trades from_us to_us); n = int (length v)
      in if n < 2 then NaN
         else let mu = fdiv (fold (\<lambda>x s. fadd s x) v (Fin 0)) (f64_of_int n);
                  s2 = fdiv (fold (\<lambda>x s. fadd s (fmul (fsub x mu) (fsub x mu))) v (Fin 0)) (f64_of_int (n - 1));
                  sd = c_sqrt M s2
              in if flt sd (lit (1 / 10 ^ 12)) then NaN else fmul (fdiv mu sd) ANNUALISE)"

subsection \<open>Output\<close>

definition csv_header :: string where
  "csv_header =
     ''entry_time,exit_time,market,direction,entry_price,exit_price,shares,hedge_entry_btc,hedge_exit_btc,hedge_qty_btc,'' @
     ''pnl_usdc,predicted_edge,expired'' @ [CHR 0x0A]"

definition csv_row :: "trade \<Rightarrow> string" where
  "csv_row t =
     ts_to_iso (tr_entry_us t) @ '','' @ ts_to_iso (tr_exit_us t) @ '','' @ tr_market_id t @ '',''
     @ (if tr_is_above t then ''ABOVE'' else ''BELOW'') @ '',''
     @ printf_fixed 6 (tr_entry_price t) @ '','' @ printf_fixed 6 (tr_exit_price t) @ '','' @ printf_fixed 6 (tr_shares t) @ '',''
     @ printf_fixed 2 (tr_hedge_entry_btc t) @ '','' @ printf_fixed 2 (tr_hedge_exit_btc t) @ '',''
     @ printf_fixed 6 (tr_hedge_qty_btc t) @ '',''
     @ printf_fixed 6 (tr_pnl_usdc t) @ '','' @ printf_fixed 6 (tr_predicted_edge t) @ '',''
     @ (if tr_expired t then ''1'' else ''0'') @ [CHR 0x0A]"

definition write_csv :: "trade list \<Rightarrow> string" where
  "write_csv trades = csv_header @ concat (map csv_row trades)"

subsection \<open>The program\<close>

record bt_options =
  bo_tick_dir :: string
  bo_out_csv :: string
  bo_bankroll :: f64
  bo_samp_frac :: f64

definition default_options :: bt_options where
  "default_options = \<lparr>bo_tick_dir = [], bo_out_csv = ''trades.csv'', bo_bankroll = lit 1000, bo_samp_frac = lit (70 / 100)\<rparr>"

definition atof :: "string \<Rightarrow> f64" where
  "atof s = (case strtod s of None \<Rightarrow> Fin 0 | Some (x, _) \<Rightarrow> x)"

fun parse_args :: "string list \<Rightarrow> bt_options \<Rightarrow> bt_options option" where
  "parse_args (a # v # rest) opts =
     (if a = ''--tick-dir'' then parse_args rest (opts\<lparr>bo_tick_dir := v\<rparr>)
      else if a = ''--bankroll'' then parse_args rest (opts\<lparr>bo_bankroll := atof v\<rparr>)
      else if a = ''--out-csv'' then parse_args rest (opts\<lparr>bo_out_csv := v\<rparr>)
      else if a = ''--sample-frac'' then parse_args rest (opts\<lparr>bo_samp_frac := atof v\<rparr>)
      else None)"
| "parse_args [_] opts = None"
| "parse_args [] opts = Some opts"

definition split_time :: "f64 \<Rightarrow> bt_market list \<Rightarrow> i64" where
  "split_time samp_frac markets =
     (let n_windows = length markets div 2;
          split_wnd = (word_of_int (cast_int 0 u64_max (fmul samp_frac (f64_of_int (int n_windows)))) :: u64);
          i = unat (split_wnd * 2)
      in if i < length markets then bm_open_us (markets ! i) else bm_resolution_us (last markets))"

record bt_report =
  br_markets :: "bt_market list"
  br_trades :: "trade list"
  br_bankroll :: f64
  br_csv :: string
  br_split_us :: i64
  br_sharpe_in :: f64
  br_sharpe_out :: f64
  br_sharpe_all :: f64
  br_total_pnl :: f64
  br_above :: nat
  br_below :: nat
  br_wins :: nat
  br_expired :: nat

definition report :: "libm \<Rightarrow> bt_options \<Rightarrow> tick list \<Rightarrow> bt_market list \<Rightarrow> bt_report" where
  "report M opts ticks markets =
     (case replay_all M ticks markets (bo_bankroll opts, Fin 0, []) of (bankroll, _, trades) \<Rightarrow>
        let t0 = timestamp_us (hd ticks); t1 = timestamp_us (last ticks); split_us = split_time (bo_samp_frac opts) markets
        in \<lparr>br_markets = markets, br_trades = trades, br_bankroll = bankroll, br_csv = write_csv trades,
            br_split_us = split_us, br_sharpe_in = daily_sharpe M trades t0 split_us,
            br_sharpe_out = daily_sharpe M trades split_us t1, br_sharpe_all = daily_sharpe M trades t0 t1,
            br_total_pnl = fold (\<lambda>t s. fadd s (tr_pnl_usdc t)) trades (Fin 0),
            br_above = length (filter tr_is_above trades), br_below = length (filter (\<lambda>t. \<not> tr_is_above t) trades),
            br_wins = length (filter (\<lambda>t. flt (Fin 0) (tr_pnl_usdc t)) trades),
            br_expired = length (filter tr_expired trades)\<rparr>)"

text \<open>\<open>main\<close>: exit code 1, or the report that is printed before exit code 0.\<close>

definition bt_main :: "libm \<Rightarrow> (string \<Rightarrow> (string \<times> tick list option) list) \<Rightarrow> string list \<Rightarrow> int + bt_report" where
  "bt_main M dirs args =
     (case parse_args args default_options of
        None \<Rightarrow> Inl 1
      | Some opts \<Rightarrow>
          if bo_tick_dir opts = [] then Inl 1
          else let ticks = load_tick_dir (dirs (bo_tick_dir opts)); markets = detect_markets ticks
               in if ticks = [] \<or> markets = [] then Inl 1 else Inr (report M opts ticks markets))"

subsection \<open>The window is the filter\<close>

definition time_sorted :: "tick list \<Rightarrow> bool" where
  "time_sorted = sorted_wrt (\<lambda>a b. timestamp_us a \<le>s timestamp_us b)"

definition prefix_test :: "(tick \<Rightarrow> bool) \<Rightarrow> tick list \<Rightarrow> bool" where
  "prefix_test P ticks \<longleftrightarrow> (\<forall>j < length ticks. \<forall>i \<le> j. P (ticks ! j) \<longrightarrow> P (ticks ! i))"

lemma prefix_testI:
  assumes "time_sorted ticks" and "\<And>a b. timestamp_us a \<le>s timestamp_us b \<Longrightarrow> P b \<Longrightarrow> P a"
  shows "prefix_test P ticks"
  using assms by (auto simp: prefix_test_def time_sorted_def sorted_wrt_iff_nth_less le_eq_less_or_eq)

lemma bisect_spec:
  "prefix_test P ticks \<Longrightarrow> lo \<le> hi \<Longrightarrow> hi \<le> length ticks \<Longrightarrow>
    lo \<le> bisect P ticks lo hi \<and> bisect P ticks lo hi \<le> hi
    \<and> (\<forall>i. lo \<le> i \<and> i < bisect P ticks lo hi \<longrightarrow> P (ticks ! i)) \<and> (\<forall>i. bisect P ticks lo hi \<le> i \<and> i < hi \<longrightarrow> \<not> P (ticks ! i))"
proof (induction P ticks lo hi rule: bisect.induct)
  case (1 P ticks lo hi)
  let ?m = "(lo + hi) div 2"
  show ?case
  proof (cases "lo < hi")
    case True
    then have m: "lo \<le> ?m" "?m < hi" "?m < length ticks" using "1.prems" by auto
    show ?thesis
    proof (cases "P (ticks ! ?m)")
      case P: True
      then have "P (ticks ! i)" if "i < ?m + 1" for i using that m(3) "1.prems"(1) by (auto simp: prefix_test_def)
      moreover have "bisect P ticks lo hi = bisect P ticks (?m + 1) hi"
        using True P by (simp only: bisect.simps [of P ticks lo hi] Let_def if_True)
      moreover have "?m + 1 \<le> hi" using m by simp
      moreover note "1.IH"(1) [OF True refl P "1.prems"(1) calculation(3) "1.prems"(3)]
      ultimately show ?thesis using m(1) by (metis add_lessD1 le_add1 le_trans not_less)
    next
      case P: False
      have "\<not> P (ticks ! i)" if "?m \<le> i" "i < hi" for i
      proof -
        have "i < length ticks" using that "1.prems"(3) by simp
        then show ?thesis using that P "1.prems"(1) unfolding prefix_test_def by blast
      qed
      moreover have "bisect P ticks lo hi = bisect P ticks lo ?m"
        using True P by (simp only: bisect.simps [of P ticks lo hi] Let_def if_True if_False)
      moreover have "?m \<le> length ticks" using m by simp
      moreover note "1.IH"(2) [OF True refl P "1.prems"(1) m(1) calculation(3)]
      ultimately show ?thesis using m(2) by (metis le_trans less_imp_le not_less)
    qed
  next
    case False
    then have "bisect P ticks lo hi = lo" by (simp only: bisect.simps [of P ticks lo hi] if_False)
    then show ?thesis using "1.prems" False by auto
  qed
qed

lemma filter_middle:
  assumes "s \<le> e" and "e \<le> length xs" and "\<And>i. i < s \<Longrightarrow> \<not> P (xs ! i)" and "\<And>i. s \<le> i \<Longrightarrow> i < e \<Longrightarrow> P (xs ! i)"
    and "\<And>i. e \<le> i \<Longrightarrow> i < length xs \<Longrightarrow> \<not> P (xs ! i)"
  shows "List.take (e - s) (drop s xs) = filter P xs"
proof -
  have "xs = List.take s xs @ List.take (e - s) (drop s xs) @ drop e xs"
    using assms(1) by (metis append_take_drop_id drop_drop le_add_diff_inverse2)
  moreover have "filter P (List.take s xs) = []" "filter P (drop e xs) = []"
    using assms by (auto simp: filter_empty_conv in_set_conv_nth)
  moreover have "filter P (List.take (e - s) (drop s xs)) = List.take (e - s) (drop s xs)"
    using assms by (auto simp: filter_id_conv in_set_conv_nth)
  ultimately show ?thesis by (metis append_Nil append_Nil2 filter_append)
qed

text \<open>
  C23. The two binary searches. Over ticks in time order, the ticks replayed for a market are exactly
  those from 120 seconds before its open up to and including its resolution, in their order: none is
  missed at either end and no tick after the resolution is seen.
\<close>

theorem window_is_the_filter:
  assumes "time_sorted ticks"
  shows "market_ticks mkt ticks =
    filter (\<lambda>t. bm_open_us mkt - WARMUP_US \<le>s timestamp_us t \<and> timestamp_us t \<le>s bm_resolution_us mkt) ticks"
proof -
  let ?p = "\<lambda>t. timestamp_us t <s bm_open_us mkt - WARMUP_US" and ?q = "\<lambda>t. timestamp_us t \<le>s bm_resolution_us mkt"
  let ?s = "bisect ?p ticks 0 (length ticks)" let ?e = "bisect ?q ticks ?s (length ticks)"
  have "prefix_test ?p ticks" "prefix_test ?q ticks"
    by (rule prefix_testI [OF assms]; auto simp: word_sle_eq word_sless_alt)+
  from bisect_spec [OF this(1), of 0 "length ticks"] bisect_spec [OF this(2), of ?s "length ticks"]
  have s: "?s \<le> length ticks" "\<And>i. i < ?s \<Longrightarrow> ?p (ticks ! i)" "\<And>i. ?s \<le> i \<Longrightarrow> i < length ticks \<Longrightarrow> \<not> ?p (ticks ! i)"
    and e: "?s \<le> ?e" "?e \<le> length ticks" "\<And>i. ?s \<le> i \<Longrightarrow> i < ?e \<Longrightarrow> ?q (ticks ! i)"
    "\<And>i. ?e \<le> i \<Longrightarrow> i < length ticks \<Longrightarrow> \<not> ?q (ticks ! i)"
    by auto
  have "List.take (?e - ?s) (drop ?s ticks) = filter (\<lambda>t. \<not> ?p t \<and> ?q t) ticks"
    using s e by (intro filter_middle) auto
  then show ?thesis by (simp add: market_ticks_def Let_def word_sless_alt word_sle_eq not_less)
qed

definition btc_tick :: "i64 \<Rightarrow> f64 \<Rightarrow> tick" where
  "btc_tick ts p = \<lparr>timestamp_us = ts, tick_source = BINANCE, best_bid = p, best_ask = p, mid = p, ob_imbalance = Fin 0,
     last_trade = Fin 0, low_depth = False\<rparr>"

definition sample_bt_market :: bt_market where
  "sample_bt_market = \<lparr>bm_open_us = 300000000, bm_resolution_us = 600000000, bm_strike = Fin 60000, bm_is_above = True, bm_id = ''m''\<rparr>"

theorem window_is_the_filter_witness:
  "market_ticks sample_bt_market [btc_tick 100000000 (Fin 60000), btc_tick 400000000 (Fin 60000), btc_tick 700000000 (Fin 60000)]
     = [btc_tick 400000000 (Fin 60000)]"
proof -
  have "time_sorted [btc_tick 100000000 (Fin 60000), btc_tick 400000000 (Fin 60000), btc_tick 700000000 (Fin 60000)]"
    by (simp add: time_sorted_def btc_tick_def word_sle_eq)
  from window_is_the_filter [OF this, of sample_bt_market] show ?thesis
    by (simp add: sample_bt_market_def btc_tick_def WARMUP_US_def word_sle_eq)
qed

subsection \<open>The markets that are found\<close>

definition last_price :: "int \<Rightarrow> tick list \<Rightarrow> f64" where
  "last_price b ticks = (case filter (\<lambda>t. is_btc t \<and> sint (timestamp_us t) \<le> b) ticks of [] \<Rightarrow> Fin 0 | xs \<Rightarrow> mid (last xs))"

definition price_from :: "f64 \<Rightarrow> tick list \<Rightarrow> f64" where
  "price_from btc ts = fold (\<lambda>t p. if is_btc t then mid t else p) ts btc"

lemma advance_to_sorted:
  "time_sorted ts \<Longrightarrow> advance_to b ts btc =
     (filter (\<lambda>t. b < sint (timestamp_us t)) ts, price_from btc (filter (\<lambda>t. sint (timestamp_us t) \<le> b) ts))"
proof (induction ts arbitrary: btc)
  case (Cons t ts)
  have s: "time_sorted ts" using Cons.prems by (simp add: time_sorted_def)
  show ?case
  proof (cases "sint (timestamp_us t) \<le> b")
    case True
    then show ?thesis using Cons.IH [OF s] by (simp add: price_from_def)
  next
    case False
    then have "\<forall>u \<in> set (t # ts). b < sint (timestamp_us u)"
      using Cons.prems by (auto simp: time_sorted_def word_sle_eq)
    then have "filter (\<lambda>t. b < sint (timestamp_us t)) (t # ts) = t # ts" "filter (\<lambda>t. sint (timestamp_us t) \<le> b) (t # ts) = []"
      by (auto simp only: filter_id_conv filter_empty_conv not_le)
    then show ?thesis using False by (simp only: advance_to.simps if_False) (simp add: price_from_def)
  qed
qed (simp add: price_from_def)

lemma price_from_last: "price_from btc ts = (case filter is_btc ts of [] \<Rightarrow> btc | xs \<Rightarrow> mid (last xs))"
  by (induction ts rule: rev_induct) (auto simp: price_from_def split: list.splits)

lemma price_from_append: "price_from (price_from btc xs) ys = price_from btc (xs @ ys)"
  by (simp add: price_from_def)

lemma last_price_from: "last_price b ticks = price_from (Fin 0) (filter (\<lambda>t. sint (timestamp_us t) \<le> b) ticks)"
  by (simp add: last_price_def price_from_last conj_commute)

lemma filter_split_time:
  assumes "time_sorted ticks" and "a \<le> b"
  shows "filter (\<lambda>t. sint (timestamp_us t) \<le> a) ticks @ filter (\<lambda>t. a < sint (timestamp_us t) \<and> sint (timestamp_us t) \<le> b) ticks
    = filter (\<lambda>t. sint (timestamp_us t) \<le> b) ticks"
  using assms(1)
proof (induction ticks)
  case (Cons t ts)
  have IH: "filter (\<lambda>t. sint (timestamp_us t) \<le> a) ts @ filter (\<lambda>t. a < sint (timestamp_us t) \<and> sint (timestamp_us t) \<le> b) ts
    = filter (\<lambda>t. sint (timestamp_us t) \<le> b) ts" using Cons by (simp add: time_sorted_def)
  show ?case
  proof (cases "sint (timestamp_us t) \<le> a")
    case True
    then show ?thesis using IH assms(2) by simp
  next
    case False
    then have "filter (\<lambda>t. sint (timestamp_us t) \<le> a) ts = []"
      using Cons.prems by (auto simp: filter_empty_conv time_sorted_def word_sle_eq)
    then show ?thesis using IH False by simp
  qed
qed simp

lemma market_windows_eq:
  assumes "time_sorted ticks"
  shows "prev \<le> b \<Longrightarrow> cur = filter (\<lambda>t. prev < sint (timestamp_us t)) ticks \<Longrightarrow> btc = last_price prev ticks \<Longrightarrow>
    market_windows b t_last cur btc =
      concat (map (\<lambda>i. let o_us = b + int i * MARKET_DURATION_US; p = last_price o_us ticks
                       in if fle p (Fin 0) then [] else market_pair o_us p)
                  [0..<nat ((t_last - b) div MARKET_DURATION_US)])"
proof (induction b t_last cur btc arbitrary: prev rule: market_windows.induct)
  case (1 b t_last cur btc)
  let ?D = MARKET_DURATION_US let ?n = "nat ((t_last - b) div ?D)"
  have D: "0 < ?D" by (simp add: MARKET_DURATION_US_def)
  show ?case
  proof (cases "b + ?D \<le> t_last")
    case True
    have s: "time_sorted cur" using assms by (simp add: "1.prems" time_sorted_def sorted_wrt_filter)
    have "filter (\<lambda>t. b < sint (timestamp_us t)) cur = filter (\<lambda>t. b < sint (timestamp_us t)) ticks"
      using "1.prems"(1) by (auto simp: "1.prems"(2) intro!: filter_cong)
    moreover have "price_from btc (filter (\<lambda>t. sint (timestamp_us t) \<le> b) cur) = last_price b ticks"
      using filter_split_time [OF assms "1.prems"(1)]
      by (simp add: "1.prems"(2,3) last_price_from price_from_append)
    ultimately have a: "advance_to b cur btc = (filter (\<lambda>t. b < sint (timestamp_us t)) ticks, last_price b ticks)"
      by (simp add: advance_to_sorted [OF s])
    have "(t_last - b) div ?D = (t_last - (b + ?D)) div ?D + 1"
      using D div_add_self2 [of ?D "t_last - b - ?D"] by (simp add: algebra_simps)
    moreover have "0 \<le> (t_last - (b + ?D)) div ?D" using True D by (simp add: pos_imp_zdiv_nonneg_iff)
    ultimately have n: "?n = Suc (nat ((t_last - (b + ?D)) div ?D))" by simp
    have "b \<le> b + ?D" using D by simp
    from "1.IH" [OF True a [symmetric] this refl refl] True
    have "market_windows b t_last cur btc = (if fle (last_price b ticks) (Fin 0) then [] else market_pair b (last_price b ticks))
      @ concat (map (\<lambda>i. let o_us = b + ?D + int i * ?D; p = last_price o_us ticks
                       in if fle p (Fin 0) then [] else market_pair o_us p) [0..<nat ((t_last - (b + ?D)) div ?D)])"
      by (subst market_windows.simps) (simp add: a)
    also have "\<dots> = concat (map (\<lambda>i. let o_us = b + int i * ?D; p = last_price o_us ticks
                       in if fle p (Fin 0) then [] else market_pair o_us p) [0..<?n])"
      unfolding n map_upt_Suc by (simp add: algebra_simps Let_def)
    finally show ?thesis .
  next
    case False
    then have "(t_last - b) div ?D \<le> (?D - 1) div ?D" using D by (intro zdiv_mono1) simp_all
    also have "\<dots> = 0" using D by (intro div_pos_pos_trivial) simp_all
    finally have "nat ((t_last - b) div ?D) = 0" by simp
    then show ?thesis using False by (subst market_windows.simps) simp
  qed
qed

lemma btc_span_eq:
  "list_all (\<lambda>t. timestamp_us t \<noteq> 0) ticks \<Longrightarrow> btc_span ticks =
     (case filter is_btc ticks of [] \<Rightarrow> (0, 0) | bs \<Rightarrow> (timestamp_us (hd bs), timestamp_us (last bs)))"
proof (induction ticks rule: rev_induct)
  case (snoc t ts)
  have f: "list_all (\<lambda>t. timestamp_us t \<noteq> 0) ts" "timestamp_us t \<noteq> 0" using snoc.prems by simp_all
  have h: "filter is_btc ts = u # us \<Longrightarrow> timestamp_us u \<noteq> 0" for u us
    using f(1) Cons_eq_filterD [of u us is_btc ts] by (auto simp: list_all_iff)
  have "btc_span (ts @ [t]) = btc_span_step t (btc_span ts)" by (simp add: btc_span_def)
  then show ?case using snoc.IH [OF f(1)] f(2) h by (auto simp: btc_span_step_def split: list.splits)
qed (simp add: btc_span_def)

text \<open>
  C22. Market detection. Over ticks in time order, every full five-minute boundary after the first
  Binance price whose market ends by the last one gives exactly one market above and one below, and
  their strike is the last Binance price at or before the open: no later tick can influence it.
\<close>

theorem markets_without_lookahead:
  assumes "time_sorted ticks" and "list_all (\<lambda>t. 0 <s timestamp_us t) ticks" and "filter is_btc ticks = t0 # bs"
  defines "b0 \<equiv> (sint (timestamp_us t0) div 300000000 + 1) * 300000000"
    and "t1 \<equiv> sint (timestamp_us (last (t0 # bs)))"
  shows "detect_markets ticks =
    concat (map (\<lambda>i. market_pair (b0 + int i * 300000000) (last_price (b0 + int i * 300000000) ticks))
      [0..<nat ((t1 - b0) div 300000000)])"
proof -
  have D: "MARKET_DURATION_US = 300000000" by (simp add: MARKET_DURATION_US_def)
  have t0: "t0 \<in> set ticks" "is_btc t0" using Cons_eq_filterD [OF assms(3) [symmetric]] by auto
  then have pos: "0 < sint (timestamp_us t0)" using assms(2) by (auto simp: list_all_iff word_sless_alt)
  have nz: "list_all (\<lambda>t. timestamp_us t \<noteq> 0) ticks"
    using assms(2) by (auto simp: list_all_iff word_sless_alt)
  have "sint (timestamp_us t0) sdiv 300000000 = sint (timestamp_us t0) div 300000000"
    using pos by (simp add: signed_divide_int_def sgn_if)
  then have "detect_markets ticks = market_windows b0 t1 ticks (Fin 0)"
    using pos by (auto simp: detect_markets_def btc_span_eq [OF nz] assms(3) D b0_def t1_def split: if_splits)
  also have "\<dots> = concat (map (\<lambda>i. let o_us = b0 + int i * 300000000; p = last_price o_us ticks
                       in if fle p (Fin 0) then [] else market_pair o_us p) [0..<nat ((t1 - b0) div 300000000)])"
    unfolding D [symmetric]
  proof (rule market_windows_eq [OF assms(1), of 0])
    show "0 \<le> b0" using pos by (simp add: b0_def)
    show "ticks = filter (\<lambda>t. 0 < sint (timestamp_us t)) ticks"
      using assms(2) by (auto simp: list_all_iff word_sless_alt intro!: filter_True [symmetric])
    show "Fin 0 = last_price 0 ticks"
      using assms(2) by (auto simp: last_price_def list_all_iff word_sless_alt filter_empty_conv not_le split: list.splits)
  qed
  finally have e: "detect_markets ticks = \<dots>" .
  have "\<not> fle (last_price (b0 + int i * 300000000) ticks) (Fin 0)" for i
  proof -
    have "sint (timestamp_us t0) \<le> b0 + int i * 300000000"
      using mult_div_mod_eq [of 300000000 "sint (timestamp_us t0)"] pos_mod_bound [of 300000000 "sint (timestamp_us t0)"]
      by (simp add: b0_def algebra_simps)
    then have "t0 \<in> set (filter (\<lambda>t. is_btc t \<and> sint (timestamp_us t) \<le> b0 + int i * 300000000) ticks)" using t0 by simp
    then obtain x xs where f: "filter (\<lambda>t. is_btc t \<and> sint (timestamp_us t) \<le> b0 + int i * 300000000) ticks = x # xs"
      by (metis list.exhaust list.set(1) empty_iff)
    have "last (x # xs) \<in> set (x # xs)" by (rule last_in_set) simp
    then have "is_btc (last (x # xs))" unfolding f [symmetric] by simp
    then show ?thesis unfolding last_price_def f by (cases "mid (last (x # xs))") (auto simp: is_btc_def)
  qed
  then show ?thesis by (simp add: e Let_def)
qed

theorem markets_without_lookahead_witness:
  "map bm_open_us (detect_markets [btc_tick 100000000 (Fin 60000), btc_tick 650000000 (Fin 61000), btc_tick 900000000 (Fin 62000)])
     = [300000000, 300000000, 600000000, 600000000]"
proof -
  let ?ts = "[btc_tick 100000000 (Fin 60000), btc_tick 650000000 (Fin 61000), btc_tick 900000000 (Fin 62000)]"
  have "time_sorted ?ts" "list_all (\<lambda>t. 0 <s timestamp_us t) ?ts"
    by (simp_all add: time_sorted_def btc_tick_def word_sle_eq word_sless_alt)
  moreover have "filter is_btc ?ts = ?ts" by (simp add: is_btc_def btc_tick_def)
  ultimately have "detect_markets ?ts = concat (map (\<lambda>i. market_pair (300000000 + int i * 300000000)
      (last_price (300000000 + int i * 300000000) ?ts)) [0..<2])"
    using markets_without_lookahead [of ?ts "btc_tick 100000000 (Fin 60000)"] by (simp add: btc_tick_def)
  then show ?thesis by (simp add: market_pair_def Let_def upt_rec)
qed

end
