(* ===== verification/Replay_Safety.thy ===== *)
theory Replay_Safety
  imports Backtest
begin

text \<open>
  What a replay of the backtest does to the books: the trades it adds, the bankroll and the entries of
  one market, as an invariant of the loop over its ticks.
\<close>

definition entry_gap :: "i64 \<Rightarrow> i64 \<Rightarrow> bool" where
  "entry_gap a b \<longleftrightarrow> \<not> flt (fdiv (f64_of_int (sint (b - a))) (lit 1000000)) MIN_TAKER_INTERVAL_S"

definition entered_at :: "bt_market \<Rightarrow> tick list \<Rightarrow> i64 \<Rightarrow> bool" where
  "entered_at mkt ts e \<longleftrightarrow> (\<exists>t \<in> set ts. tick_source t = BINANCE \<and> \<not> timestamp_us t <s bm_open_us mkt
     \<and> \<not> fle (bt_t_rem mkt t) (lit 120) \<and> e = timestamp_us t + FILL_LATENCY_US)"

definition fill_ok :: "f64 \<Rightarrow> f64 \<Rightarrow> bool" where
  "fill_ok price qty \<longleftrightarrow> \<not> fle price (Fin 0) \<and> \<not> fle (Fin 1) price \<and> \<not> flt qty (lit (1 / 1000))"

definition exit_ok :: "bt_market \<Rightarrow> tick list \<Rightarrow> trade \<Rightarrow> bool" where
  "exit_ok mkt ts tr \<longleftrightarrow>
     (if tr_expired tr then tr_exit_us tr = bm_resolution_us mkt \<and> tr_exit_price tr \<in> {Fin 0, Fin 1}
      else \<exists>t \<in> set ts. tr_exit_us tr = timestamp_us t + FILL_LATENCY_US)"

definition pnl_ok :: "trade \<Rightarrow> bool" where
  "pnl_ok tr \<longleftrightarrow> tr_pnl_usdc tr =
     fadd (fmul (fsub (tr_exit_price tr) (tr_entry_price tr)) (tr_shares tr))
       (fmul (fsub (tr_hedge_entry_btc tr) (tr_hedge_exit_btc tr)) (tr_hedge_qty_btc tr))"

definition trade_sound :: "bt_market \<Rightarrow> tick list \<Rightarrow> trade \<Rightarrow> bool" where
  "trade_sound mkt ts tr \<longleftrightarrow> tr_market_id tr = bm_id mkt \<and> tr_is_above tr = bm_is_above mkt
     \<and> entered_at mkt ts (tr_entry_us tr) \<and> fill_ok (tr_entry_price tr) (tr_hedge_qty_btc tr) \<and> exit_ok mkt ts tr \<and> pnl_ok tr"

definition add_up :: "trade list \<Rightarrow> f64 \<Rightarrow> f64" where
  "add_up = fold (\<lambda>t b. fadd b (tr_pnl_usdc t))"

definition books :: "bt_market \<Rightarrow> tick list \<Rightarrow> f64 \<Rightarrow> trade list \<Rightarrow> trade list \<Rightarrow> replay \<Rightarrow> bool" where
  "books mkt ts bankroll out new r \<longleftrightarrow>
     rp_out r = out @ new \<and> rp_bankroll r = add_up new bankroll \<and> list_all (trade_sound mkt ts) new
     \<and> successively (\<lambda>a b. entry_gap (tr_entry_us a) (tr_entry_us b)) new"

definition replay_inv :: "bt_market \<Rightarrow> tick list \<Rightarrow> f64 \<Rightarrow> trade list \<Rightarrow> trade list \<Rightarrow> replay \<Rightarrow> bool" where
  "replay_inv mkt ts bankroll out new r \<longleftrightarrow> books mkt ts bankroll out new r \<and>
     (if is_open (rp_pos r)
      then entered_at mkt ts (e_us r) \<and> fill_ok (e_price r) (e_hedge_qty r) \<and> rp_last_entry_us r = e_us r - FILL_LATENCY_US
        \<and> (new = [] \<or> entry_gap (tr_entry_us (last new)) (e_us r))
      else new = [] \<or> rp_last_entry_us r = tr_entry_us (last new) - FILL_LATENCY_US)"

lemma replay_inv_frame:
  "replay_inv mkt ts b out new r \<Longrightarrow> is_open pm = is_open (rp_pos r) \<Longrightarrow>
     replay_inv mkt ts b out new (r\<lparr>rp_engine := e, rp_entries_stopped := x, rp_pos := pm\<rparr>)"
  by (simp add: replay_inv_def books_def)

lemma do_close_inv:
  assumes "replay_inv mkt ts b out new r" and "is_open (rp_pos r)"
    and "exit_ok mkt ts (closing_trade mkt exit_bid btc_exit exit_us expired r)"
  shows "replay_inv mkt ts b out (new @ [closing_trade mkt exit_bid btc_exit exit_us expired r])
      (do_close mkt exit_bid btc_exit exit_us expired r)
    \<and> \<not> is_open (rp_pos (do_close mkt exit_bid btc_exit exit_us expired r))"
  using assms
  by (auto simp: replay_inv_def books_def do_close_def Let_def add_up_def trade_sound_def pnl_ok_def closing_trade_def
      pm_close_def successively_append_iff)

lemma settle_inv:
  assumes "replay_inv mkt ts b out new r" and "is_open (rp_pos r)"
  shows "\<exists>new'. replay_inv mkt ts b out new' (settle mkt r) \<and> \<not> is_open (rp_pos (settle mkt r))"
proof -
  have "exit_ok mkt ts (closing_trade mkt (if w then Fin 1 else Fin 0) c (bm_resolution_us mkt) True r)" for w c
    by (simp add: exit_ok_def closing_trade_def)
  from do_close_inv [OF assms this] show ?thesis unfolding settle_def Let_def by blast
qed

lemma close_now_inv:
  assumes "replay_inv mkt ts b out new r" and "is_open (rp_pos r)" and "t \<in> set ts"
  shows "\<exists>new'. replay_inv mkt ts b out new' (close_now mkt (timestamp_us t) r)"
proof -
  have "exit_ok mkt ts (closing_trade mkt x c (timestamp_us t + FILL_LATENCY_US) False r)" for x c
    using assms(3) by (auto simp: exit_ok_def closing_trade_def)
  from do_close_inv [OF assms(1,2) this] show ?thesis unfolding close_now_def by blast
qed

lemma entry_terms_fill: "entry_terms r = Some (sz, hqty, ask) \<Longrightarrow> fill_ok ask hqty"
  by (auto simp: entry_terms_def Let_def fill_ok_def split: if_splits)

lemma enter_inv:
  assumes "replay_inv mkt ts b out new r" and "\<not> is_open (rp_pos r)" and "t \<in> set ts"
    and "tick_source t = BINANCE" "\<not> timestamp_us t <s bm_open_us mkt" "\<not> fle (bt_t_rem mkt t) (lit 120)"
    and "\<not> cooling_down t r" and "entry_terms r = Some e" and "list_all (\<lambda>t. 0 <s timestamp_us t) ts"
  shows "replay_inv mkt ts b out new (enter t e r)"
proof -
  obtain sz hqty ask where e: "e = (sz, hqty, ask)" by (cases e) auto
  have gap: "entry_gap (tr_entry_us (last new)) (timestamp_us t + FILL_LATENCY_US)" if n: "new \<noteq> []"
  proof -
    have l: "rp_last_entry_us r = tr_entry_us (last new) - FILL_LATENCY_US" using assms(1,2) n by (simp add: replay_inv_def)
    have "trade_sound mkt ts (last new)" using assms(1) n by (auto simp: replay_inv_def books_def list_all_iff)
    then obtain u where "u \<in> set ts" "tr_entry_us (last new) = timestamp_us u + FILL_LATENCY_US"
      by (auto simp: trade_sound_def entered_at_def)
    then have "0 <s rp_last_entry_us r" using assms(9) by (auto simp: l list_all_iff)
    then show ?thesis using assms(7) unfolding cooling_down_def entry_gap_def l by (simp add: algebra_simps)
  qed
  then show ?thesis
    using assms(1-6) entry_terms_fill [of r sz hqty ask] assms(8)
    by (auto simp: e replay_inv_def books_def enter_def Let_def pm_open_def entered_at_def)
qed

lemma try_entry_inv:
  assumes "replay_inv mkt ts b out new r" and "\<not> is_open (rp_pos r)" and "t \<in> set ts"
    and "list_all (\<lambda>t. 0 <s timestamp_us t) ts"
  shows "replay_inv mkt ts b out new (try_entry mkt t r)"
  using assms replay_inv_frame [OF assms(1), where pm = "rp_pos r" and e = "rp_engine r" and x = True] enter_inv [OF assms(1,2,3) _ _ _ _ _ assms(4)]
  by (auto simp: try_entry_def split: option.splits)

lemma manage_open_inv:
  assumes "replay_inv mkt ts b out new r" and "is_open (rp_pos r)" and "t \<in> set ts"
  shows "\<exists>new'. replay_inv mkt ts b out new' (snd (manage_open mkt t r))"
proof -
  obtain reason pm where pm: "pm_evaluate (rp_ss r) (rp_pos r) = (reason, pm)" by fastforce
  have o: "is_open pm" using pm_evaluate_keeps [OF pm] assms(2) by simp
  have i2: "replay_inv mkt ts b out new (r\<lparr>rp_pos := pm\<rparr>)"
    using replay_inv_frame [OF assms(1), where pm = pm and e = "rp_engine r" and x = "rp_entries_stopped r"] o assms(2) by simp
  have "is_open (rp_pos (r\<lparr>rp_pos := pm\<rparr>))" using o by simp
  from settle_inv [OF assms(1,2)] close_now_inv [OF assms] close_now_inv [OF i2 this assms(3)] i2 show ?thesis
    by (simp add: manage_open_def pm) blast
qed

lemma replay_tick_inv:
  assumes "replay_inv mkt ts b out new r" and "t \<in> set ts" and "list_all (\<lambda>t. 0 <s timestamp_us t) ts"
  shows "\<exists>new'. replay_inv mkt ts b out new' (snd (replay_tick M mkt t r))"
proof -
  let ?r = "r\<lparr>rp_engine := process_tick M (Fin 0) (flip_tick mkt t) (rp_engine r)\<rparr>"
  have i: "replay_inv mkt ts b out new ?r"
    using replay_inv_frame [OF assms(1), where pm = "rp_pos r" and x = "rp_entries_stopped r"] by simp
  have "snd (replay_tick M mkt t r) = (if is_open (rp_pos ?r) then snd (manage_open mkt t ?r) else try_entry mkt t ?r)"
    by (simp add: replay_tick_def Let_def)
  then show ?thesis using manage_open_inv [OF i _ assms(2)] try_entry_inv [OF i _ assms(2,3)] by (cases "is_open (rp_pos ?r)") auto
qed

lemma replay_ticks_inv:
  assumes "list_all (\<lambda>t. 0 <s timestamp_us t) ts"
  shows "set us \<subseteq> set ts \<Longrightarrow> replay_inv mkt ts b out new r \<Longrightarrow> \<exists>new'. replay_inv mkt ts b out new' (replay_ticks M mkt us r)"
proof (induction us arbitrary: new r)
  case (Cons t us)
  from replay_tick_inv [OF Cons.prems(2) _ assms, of t M] Cons.prems(1)
  obtain new' where n: "replay_inv mkt ts b out new' (snd (replay_tick M mkt t r))" by auto
  show ?case using Cons.IH [OF _ n] n Cons.prems(1) by (auto split: prod.splits)
qed auto



subsection \<open>The default bankroll\<close>

definition expensive :: "tick \<Rightarrow> bool" where
  "expensive t \<longleftrightarrow> tick_source t \<noteq> BINANCE \<or> fle (mid t) (Fin 0) \<or> fle (Fin 50001) (mid t) \<or> mid t = NaN"

lemma process_tick_btc:
  assumes "expensive t" and "fle (btc_mid (eg_ss e)) (Fin 0) \<or> fle (Fin 50001) (btc_mid (eg_ss e))"
  shows "fle (btc_mid (eg_ss (process_tick M funding t e))) (Fin 0) \<or> fle (Fin 50001) (btc_mid (eg_ss (process_tick M funding t e)))"
proof -
  have u: "btc_mid (eg_ss (run_bayesian_update M funding t e)) = btc_mid (eg_ss e)" for e
    by (rule run_bayesian_update_cases [of M funding t e]) simp_all
  show ?thesis using assms
    by (auto simp: process_tick_def coinbase_tick_def polymarket_tick_def binance_tick_def expensive_def Let_def u
        dest: fle_not_flt split: source.splits)
qed

definition idle_inv :: "trade list \<Rightarrow> f64 \<Rightarrow> replay \<Rightarrow> bool" where
  "idle_inv out x r \<longleftrightarrow> \<not> is_open (rp_pos r) \<and> rp_bankroll r = Fin 1000 \<and> rp_exposure r = x \<and> rp_out r = out
     \<and> (fle (btc_mid (rp_ss r)) (Fin 0) \<or> fle (Fin 50001) (btc_mid (rp_ss r)))"

lemma no_terms:
  assumes "idle_inv out (Fin 0) r"
  shows "entry_terms r = None"
proof -
  have b: "from_double (Fin 1000) = Amount 1000000000"
    by (simp add: from_double_def i64_of_f64_def lit_numeral fl_numeral saturate_def i64_min_def i64_max_def)
  have z: "from_double (Fin 0) = amount_zero"
    by (simp add: from_double_def i64_of_f64_def amount_zero_def saturate_def i64_min_def i64_max_def)
  let ?sz = "kelly_size_usdc (p_true (rp_ss r)) (p_market (rp_ss r)) (Amount 1000000000) amount_zero"
  have "0 \<le> raw ?sz" using kelly_caps [of amount_zero] by (simp add: amount_zero_def)
  then have "fle (btc_mid (rp_ss r)) (Fin 0) \<or> flt (hedge_btc_qty ?sz (btc_mid (rp_ss r)) (Amount 1000000000)) (lit (1 / 1000))"
    using assms hedge_below_minimum_1000 by (auto simp: idle_inv_def)
  then show ?thesis using assms by (auto simp: entry_terms_def Let_def idle_inv_def b z)
qed

lemma idle_tick:
  assumes "expensive t" and "idle_inv out (Fin 0) r"
  shows "fst (replay_tick M mkt t r) = False \<and> idle_inv out (Fin 0) (snd (replay_tick M mkt t r))"
proof -
  let ?r = "r\<lparr>rp_engine := process_tick M (Fin 0) (flip_tick mkt t) (rp_engine r)\<rparr>"
  have "expensive (flip_tick mkt t)" using assms(1) by (auto simp: flip_tick_def expensive_def)
  from process_tick_btc [OF this] assms(2) have i: "idle_inv out (Fin 0) ?r" by (simp add: idle_inv_def rp_ss_def)
  then show ?thesis using no_terms [OF i]
    by (simp add: replay_tick_def Let_def try_entry_def idle_inv_def rp_ss_def)
qed

lemma idle_ticks:
  "list_all expensive ts \<Longrightarrow> idle_inv out (Fin 0) r \<Longrightarrow> idle_inv out (Fin 0) (replay_ticks M mkt ts r)"
proof (induction ts arbitrary: r)
  case (Cons t ts)
  then show ?case using idle_tick [of t out r M mkt] by (auto split: prod.splits)
qed simp

text \<open>
  The default bankroll. Started without \<open>--bankroll\<close>, the backtest makes no trade at all
  on data in which every Binance price is at least 50001 dollars: five percent of 1000 dollars is
  below the minimum hedge of 0.001 BTC. Bankroll and exposure end where they began.
\<close>

theorem default_backtest_never_trades:
  assumes "list_all expensive ticks"
  shows "replay_all M ticks markets (bo_bankroll default_options, Fin 0, []) = (Fin 1000, Fin 0, [])"
proof -
  have "list_all expensive (market_ticks mkt ticks)" for mkt
    using assms by (auto simp: market_ticks_def Let_def list_all_iff dest: in_set_takeD in_set_dropD)
  moreover have "idle_inv [] (Fin 0) (new_replay mkt (Fin 1000) (Fin 0) [])" for mkt
    by (simp add: idle_inv_def new_replay_def rp_ss_def new_engine_def new_position_manager_def initial_shared_def)
  ultimately have i: "idle_inv [] (Fin 0) (replay_ticks M mkt (market_ticks mkt ticks) (new_replay mkt (Fin 1000) (Fin 0) []))" for mkt
    by (rule idle_ticks)
  have "replay_market M mkt (market_ticks mkt ticks) (Fin 1000, Fin 0, []) = (Fin 1000, Fin 0, [])" for mkt
    using i [of mkt] by (simp add: replay_market_def Let_def idle_inv_def)
  then have "replay_all M ticks markets (Fin 1000, Fin 0, []) = (Fin 1000, Fin 0, [])"
    by (induction markets) (simp_all add: replay_all_def)
  then show ?thesis by (simp add: default_options_def lit_numeral fl_numeral)
qed

theorem default_backtest_never_trades_witness:
  "replay_all plain_libm [btc_tick 400000000 (Fin 60000)] [sample_bt_market] (bo_bankroll default_options, Fin 0, []) = (Fin 1000, Fin 0, [])"
  by (rule default_backtest_never_trades) (simp add: expensive_def btc_tick_def)

end
