(* ===== verification/Recorder.thy ===== *)
theory Recorder
  imports Ring_Buffer Tick Calendar Coinbase_Client
begin

text \<open>
  The tick recorder, \<open>tools/tick_recorder/main.cpp\<close>: its log lines, the name of its output file, and
  the drain thread that writes the ticks of the feed thread to the file. The two threads share the
  ring of \<open>Ring_Buffer\<close> at the granularity of its atomic operations; a write to the file may fail,
  which the code does not notice.
\<close>

subsection \<open>Log lines and the output path\<close>

text \<open>A system clock reading in nanoseconds, in milliseconds modulo a second and as a civil time.\<close>

definition utc_now_iso8601 :: "int \<Rightarrow> string" where
  "utc_now_iso8601 now_ns =
     (let c = gmtime (now_ns sdiv 1000000000); ms = (now_ns sdiv 1000000) smod 1000
      in take 31 (date_text c @ ''T'' @ time_of_day '':'' c @ ''.'' @ fmt_0d 3 ms @ ''Z''))"

definition log_ndjson :: "int \<Rightarrow> string \<Rightarrow> string \<Rightarrow> string \<Rightarrow> string" where
  "log_ndjson now_ns level component msg =
     ''{\"ts\":\"'' @ utc_now_iso8601 now_ns @ ''\",\"level\":\"'' @ level @ ''\",\"component\":\"'' @ component
     @ ''\",\"msg\":\"'' @ msg @ ''\"}'' @ [CHR 0x0A]"

definition file_name :: "int \<Rightarrow> string" where
  "file_name t = take 63 (''ticks_'' @ date_text (gmtime t) @ ''T'' @ time_of_day ''-'' (gmtime t) @ ''Z.bin'')"

definition make_output_path :: "string \<Rightarrow> int \<Rightarrow> string" where
  "make_output_path out_dir t =
     out_dir @ (if out_dir \<noteq> [] \<and> last out_dir \<noteq> CHR ''/'' then ''/'' else []) @ file_name t"

text \<open>\<open>mkdir\<close> either made the directory or set \<open>errno\<close>; \<open>Some True\<close> is \<open>EEXIST\<close>.\<close>

definition ensure_dir :: "(string \<Rightarrow> bool option) \<Rightarrow> string \<Rightarrow> bool" where
  "ensure_dir mkdir dir = (dir = [] \<or> dir = ''.'' \<or> (case mkdir dir of None \<Rightarrow> True | Some eexist \<Rightarrow> eexist))"

fun recorder_args :: "string list \<Rightarrow> string \<times> string list \<Rightarrow> (string \<times> string list) option" where
  "recorder_args (a # v # rest) (out_dir, ids) =
     (if a = ''--out-dir'' then recorder_args rest (v, ids)
      else if a = ''--token-id'' then recorder_args rest (out_dir, ids @ [v]) else None)"
| "recorder_args [_] p = None"
| "recorder_args [] p = Some p"

text \<open>\<open>main\<close> up to the threads: exit code 1, or the path of the open file and the tokens.\<close>

definition recorder_setup ::
  "(string \<Rightarrow> bool option) \<Rightarrow> (string \<Rightarrow> bool) \<Rightarrow> int \<Rightarrow> string list \<Rightarrow> int + string \<times> string list" where
  "recorder_setup mkdir fopen_ok now args =
     (case recorder_args args (''./tick_data'', []) of
        None \<Rightarrow> Inl 1
      | Some (out_dir, ids) \<Rightarrow>
          if \<not> ensure_dir mkdir out_dir then Inl 1
          else let path = make_output_path out_dir now in if \<not> fopen_ok path then Inl 1 else Inr (path, ids))"

subsection \<open>The two threads\<close>

datatype drain = D_Check | D_Empty | D_Pop | D_Write tick | D_Exit

record recorder =
  rec_ring :: "tick spsc"
  feed_done :: bool
  rec_drain :: drain
  rec_file :: "tick list"
  write_failed :: bool
  cnt :: "source \<Rightarrow> u64"
  bytes_written :: u64

definition count_tick :: "tick \<Rightarrow> recorder \<Rightarrow> recorder" where
  "count_tick t r = r\<lparr>bytes_written := bytes_written r + 64, cnt := (cnt r)(tick_source t := cnt r (tick_source t) + 1),
     rec_drain := D_Check\<rparr>"

text \<open>
  A step of one thread. The feed thread runs the producer side until \<open>feed.run\<close> has returned or
  thrown and then stores \<open>g_feed_done\<close>. The drain thread evaluates its loop condition in two loads,
  \<open>g_feed_done\<close> first, runs one \<open>pop\<close>, and writes and counts what it got.
\<close>

inductive rec_step :: "recorder \<Rightarrow> recorder \<Rightarrow> bool" where
  feed: "\<not> feed_done r \<Longrightarrow> spsc_step 4096 (rec_ring r) s \<Longrightarrow> cons s = cons (rec_ring r) \<Longrightarrow>
     rec_step r (r\<lparr>rec_ring := s\<rparr>)"
| feed_ends: "prod (rec_ring r) = P_Idle \<Longrightarrow> rec_step r (r\<lparr>feed_done := True\<rparr>)"
| check_done: "rec_drain r = D_Check \<Longrightarrow>
     rec_step r (r\<lparr>rec_drain := if feed_done r then D_Empty else D_Pop\<rparr>)"
| check_empty: "rec_drain r = D_Empty \<Longrightarrow>
     rec_step r (r\<lparr>rec_drain := if ring_empty (shared (rec_ring r)) then D_Exit else D_Pop\<rparr>)"
| pop_runs: "rec_drain r = D_Pop \<Longrightarrow> spsc_step 4096 (rec_ring r) s \<Longrightarrow> prod s = prod (rec_ring r) \<Longrightarrow>
     cons s \<noteq> C_Idle \<Longrightarrow> rec_step r (r\<lparr>rec_ring := s\<rparr>)"
| pop_none: "rec_drain r = D_Pop \<Longrightarrow> spsc_step 4096 (rec_ring r) s \<Longrightarrow> prod s = prod (rec_ring r) \<Longrightarrow>
     cons s = C_Idle \<Longrightarrow> popped s = popped (rec_ring r) \<Longrightarrow>
     rec_step r (r\<lparr>rec_ring := s, rec_drain := D_Check\<rparr>)"
| pop_some: "rec_drain r = D_Pop \<Longrightarrow> spsc_step 4096 (rec_ring r) s \<Longrightarrow> prod s = prod (rec_ring r) \<Longrightarrow>
     cons s = C_Idle \<Longrightarrow> popped s = popped (rec_ring r) @ [t] \<Longrightarrow>
     rec_step r (r\<lparr>rec_ring := s, rec_drain := D_Write t\<rparr>)"
| write_tick: "rec_drain r = D_Write t \<Longrightarrow> rec_step r (count_tick t (r\<lparr>rec_file := rec_file r @ [t]\<rparr>))"
| write_fails: "rec_drain r = D_Write t \<Longrightarrow> rec_step r (count_tick t (r\<lparr>write_failed := True\<rparr>))"

definition new_recorder :: "tick \<Rightarrow> recorder" where
  "new_recorder d =
     \<lparr>rec_ring = spsc_init 4096 d, feed_done = False, rec_drain = D_Check, rec_file = [], write_failed = False,
      cnt = (\<lambda>_. 0), bytes_written = 0\<rparr>"

inductive rec_reachable :: "tick \<Rightarrow> recorder \<Rightarrow> bool" for d where
  rec_start: "rec_reachable d (new_recorder d)"
| rec_next: "rec_reachable d r \<Longrightarrow> rec_step r r' \<Longrightarrow> rec_reachable d r'"

text \<open>The line of statistics every 60 seconds, into 320 bytes, and the message at the end.\<close>

definition printf_0f :: "f64 \<Rightarrow> string" where
  "printf_0f x = (case x of NaN \<Rightarrow> ''nan'' | PInf \<Rightarrow> ''inf'' | NInf \<Rightarrow> ''-inf'' | Fin v \<Rightarrow> show_int (rne v))"

definition stats_due :: "f64 \<Rightarrow> bool" where
  "stats_due elapsed \<longleftrightarrow> fle (lit 60) elapsed"

definition stats_line :: "int \<Rightarrow> f64 \<Rightarrow> recorder \<Rightarrow> string" where
  "stats_line now_ns uptime r = take 319
     (''{\"ts\":\"'' @ utc_now_iso8601 now_ns @ ''\",\"level\":\"INFO\",\"component\":\"STATS\",''
      @ ''\"ticks_binance\":'' @ show_nat (unat (cnt r BINANCE)) @ '',\"ticks_coinbase\":'' @ show_nat (unat (cnt r COINBASE))
      @ '',\"ticks_polymarket\":'' @ show_nat (unat (cnt r POLYMARKET)) @ '',\"bytes_written\":'' @ show_nat (unat (bytes_written r))
      @ '',\"uptime_s\":'' @ printf_0f uptime @ ''}'')"

definition final_message :: "string \<Rightarrow> recorder \<Rightarrow> string" where
  "final_message path r = take 255
     (''wrote '' @ show_nat (unat (cnt r BINANCE + cnt r COINBASE + cnt r POLYMARKET)) @ '' ticks ('' @ show_nat (unat (bytes_written r))
      @ '' bytes) to '' @ path)"

definition recorder_exit :: "exn option \<Rightarrow> int" where
  "recorder_exit feed_exn = (case feed_exn of None \<Rightarrow> 0 | Some _ \<Rightarrow> 1)"

subsection \<open>Nothing accepted is lost\<close>

definition written :: "recorder \<Rightarrow> tick list" where
  "written r = (case rec_drain r of D_Write t \<Rightarrow> butlast (popped (rec_ring r)) | _ \<Rightarrow> popped (rec_ring r))"

definition rec_inv :: "tick \<Rightarrow> recorder \<Rightarrow> bool" where
  "rec_inv d r \<longleftrightarrow> spsc_reachable 4096 d (rec_ring r)
     \<and> (rec_drain r \<noteq> D_Pop \<longrightarrow> cons (rec_ring r) = C_Idle)
     \<and> (\<forall>t. rec_drain r = D_Write t \<longrightarrow> popped (rec_ring r) \<noteq> [] \<and> last (popped (rec_ring r)) = t)
     \<and> (feed_done r \<longrightarrow> prod (rec_ring r) = P_Idle)
     \<and> (rec_drain r \<in> {D_Empty, D_Exit} \<longrightarrow> feed_done r)
     \<and> (rec_drain r = D_Exit \<longrightarrow> popped (rec_ring r) = pushed (rec_ring r))
     \<and> (\<not> write_failed r \<longrightarrow> rec_file r = written r)
     \<and> (\<forall>s. cnt r s = of_nat (length (filter (\<lambda>t. tick_source t = s) (written r))))
     \<and> bytes_written r = of_nat (64 * length (written r))"

lemma consumer_keeps: "spsc_step N s s' \<Longrightarrow> cons s' = cons s \<Longrightarrow> popped s' = popped s"
  by (erule spsc_step.cases) auto

lemma producer_keeps: "spsc_step N s s' \<Longrightarrow> prod s' = prod s \<Longrightarrow> pushed s' = pushed s"
  by (erule spsc_step.cases) auto

lemma pop_running: "spsc_step N s s' \<Longrightarrow> prod s' = prod s \<Longrightarrow> cons s' \<noteq> C_Idle \<Longrightarrow> popped s' = popped s"
  by (erule spsc_step.cases) auto

lemma empty_ring_all_popped:
  assumes "spsc_reachable 4096 d s" and "ring_empty (shared s)"
  shows "popped s = pushed s"
proof -
  from spsc_reachable_inv [OF assms(1) pow2_size_4096]
  have i: "head (shared s) = of_nat (length (pushed s))" "tail (shared s) = of_nat (length (popped s))"
    "length (popped s) \<le> length (pushed s)" "length (pushed s) \<le> length (popped s) + 4096"
    "popped s = List.take (length (popped s)) (pushed s)"
    by (simp_all add: spsc_inv_def Let_def)
  let ?n = "length (pushed s) - length (popped s)"
  have "(of_nat ?n :: u64) = 0"
    using assms(2) i by (simp add: ring_empty_def size_approx_def of_nat_diff)
  then have "unat (of_nat ?n :: u64) = 0" by (simp only: unsigned_0)
  then have "?n mod 2 ^ 64 = 0" by (simp only: unat_of_nat len_of_numeral_defs) simp
  then have "length (pushed s) = length (popped s)" using i(3,4) by simp
  then show ?thesis using i(5) by simp
qed

lemma written_same [simp]: "popped s = popped (rec_ring r) \<Longrightarrow> written (r\<lparr>rec_ring := s\<rparr>) = written r"
  by (simp add: written_def split: drain.splits)

lemma count_tick_inv:
  assumes "rec_inv d r" and "rec_drain r = D_Write t" and "f = rec_file r @ [t] \<or> w"
  shows "rec_inv d (count_tick t (r\<lparr>rec_file := f, write_failed := write_failed r \<or> w\<rparr>))"
proof -
  have p: "popped (rec_ring r) = butlast (popped (rec_ring r)) @ [t]"
    using assms(1,2) append_butlast_last_id [of "popped (rec_ring r)"] by (auto simp: rec_inv_def)
  have w: "popped (rec_ring r) = written r @ [t]" using p assms(2) by (simp add: written_def)
  have w': "written (count_tick t (r\<lparr>rec_file := f, write_failed := write_failed r \<or> w\<rparr>)) = popped (rec_ring r)"
    by (simp add: written_def count_tick_def)
  show ?thesis using assms unfolding rec_inv_def w' by (auto simp: count_tick_def w)
qed

lemma rec_step_inv:
  assumes "rec_step r r'" and "rec_inv d r"
  shows "rec_inv d r'"
  using assms(1)
proof cases
  case (feed s)
  then have "popped s = popped (rec_ring r)" by (intro consumer_keeps)
  then have "written r' = written r" using feed by simp
  then show ?thesis using assms(2) feed spsc_reachable.step [of 4096 d "rec_ring r" s] \<open>popped s = _\<close>
    unfolding rec_inv_def by auto
next
  case feed_ends
  then have "written r' = written r" by (simp add: written_def split: drain.splits)
  then show ?thesis using assms(2) feed_ends unfolding rec_inv_def by auto
next
  case check_done
  then show ?thesis using assms(2) by (auto simp: rec_inv_def written_def)
next
  case check_empty
  then show ?thesis using assms(2) empty_ring_all_popped [of d "rec_ring r"] by (auto simp: rec_inv_def written_def)
next
  case (pop_runs s)
  then have "popped s = popped (rec_ring r)" by (intro pop_running)
  then have "written r' = written r" using pop_runs by simp
  then show ?thesis using assms(2) pop_runs spsc_reachable.step [of 4096 d "rec_ring r" s] \<open>popped s = _\<close>
    unfolding rec_inv_def by auto
next
  case (pop_none s)
  then show ?thesis using assms(2) spsc_reachable.step [of 4096 d "rec_ring r" s] by (auto simp: rec_inv_def written_def)
next
  case (pop_some s t)
  then show ?thesis using assms(2) spsc_reachable.step [of 4096 d "rec_ring r" s] by (auto simp: rec_inv_def written_def)
next
  case (write_tick t)
  then show ?thesis using count_tick_inv [OF assms(2) write_tick(2), of "rec_file r @ [t]" False] by simp
next
  case (write_fails t)
  then show ?thesis using count_tick_inv [OF assms(2) write_fails(2), of "rec_file r" True] by simp
qed

lemma rec_reachable_inv: "rec_reachable d r \<Longrightarrow> rec_inv d r"
proof (induction rule: rec_reachable.induct)
  case rec_start
  then show ?case by (simp add: rec_inv_def new_recorder_def spsc_init_def written_def spsc_reachable.start [unfolded spsc_init_def])
qed (rule rec_step_inv)

text \<open>
  C9. The recorder's shutdown. In every interleaving of the feed thread, the drain thread and the two
  sides of the ring, the drain thread leaves its loop only after the feed has ended and every accepted
  tick has been taken out: then, if no write failed, the file holds exactly the accepted ticks in their
  order, and the counters and the byte count are those of all accepted ticks, whether or not a write
  failed.
\<close>

theorem recorder_loses_nothing:
  assumes "rec_reachable d r" and "rec_drain r = D_Exit"
  shows "feed_done r \<and> (write_failed r \<or> rec_file r = pushed (rec_ring r))
    \<and> (\<forall>s. cnt r s = of_nat (length (filter (\<lambda>t. tick_source t = s) (pushed (rec_ring r)))))
    \<and> bytes_written r = of_nat (64 * length (pushed (rec_ring r)))"
  using rec_reachable_inv [OF assms(1)] assms(2) by (auto simp: rec_inv_def written_def)

definition zero_tick :: tick where
  "zero_tick = \<lparr>timestamp_us = 0, tick_source = BINANCE, best_bid = Fin 0, best_ask = Fin 0, mid = Fin 0, ob_imbalance = Fin 0,
     last_trade = Fin 0, low_depth = False\<rparr>"

theorem recorder_loses_nothing_witness:
  "\<exists>r. rec_reachable zero_tick r \<and> rec_drain r = D_Exit \<and> (write_failed r \<or> rec_file r = pushed (rec_ring r))"
proof -
  let ?d = zero_tick
  let ?r1 = "(new_recorder ?d)\<lparr>feed_done := True\<rparr>"
  let ?r2 = "?r1\<lparr>rec_drain := D_Empty\<rparr>" and ?r3 = "?r1\<lparr>rec_drain := D_Exit\<rparr>"
  have e: "ring_empty (shared (rec_ring ?r2))" by (simp add: new_recorder_def spsc_init_def new_ring_def ring_empty_def size_approx_def)
  have s1: "rec_step (new_recorder ?d) ?r1" by (rule rec_step.feed_ends) (simp add: new_recorder_def spsc_init_def)
  have s2: "rec_step ?r1 ?r2" using rec_step.check_done [of ?r1] by (simp add: new_recorder_def)
  have s3: "rec_step ?r2 ?r3" using rec_step.check_empty [of ?r2] e by simp
  have r: "rec_reachable ?d ?r3"
    by (rule rec_next [OF rec_next [OF rec_next [OF rec_start s1] s2] s3])
  moreover have x: "rec_drain ?r3 = D_Exit" by simp
  ultimately show ?thesis using recorder_loses_nothing [OF r x] by blast
qed

subsection \<open>One file per second\<close>

lemma fmt_0d_inj:
  assumes "fmt_0d w a = fmt_0d w b" and "0 \<le> a" and "0 \<le> b"
  shows "a = b"
proof -
  have "dec_val (fmt_0d w a) = nat a" "dec_val (fmt_0d w b) = nat b" using assms(2,3) by (simp_all add: fmt_0d_def)
  then show ?thesis using assms by simp
qed

lemma gmtime_inj: "gmtime a = gmtime b \<Longrightarrow> a = b"
  by (metis gmtime_timegm)

lemma file_name_inj:
  assumes "0 \<le> a" "a < 253402300800" "0 \<le> b" "b < 253402300800" and "file_name a = file_name b"
  shows "a = b"
proof -
  note r = gmtime_ranges [of a] year_range [OF assms(1,2)] gmtime_ranges [of b] year_range [OF assms(3,4)]
  have l: "length (fmt_0d 4 (tm_year (gmtime t))) = 4" "length (fmt_0d 2 (int (tm_mon (gmtime t)) + 1)) = 2"
    "length (fmt_0d 2 (tm_mday (gmtime t))) = 2" "length (fmt_0d 2 (tm_hour (gmtime t))) = 2"
    "length (fmt_0d 2 (tm_min (gmtime t))) = 2" "length (fmt_0d 2 (tm_sec (gmtime t))) = 2" if "t = a \<or> t = b" for t
    using that r by (auto intro!: length_fmt_0d)
  have n: "file_name t = ''ticks_'' @ date_text (gmtime t) @ ''T'' @ time_of_day ''-'' (gmtime t) @ ''Z.bin''" if "t = a \<or> t = b" for t
    unfolding file_name_def using l [OF that] by (intro take_all) (simp add: date_text_def time_of_day_def)
  have "fmt_0d 4 (tm_year (gmtime a)) = fmt_0d 4 (tm_year (gmtime b))
    \<and> fmt_0d 2 (int (tm_mon (gmtime a)) + 1) = fmt_0d 2 (int (tm_mon (gmtime b)) + 1)
    \<and> fmt_0d 2 (tm_mday (gmtime a)) = fmt_0d 2 (tm_mday (gmtime b))
    \<and> fmt_0d 2 (tm_hour (gmtime a)) = fmt_0d 2 (tm_hour (gmtime b))
    \<and> fmt_0d 2 (tm_min (gmtime a)) = fmt_0d 2 (tm_min (gmtime b))
    \<and> fmt_0d 2 (tm_sec (gmtime a)) = fmt_0d 2 (tm_sec (gmtime b))"
    using assms(5) n [of a] n [of b] l [of a] l [of b] by (simp add: date_text_def time_of_day_def)
  then have "gmtime a = gmtime b" using r by (auto dest!: fmt_0d_inj)
  then show ?thesis by (rule gmtime_inj)
qed

text \<open>
  The output file. Between 1970 and the end of 9999 two runs of the recorder into the same
  directory write to the same path exactly when they start in the same second: runs of different
  seconds never collide, and a restart within the second truncates the file it finds.
\<close>

theorem recordings_share_a_path_iff_same_second:
  assumes "0 \<le> a" "a < 253402300800" "0 \<le> b" "b < 253402300800"
  shows "make_output_path dir a = make_output_path dir b \<longleftrightarrow> a = b"
  using file_name_inj [OF assms] by (auto simp: make_output_path_def)

theorem recordings_share_a_path_iff_same_second_witness:
  "make_output_path ''d'' 1705320000 \<noteq> make_output_path ''d'' 1705320001"
  using recordings_share_a_path_iff_same_second [of 1705320000 1705320001 "''d''"] by simp

end
