(* ===== verification/Infra.thy ===== *)
theory Infra
  imports Calendar Coinbase_Client Shared_State
begin

text \<open>
  The logger, the metrics and the heartbeat, \<open>src/infra/logger.cpp\<close>, \<open>metrics.cpp\<close> and
  \<open>heartbeat.cpp\<close>. A log call is the line it writes to standard output; a metric is the value the
  Prometheus library would show, \<open>None\<close> before it is registered; a beat is one \<open>utime\<close> call.
\<close>

subsection \<open>Log lines\<close>

text \<open>\<open>now_iso8601\<close> of a system clock reading in nanoseconds; its buffer has 64 bytes.\<close>

definition now_iso8601 :: "int \<Rightarrow> string" where
  "now_iso8601 now_ns =
     (let c = gmtime (now_ns sdiv 1000000000); ms = (now_ns sdiv 1000000) smod 1000
      in take 63 (date_text c @ ''T'' @ time_of_day '':'' c @ ''.'' @ fmt_0d 3 ms @ ''Z''))"

definition log_write :: "int \<Rightarrow> string \<Rightarrow> string \<Rightarrow> string \<Rightarrow> string" where
  "log_write now level event data_json =
     ''{\"ts\":\"'' @ now_iso8601 now @ ''\",\"level\":\"'' @ level @ ''\",\"event\":\"'' @ event @ ''\",\"data\":'' @ data_json
     @ ''}'' @ [CHR 0x0A]"

definition json_str :: "string \<Rightarrow> string \<Rightarrow> string" where
  "json_str key v = [CHR 0x22] @ key @ ''\":\"'' @ v @ [CHR 0x22]"

definition json_num :: "string \<Rightarrow> string \<Rightarrow> string" where
  "json_num key v = [CHR 0x22] @ key @ ''\":'' @ v"

definition order_fired :: "int \<Rightarrow> string \<Rightarrow> string \<Rightarrow> f64 \<Rightarrow> f64 \<Rightarrow> string \<Rightarrow> string" where
  "order_fired now oid sd price size_usdc arm = log_write now ''INFO'' ''ORDER_FIRED'' (take 255
     (''{'' @ json_str ''order_id'' oid @ '','' @ json_str ''side'' sd @ '','' @ json_num ''price'' (printf_fixed 4 price) @ '',''
      @ json_num ''size_usdc'' (printf_fixed 2 size_usdc) @ '','' @ json_str ''arm'' arm @ ''}''))"

definition fill_received :: "int \<Rightarrow> string \<Rightarrow> i64 \<Rightarrow> string" where
  "fill_received now oid latency = log_write now ''INFO'' ''FILL_RECEIVED'' (take 127
     (''{'' @ json_str ''order_id'' oid @ '','' @ json_num ''latency_us'' (show_int (sint latency)) @ ''}''))"

definition position_opened :: "int \<Rightarrow> string \<Rightarrow> f64 \<Rightarrow> f64 \<Rightarrow> string \<Rightarrow> string" where
  "position_opened now oid entry_price size_usdc tid = log_write now ''INFO'' ''POSITION_OPENED'' (take 255
     (''{'' @ json_str ''order_id'' oid @ '','' @ json_num ''entry_price'' (printf_fixed 4 entry_price) @ '',''
      @ json_num ''size_usdc'' (printf_fixed 2 size_usdc) @ '','' @ json_str ''token_id'' tid @ ''}''))"

definition position_closed :: "int \<Rightarrow> f64 \<Rightarrow> f64 \<Rightarrow> f64 \<Rightarrow> string \<Rightarrow> string" where
  "position_closed now entry_price exit_price pnl reason = log_write now ''INFO'' ''POSITION_CLOSED'' (take 255
     (''{'' @ json_num ''entry_price'' (printf_fixed 4 entry_price) @ '','' @ json_num ''exit_price'' (printf_fixed 4 exit_price) @ '',''
      @ json_num ''pnl_usdc'' (printf_fixed 4 pnl) @ '','' @ json_str ''reason'' reason @ ''}''))"

definition log_circuit_breaker :: "int \<Rightarrow> string \<Rightarrow> shared_state \<Rightarrow> string" where
  "log_circuit_breaker now reason sh = log_write now ''ERROR'' ''CIRCUIT_BREAKER'' (take 511
     (''{'' @ json_str ''reason'' reason @ '','' @ json_num ''p_true'' (printf_fixed 4 (p_true sh)) @ '',''
      @ json_num ''p_market'' (printf_fixed 4 (p_market sh)) @ '','' @ json_num ''btc_mid'' (printf_fixed 2 (btc_mid sh)) @ '',''
      @ json_num ''bankroll'' (printf_fixed 2 (bankroll_usdc sh)) @ '','' @ json_num ''exposure'' (printf_fixed 2 (total_exposure_usdc sh)) @ '',''
      @ json_num ''open_positions'' (show_int (sint (open_position_count sh))) @ ''}''))"

definition log_feed_fault :: "int \<Rightarrow> string \<Rightarrow> int \<Rightarrow> string" where
  "log_feed_fault now src tier = log_write now ''WARN'' ''FEED_FAULT'' (take 127
     (''{'' @ json_str ''source'' src @ '','' @ json_num ''tier'' (show_int tier) @ ''}''))"

text \<open>The data field of \<open>info\<close>, \<open>warn\<close> and \<open>error\<close>, with their buffer of 512 bytes.\<close>

definition message_data :: "string \<Rightarrow> string" where
  "message_data msg = take 511 (''{'' @ json_str ''msg'' msg @ ''}'')"

definition log_info :: "int \<Rightarrow> string \<Rightarrow> string \<Rightarrow> string" where
  "log_info now event msg = log_write now ''INFO'' event (message_data msg)"

definition log_warn :: "int \<Rightarrow> string \<Rightarrow> string \<Rightarrow> string" where
  "log_warn now event msg = log_write now ''WARN'' event (message_data msg)"

definition log_error :: "int \<Rightarrow> string \<Rightarrow> string \<Rightarrow> string" where
  "log_error now event msg = log_write now ''ERROR'' event (message_data msg)"

text \<open>A message of more than 501 characters loses the end of its JSON object, quote and brace included.\<close>

lemma message_data_cut:
  "message_data msg = (if length msg \<le> 501 then ''{'' @ json_str ''msg'' msg @ ''}'' else ''{\"msg\":\"'' @ take 503 (msg @ [CHR 0x22]))"
  by (cases "503 - length msg") (auto simp: message_data_def json_str_def)

subsection \<open>Metrics\<close>

record metrics =
  pnl_gauge :: "f64 option"
  open_pos_gauge :: "f64 option"
  latency_hist :: "f64 list option"
  cb_trips_counter :: "f64 option"
  feed_lag_gauges :: "(string \<times> f64) list"

definition no_metrics :: metrics where
  "no_metrics = \<lparr>pnl_gauge = None, open_pos_gauge = None, latency_hist = None, cb_trips_counter = None, feed_lag_gauges = []\<rparr>"

text \<open>\<open>start\<close> with \<open>init\<close>: the library starts gauges and counters at 0.\<close>

definition metrics_start :: "metrics \<Rightarrow> metrics" where
  "metrics_start m = m\<lparr>pnl_gauge := Some (Fin 0), open_pos_gauge := Some (Fin 0), latency_hist := Some [], cb_trips_counter := Some (Fin 0)\<rparr>"

definition set_pnl :: "f64 \<Rightarrow> metrics \<Rightarrow> metrics" where
  "set_pnl x m = m\<lparr>pnl_gauge := map_option (\<lambda>_. x) (pnl_gauge m)\<rparr>"

definition set_open_positions :: "int \<Rightarrow> metrics \<Rightarrow> metrics" where
  "set_open_positions n m = m\<lparr>open_pos_gauge := map_option (\<lambda>_. f64_of_int n) (open_pos_gauge m)\<rparr>"

definition observe_order_latency_us :: "f64 \<Rightarrow> metrics \<Rightarrow> metrics" where
  "observe_order_latency_us x m = m\<lparr>latency_hist := map_option (\<lambda>h. h @ [x]) (latency_hist m)\<rparr>"

definition inc_circuit_breaker_trips :: "metrics \<Rightarrow> metrics" where
  "inc_circuit_breaker_trips m = m\<lparr>cb_trips_counter := map_option (\<lambda>x. fadd x (Fin 1)) (cb_trips_counter m)\<rparr>"

text \<open>The list is searched from its front; a registry exists once the pnl gauge does.\<close>

fun put_lag :: "string \<Rightarrow> f64 \<Rightarrow> (string \<times> f64) list \<Rightarrow> (string \<times> f64) list" where
  "put_lag s x [] = [(s, x)]"
| "put_lag s x ((k, y) # g) = (if k = s then (k, x) # g else (k, y) # put_lag s x g)"

definition set_feed_lag_us :: "string \<Rightarrow> f64 \<Rightarrow> metrics \<Rightarrow> metrics" where
  "set_feed_lag_us s x m = (if pnl_gauge m = None then m else m\<lparr>feed_lag_gauges := put_lag s x (feed_lag_gauges m)\<rparr>)"

lemma map_of_put_lag [simp]: "map_of (put_lag s x g) = (map_of g)(s \<mapsto> x)"
  by (induction g) (auto simp: fun_eq_iff)

lemma put_lag_keys: "set (map fst (put_lag s x g)) = insert s (set (map fst g))"
  by (induction g rule: put_lag.induct [of _ s x]) auto

lemma put_lag_distinct: "distinct (map fst g) \<Longrightarrow> distinct (map fst (put_lag s x g))"
proof (induction g)
  case (Cons p g)
  then show ?case using put_lag_keys [of s x g] by (cases p) (auto simp del: set_map)
qed simp

lemma metrics_before_start:
  "set_feed_lag_us s x (set_pnl y (set_open_positions n (observe_order_latency_us z (inc_circuit_breaker_trips no_metrics))))
     = no_metrics"
  by (simp add: no_metrics_def set_pnl_def set_open_positions_def observe_order_latency_us_def inc_circuit_breaker_trips_def
      set_feed_lag_us_def)

subsection \<open>Heartbeat\<close>

record 'w heartbeat =
  hb_world :: 'w
  hb_path :: string
  hb_stop :: bool

definition new_heartbeat :: "'w \<Rightarrow> 'w heartbeat" where
  "new_heartbeat w = \<lparr>hb_world = w, hb_path = ''/tmp/bot.heartbeat'', hb_stop = False\<rparr>"

definition heartbeat_stop :: "'w heartbeat \<Rightarrow> 'w heartbeat" where
  "heartbeat_stop h = h\<lparr>hb_stop := True\<rparr>"

text \<open>One turn: touch the file, then sleep; the result says whether the loop went on.\<close>

definition heartbeat_turn :: "(string \<Rightarrow> 'w \<Rightarrow> 'w) \<Rightarrow> (int \<Rightarrow> 'w \<Rightarrow> 'w) \<Rightarrow> 'w heartbeat \<Rightarrow> bool \<times> 'w heartbeat" where
  "heartbeat_turn touch sleep_ms h =
     (if hb_stop h then (False, h)
      else (True, h\<lparr>hb_world := sleep_ms (cast_int (- (2 ^ 31)) (2 ^ 31 - 1) HEARTBEAT_INTERVAL_MS) (touch (hb_path h) (hb_world h))\<rparr>))"

text \<open>\<open>run\<close> with \<open>n\<close> turns of its loop; the file is created first.\<close>

fun heartbeat_turns :: "(string \<Rightarrow> 'w \<Rightarrow> 'w) \<Rightarrow> (int \<Rightarrow> 'w \<Rightarrow> 'w) \<Rightarrow> nat \<Rightarrow> 'w heartbeat \<Rightarrow> 'w heartbeat" where
  "heartbeat_turns touch sleep_ms 0 h = h"
| "heartbeat_turns touch sleep_ms (Suc n) h =
     (case heartbeat_turn touch sleep_ms h of (go, h') \<Rightarrow> if go then heartbeat_turns touch sleep_ms n h' else h')"

definition heartbeat_run ::
  "(string \<Rightarrow> 'w \<Rightarrow> 'w) \<Rightarrow> (string \<Rightarrow> 'w \<Rightarrow> 'w) \<Rightarrow> (int \<Rightarrow> 'w \<Rightarrow> 'w) \<Rightarrow> nat \<Rightarrow> 'w heartbeat \<Rightarrow> 'w heartbeat" where
  "heartbeat_run create touch sleep_ms n h =
     heartbeat_turns touch sleep_ms n (h\<lparr>hb_world := create (hb_path h) (hb_world h)\<rparr>)"

lemma heartbeat_sleeps_half_a_second: "cast_int (- (2 ^ 31)) (2 ^ 31 - 1) HEARTBEAT_INTERVAL_MS = 500"
  by (simp add: HEARTBEAT_INTERVAL_MS_def lit_numeral fl_numeral saturate_def)

end
