(* ===== verification/Binance_Client.thy ===== *)
theory Binance_Client
  imports Coinbase_Client
begin

text \<open>
  The client of the Binance futures API, \<open>src/execution/binance_client.hpp\<close> and \<open>binance_client.cpp\<close>,
  which the program does not construct. HMAC, the clock and one libcurl exchange (method, URL,
  headers, body) are the fields of a record.
\<close>

record 'w bn_lib =
  bn_system_ns :: "'w \<Rightarrow> int \<times> 'w"
  bn_hmac :: "string \<Rightarrow> string \<Rightarrow> bytes"
  bn_init :: "'w \<Rightarrow> bool \<times> 'w"
  bn_perform :: "string \<Rightarrow> string \<Rightarrow> string list \<Rightarrow> string \<Rightarrow> 'w \<Rightarrow> string \<times> 'w"

record binance_client =
  bn_api_key :: string
  bn_secret :: string
  bn_base_url :: string

definition binance_fmt_price :: "f64 \<Rightarrow> string" where
  "binance_fmt_price p = take 31 (printf_fixed 1 (fdiv (fround (fmul p (lit 10))) (lit 10)))"

definition binance_fmt_qty :: "f64 \<Rightarrow> string" where
  "binance_fmt_qty q = take 31 (printf_fixed 3 (fdiv (ffloor (fmul q (lit 1000))) (lit 1000)))"

definition ts_ms :: "'w bn_lib \<Rightarrow> 'w \<Rightarrow> u64 \<times> 'w" where
  "ts_ms B w = (case bn_system_ns B w of (ns, w1) \<Rightarrow> (word_of_int (ns sdiv 1000000), w1))"

definition UPPER_HEX :: string where
  "UPPER_HEX = ''0123456789ABCDEF''"

definition url_plain :: "char \<Rightarrow> bool" where
  "url_plain c \<longleftrightarrow> (CHR ''0'' \<le> c \<and> c \<le> CHR ''9'') \<or> (CHR ''A'' \<le> c \<and> c \<le> CHR ''Z'') \<or> (CHR ''a'' \<le> c \<and> c \<le> CHR ''z'')
     \<or> c \<in> set ''-_.~''"

definition url_encode :: "string \<Rightarrow> string" where
  "url_encode s = concat (map (\<lambda>c. if url_plain c then [c]
     else [CHR ''%'', UPPER_HEX ! (of_char c div 16), UPPER_HEX ! (of_char c mod 16)]) s)"

definition hmac_hex :: "'w bn_lib \<Rightarrow> binance_client \<Rightarrow> string \<Rightarrow> string" where
  "hmac_hex B c data = concat (map (\<lambda>b. [HEX_CHARS ! unat (drop_bit 4 b), HEX_CHARS ! unat (b AND 0xf)]) (bn_hmac B (bn_secret c) data))"

definition signed_params :: "'w bn_lib \<Rightarrow> binance_client \<Rightarrow> string \<Rightarrow> u64 \<Rightarrow> string" where
  "signed_params B c query ts =
     (let params = query @ ''&recvWindow=5000&timestamp='' @ show_nat (unat ts) in params @ ''&signature='' @ hmac_hex B c params)"

definition sign_and_post :: "'w bn_lib \<Rightarrow> binance_client \<Rightarrow> string \<Rightarrow> string \<Rightarrow> 'w \<Rightarrow> string \<times> 'w" where
  "sign_and_post B c path params w =
     (case bn_init B w of (ok, w1) \<Rightarrow> if \<not> ok then ([], w1)
      else bn_perform B ''POST'' (bn_base_url c @ path)
             [''X-MBX-APIKEY: '' @ bn_api_key c, ''Content-Type: application/x-www-form-urlencoded''] params w1)"

definition sign_and_delete :: "'w bn_lib \<Rightarrow> binance_client \<Rightarrow> string \<Rightarrow> string \<Rightarrow> 'w \<Rightarrow> string \<times> 'w" where
  "sign_and_delete B c path params w =
     (case bn_init B w of (ok, w1) \<Rightarrow> if \<not> ok then ([], w1)
      else bn_perform B ''DELETE'' (bn_base_url c @ path @ ''?'' @ params) [''X-MBX-APIKEY: '' @ bn_api_key c] [] w1)"

text \<open>\<open>j.value(k, 0LL)\<close>: a missing key gives 0 in an object and throws elsewhere, whatever the default.\<close>

definition value_int64 :: "'j json_lib \<Rightarrow> 'j \<Rightarrow> string \<Rightarrow> exn + i64" where
  "value_int64 J j k =
     (if j_contains J j k then sbind (j_at J j k) (j_int64 J) else sbind (j_value_bool J j k False) (\<lambda>_. Inr 0))"

definition bn_rejected :: "'j json_lib \<Rightarrow> 'j \<Rightarrow> exn + string option" where
  "bn_rejected J j =
     (if j_contains J j ''code''
      then sbind (sbind (j_at J j ''code'') (j_int64 J)) (\<lambda>code.
             if signed (signed code :: 32 word) \<noteq> (200 :: i64) \<and> j_contains J j ''msg''
             then sbind (j_get_string J j ''msg'') (\<lambda>m. Inr (Some m)) else Inr None)
      else Inr None)"

definition bn_failure :: "string \<Rightarrow> hedge_result" where
  "bn_failure err = \<lparr>hr_success = False, hr_order_id = [], hr_executed_qty = Fin 0, hr_avg_price = Fin 0, hr_error = err\<rparr>"

text \<open>The fields are set one by one, \<open>success\<close> first; what is set before a throw stays.\<close>

definition bn_fill :: "'j json_lib \<Rightarrow> 'j \<Rightarrow> hedge_result" where
  "bn_fill J j =
     (let r = (bn_failure [])\<lparr>hr_success := True\<rparr>
      in case value_int64 J j ''orderId'' of Inl e \<Rightarrow> r\<lparr>hr_error := exn_what e\<rparr> | Inr oid \<Rightarrow>
         let r = r\<lparr>hr_order_id := show_int (sint oid)\<rparr>
         in case sbind (j_value_string J j ''executedQty'' ''0'') stod of Inl e \<Rightarrow> r\<lparr>hr_error := exn_what e\<rparr> | Inr q \<Rightarrow>
            let r = r\<lparr>hr_executed_qty := q\<rparr>
            in case sbind (j_value_string J j ''avgPrice'' ''0'') stod of Inl e \<Rightarrow> r\<lparr>hr_error := exn_what e\<rparr> | Inr p \<Rightarrow>
               r\<lparr>hr_avg_price := p\<rparr>)"

definition read_order :: "'j json_lib \<Rightarrow> string \<Rightarrow> hedge_result" where
  "read_order J resp =
     (if resp = [] then bn_failure ''no response''
      else case j_parse J resp of Inl e \<Rightarrow> bn_failure (exn_what e) | Inr j \<Rightarrow>
        (case bn_rejected J j of Inl e \<Rightarrow> bn_failure (exn_what e) | Inr (Some m) \<Rightarrow> bn_failure m | Inr None \<Rightarrow> bn_fill J j))"

definition binance_submit_order :: "'j json_lib \<Rightarrow> 'w bn_lib \<Rightarrow> binance_client \<Rightarrow> string \<Rightarrow> f64 \<Rightarrow> f64 \<Rightarrow> 'w \<Rightarrow> hedge_result \<times> 'w" where
  "binance_submit_order J B c sd quantity price w =
     (case ts_ms B w of (ts, w1) \<Rightarrow>
      case sign_and_post B c ''/fapi/v1/order''
        (signed_params B c (''symbol=BTCUSDC&side='' @ sd @ ''&type=LIMIT&timeInForce=IOC&quantity='' @ binance_fmt_qty quantity
           @ ''&price='' @ binance_fmt_price price) ts) w1 of (resp, w2) \<Rightarrow> (read_order J resp, w2))"

definition binance_cancel_order :: "'j json_lib \<Rightarrow> 'w bn_lib \<Rightarrow> binance_client \<Rightarrow> string \<Rightarrow> 'w \<Rightarrow> bool \<times> 'w" where
  "binance_cancel_order J B c oid w =
     (case ts_ms B w of (ts, w1) \<Rightarrow>
      case sign_and_delete B c ''/fapi/v1/order'' (signed_params B c (''symbol=BTCUSDC&orderId='' @ oid) ts) w1 of (resp, w2) \<Rightarrow>
        (resp \<noteq> [] \<and> sbind (j_parse J resp) (\<lambda>j. j_value_string J j ''status'' []) = Inr ''CANCELED'', w2))"

subsection \<open>What a result says\<close>

text \<open>
  A rejection or a malformed answer is a failure with nothing executed. But \<open>success\<close> is set before the
  fields are read: an answer whose order id or quantity cannot be read gives a result with success
  and a quantity of 0.
\<close>

lemma bn_fill_result:
  "hr_success (bn_fill J j) \<and>
   (if isl (value_int64 J j ''orderId'') \<or> isl (sbind (j_value_string J j ''executedQty'' ''0'') stod)
    then hr_executed_qty (bn_fill J j) = Fin 0 \<and> hr_avg_price (bn_fill J j) = Fin 0
    else sbind (j_value_string J j ''executedQty'' ''0'') stod = Inr (hr_executed_qty (bn_fill J j)))"
  by (simp add: bn_fill_def bn_failure_def Let_def split: sum.splits)

lemma read_order_result:
  "if hr_success (read_order J resp)
   then \<exists>j. j_parse J resp = Inr j \<and> bn_rejected J j = Inr None \<and> read_order J resp = bn_fill J j
   else hr_executed_qty (read_order J resp) = Fin 0 \<and> hr_avg_price (read_order J resp) = Fin 0 \<and> hr_order_id (read_order J resp) = []"
  using bn_fill_result [of J] by (simp add: read_order_def bn_failure_def split: sum.splits option.splits)

end
