(* ===== verification/Fp_Interval.thy ===== *)
theory Fp_Interval
  imports Fp64
begin

text \<open>
  Interval arithmetic for binary64: an interval is a pair of integers in units of \<open>2 ^ -30\<close>, whose
  bounds are binary64 values themselves, so rounding never leaves them. Used to bound what a numeric
  routine computes at concrete arguments without evaluating every rounding.
\<close>

type_synonym ivl = "int \<times> int"

definition unit30 :: int where "unit30 = 2 ^ 30"

definition scale :: "int \<Rightarrow> rat" where
  "scale n = of_int n / of_int unit30"

definition small :: "int \<Rightarrow> bool" where
  "small n \<longleftrightarrow> \<bar>n\<bar> < 2 ^ 53"

definition encl :: "ivl \<Rightarrow> f64 \<Rightarrow> bool" where
  "encl i x \<longleftrightarrow> (\<exists>r. x = Fin r \<and> scale (fst i) \<le> r \<and> r \<le> scale (snd i))"

lemma unit30_pos [simp]: "0 < unit30" "unit30 \<noteq> 0" "\<not> unit30 < 0"
  by (simp_all add: unit30_def)

lemma scale_le_iff [simp]: "scale a \<le> scale b \<longleftrightarrow> a \<le> b"
  by (simp add: scale_def divide_le_cancel)

lemma scale_less_iff [simp]: "scale a < scale b \<longleftrightarrow> a < b"
  by (simp add: scale_def divide_less_cancel)

lemma scale_0 [simp]: "scale 0 = 0" by (simp add: scale_def)

lemma scale_pos_iff [simp]: "0 < scale a \<longleftrightarrow> 0 < a"
  using scale_less_iff [of 0 a] by simp

lemma scale_add: "scale (a + b) = scale a + scale b"
  by (simp add: scale_def add_divide_distrib)

lemma scale_minus: "scale (- a) = - scale a"
  by (simp add: scale_def)

lemma rnd_scale: "small a \<Longrightarrow> rnd (scale a) = scale a"
  using rnd_exact [of a "- 30"] by (simp add: small_def scale_def unit30_def pow2_def)

lemma scale_small: "small a \<Longrightarrow> \<bar>scale a\<bar> \<le> pow2 1023"
proof -
  assume a: "small a"
  have "\<bar>scale a\<bar> \<le> of_int \<bar>a\<bar>"
    by (simp add: scale_def unit30_def abs_divide divide_le_eq)
  also have "\<dots> \<le> of_int (2 ^ 53)" using a by (simp only: of_int_le_iff small_def)
  also have "\<dots> = pow2 53" by (simp add: pow2_def)
  also have "\<dots> \<le> pow2 1023" by simp
  finally show ?thesis .
qed

lemma encl_fl:
  assumes "scale a \<le> q" "q \<le> scale b" "small a" "small b"
  shows "encl (a, b) (fl q)"
proof -
  have "\<bar>q\<bar> \<le> pow2 1023" using assms(1,2) scale_small [OF assms(3)] scale_small [OF assms(4)] by linarith
  then have "fl q = Fin (rnd q)" by (rule fl_small)
  then show ?thesis
    using rnd_mono [OF assms(1)] rnd_mono [OF assms(2)] rnd_scale [OF assms(3)] rnd_scale [OF assms(4)]
    by (simp add: encl_def)
qed

lemma encl_mono: "encl (a, b) x \<Longrightarrow> c \<le> a \<Longrightarrow> b \<le> d \<Longrightarrow> encl (c, d) x"
  using scale_le_iff [of c a] scale_le_iff [of b d] by (auto simp: encl_def simp del: scale_le_iff)

lemma encl_num: "scale a \<le> r \<Longrightarrow> r \<le> scale b \<Longrightarrow> encl (a, b) (Fin r)"
  by (simp add: encl_def)

lemma encl_neg: "encl (a, b) x \<Longrightarrow> encl (- b, - a) (fneg x)"
  by (auto simp: encl_def scale_minus)

lemma encl_add:
  "encl (a, b) x \<Longrightarrow> encl (c, d) y \<Longrightarrow> small (a + c) \<Longrightarrow> small (b + d) \<Longrightarrow> encl (a + c, b + d) (fadd x y)"
proof -
  assume *: "encl (a, b) x" "encl (c, d) y" "small (a + c)" "small (b + d)"
  then obtain r t where r: "x = Fin r" "y = Fin t" "scale (a + c) \<le> r + t" "r + t \<le> scale (b + d)"
    by (auto simp: encl_def scale_add add_mono)
  from encl_fl [OF r(3,4) *(3,4)] show ?thesis by (simp add: r(1,2))
qed

lemma encl_sub:
  "encl (a, b) x \<Longrightarrow> encl (c, d) y \<Longrightarrow> small (a - d) \<Longrightarrow> small (b - c) \<Longrightarrow> encl (a - d, b - c) (fsub x y)"
  using encl_add [of a b x "- d" "- c" "fneg y"] encl_neg [of c d y] by (simp add: fsub_def)

subsection \<open>Products and quotients\<close>

definition imul :: "ivl \<Rightarrow> ivl \<Rightarrow> ivl" where
  "imul i j = (case (i, j) of ((a, b), (c, d)) \<Rightarrow>
     (min (min (a * c) (a * d)) (min (b * c) (b * d)) div unit30,
      - (min (min (- (a * c)) (- (a * d))) (min (- (b * c)) (- (b * d))) div unit30)))"

definition idiv :: "ivl \<Rightarrow> ivl \<Rightarrow> ivl" where
  "idiv i j = (case (i, j) of ((a, b), (c, d)) \<Rightarrow>
     (min (a * unit30 div c) (a * unit30 div d), - min (- b * unit30 div c) (- b * unit30 div d)))"

definition small_ivl :: "ivl \<Rightarrow> bool" where
  "small_ivl i \<longleftrightarrow> small (fst i) \<and> small (snd i)"

lemma scale_div: "scale (n div unit30) \<le> of_int n / of_int (unit30 * unit30)"
proof -
  have "of_int (n div unit30) * (of_int unit30 :: rat) \<le> of_int n"
    by (simp only: of_int_mult [symmetric] of_int_le_iff) (simp add: minus_mod_eq_div_mult [symmetric])
  then show ?thesis by (simp add: scale_def field_simps)
qed

lemma scale_mult: "scale a * scale b = of_int (a * b) / of_int (unit30 * unit30)"
  by (simp add: scale_def)

lemma linear_min: "a \<le> r \<Longrightarrow> r \<le> b \<Longrightarrow> min (a * s) (b * s) \<le> r * (s :: rat)"
  by (cases "0 \<le> s") (auto simp: min_le_iff_disj mult_right_mono mult_right_mono_neg)

lemma product_min:
  fixes a b c d r s :: rat
  assumes "a \<le> r" "r \<le> b" "c \<le> s" "s \<le> d"
  shows "min (min (a * c) (a * d)) (min (b * c) (b * d)) \<le> r * s"
  using linear_min [OF assms(1,2), of s] linear_min [OF assms(3,4), of a] linear_min [OF assms(3,4), of b]
  by (simp add: mult.commute min_le_iff_disj) linarith

definition quad :: "int \<Rightarrow> rat" where
  "quad n = of_int n / of_int (unit30 * unit30)"

lemma quad_min: "quad (min m n) = min (quad m) (quad n)"
  by (rule min_of_mono [symmetric]) (simp add: mono_def quad_def divide_right_mono)

lemma encl_mul:
  assumes "encl (a, b) x" "encl (c, d) y" and s: "small_ivl (imul (a, b) (c, d))"
  shows "encl (imul (a, b) (c, d)) (fmul x y)"
proof -
  obtain r t where r: "x = Fin r" "scale a \<le> r" "r \<le> scale b" and t: "y = Fin t" "scale c \<le> t" "t \<le> scale d"
    using assms(1,2) by (auto simp: encl_def)
  have *: "scale (min (min (a * c) (a * d)) (min (b * c) (b * d)) div unit30) \<le> r * t"
    if "scale a \<le> r" "r \<le> scale b" "scale c \<le> t" "t \<le> scale d" for a b c d r t
  proof -
    have "scale (min (min (a * c) (a * d)) (min (b * c) (b * d)) div unit30)
        \<le> quad (min (min (a * c) (a * d)) (min (b * c) (b * d)))" unfolding quad_def by (rule scale_div)
    also have "\<dots> = min (min (scale a * scale c) (scale a * scale d)) (min (scale b * scale c) (scale b * scale d))"
      by (simp only: quad_min) (simp only: quad_def scale_mult)
    also have "\<dots> \<le> r * t" by (rule product_min [OF that])
    finally show ?thesis .
  qed
  have lo: "scale (fst (imul (a, b) (c, d))) \<le> r * t" using * [OF r(2,3) t(2,3)] by (simp add: imul_def)
  have "scale (min (min (- (a * c)) (- (a * d))) (min (- (b * c)) (- (b * d))) div unit30) \<le> r * - t"
    using * [of a r b "- d" "- t" "- c"] r t by (simp add: scale_minus min.commute)
  then have hi: "r * t \<le> scale (snd (imul (a, b) (c, d)))" by (simp add: imul_def scale_minus)
  show ?thesis using encl_fl [OF lo hi] s by (simp add: small_ivl_def r t)
qed

lemma scale_quot: "0 < c \<Longrightarrow> scale (a * unit30 div c) \<le> scale a / scale c"
proof -
  assume c: "0 < c"
  have "of_int (a * unit30 div c) * (of_int c :: rat) \<le> of_int (a * unit30)"
    using c by (simp only: of_int_mult [symmetric] of_int_le_iff) (simp add: minus_mod_eq_div_mult [symmetric])
  then show ?thesis using c by (simp add: scale_def field_simps)
qed

lemma quotient_min:
  assumes "scale a \<le> r" "scale c \<le> t" "t \<le> scale d" "0 < c" "0 < d"
  shows "scale (min (a * unit30 div c) (a * unit30 div d)) \<le> r / t"
proof -
  have t: "0 < t" using assms(2,4) scale_pos_iff [of c] by linarith
  have "min (scale a / scale c) (scale a / scale d) \<le> scale a / t"
  proof (cases "0 \<le> scale a")
    case True
    then have "scale a / scale d \<le> scale a / t" using t assms(3,5) by (intro divide_left_mono mult_pos_pos) auto
    then show ?thesis by (simp add: min_le_iff_disj)
  next
    case False
    then have "scale a / scale c \<le> scale a / t" using t assms(2,4) by (intro divide_left_mono_neg mult_pos_pos) auto
    then show ?thesis by (simp add: min_le_iff_disj)
  qed
  also have "\<dots> \<le> r / t" using assms(1) t by (simp add: divide_right_mono)
  finally have "scale a / scale c \<le> r / t \<or> scale a / scale d \<le> r / t" by (simp add: min_le_iff_disj)
  moreover have "scale (min m n) \<le> scale m" "scale (min m n) \<le> scale n" for m n by simp_all
  ultimately show ?thesis
    using scale_quot [OF assms(4), of a] scale_quot [OF assms(5), of a] order_trans by meson
qed

lemma encl_div:
  assumes "encl (a, b) x" "encl (c, d) y" "0 < c" and s: "small_ivl (idiv (a, b) (c, d))"
  shows "encl (idiv (a, b) (c, d)) (fdiv x y)"
proof -
  obtain r t where r: "x = Fin r" "scale a \<le> r" "r \<le> scale b" and t: "y = Fin t" "scale c \<le> t" "t \<le> scale d"
    using assms(1,2) by (auto simp: encl_def)
  have "scale c \<le> scale d" using t(2,3) by (rule order_trans)
  then have d: "0 < d" using assms(3) by simp
  have t0: "t \<noteq> 0" using t(2) assms(3) scale_pos_iff [of c] by linarith
  have lo: "scale (fst (idiv (a, b) (c, d))) \<le> r / t"
    using quotient_min [OF r(2) t(2,3) assms(3) d] by (simp add: idiv_def)
  have "scale (- b) \<le> - r" using r(3) by (simp add: scale_minus)
  from quotient_min [OF this t(2,3) assms(3) d]
  have hi: "r / t \<le> scale (snd (idiv (a, b) (c, d)))" by (simp add: idiv_def scale_minus)
  show ?thesis using encl_fl [OF lo hi] s t0 by (simp add: small_ivl_def r t)
qed

lemma encl_flt: "encl (a, b) x \<Longrightarrow> encl (c, d) y \<Longrightarrow> b < c \<Longrightarrow> flt x y"
  using scale_less_iff [of b c] by (auto simp: encl_def simp del: scale_less_iff)

lemma encl_not_fle: "encl (a, b) x \<Longrightarrow> encl (c, d) y \<Longrightarrow> d < a \<Longrightarrow> \<not> fle x y"
  using scale_less_iff [of d a] by (auto simp: encl_def simp del: scale_less_iff)

lemma encl_fle: "encl (a, b) x \<Longrightarrow> encl (c, d) y \<Longrightarrow> b \<le> c \<Longrightarrow> fle x y"
  using scale_le_iff [of b c] by (auto simp: encl_def simp del: scale_le_iff)

lemma encl_abs_less: "encl (a, b) x \<Longrightarrow> - c < a \<Longrightarrow> b < c \<Longrightarrow> flt (fabs x) (Fin (scale c))"
  using scale_less_iff [of "- c" a] scale_less_iff [of b c]
  by (auto simp: encl_def scale_minus abs_less_iff simp del: scale_less_iff)

lemma encl_one [simp]: "encl (unit30, unit30) (Fin 1)"
  by (simp add: encl_def scale_def unit30_def)

subsection \<open>Evaluation of an expression\<close>

definition iadd :: "ivl \<Rightarrow> ivl \<Rightarrow> ivl" where
  "iadd i j = (fst i + fst j, snd i + snd j)"

definition ineg :: "ivl \<Rightarrow> ivl" where
  "ineg i = (- snd i, - fst i)"

definition isub :: "ivl \<Rightarrow> ivl \<Rightarrow> ivl" where
  "isub i j = iadd i (ineg j)"

lemma ineg_encl: "encl i x \<Longrightarrow> encl (ineg i) (fneg x)"
  using encl_neg [of "fst i" "snd i" x] by (simp add: ineg_def)

lemma iadd_encl: "encl i x \<Longrightarrow> encl j y \<Longrightarrow> small_ivl (iadd i j) \<Longrightarrow> encl (iadd i j) (fadd x y)"
  using encl_add [of "fst i" "snd i" x "fst j" "snd j" y] by (simp add: iadd_def small_ivl_def)

lemma isub_encl: "encl i x \<Longrightarrow> encl j y \<Longrightarrow> small_ivl (isub i j) \<Longrightarrow> encl (isub i j) (fsub x y)"
  unfolding isub_def fsub_def by (intro iadd_encl ineg_encl)

lemma imul_encl: "encl i x \<Longrightarrow> encl j y \<Longrightarrow> small_ivl (imul i j) \<Longrightarrow> encl (imul i j) (fmul x y)"
  using encl_mul [of "fst i" "snd i" x "fst j" "snd j" y] by simp

lemma idiv_encl: "encl i x \<Longrightarrow> encl j y \<Longrightarrow> 0 < fst j \<Longrightarrow> small_ivl (idiv i j) \<Longrightarrow> encl (idiv i j) (fdiv x y)"
  using encl_div [of "fst i" "snd i" x "fst j" "snd j" y] by simp

lemma encl_eq: "encl i x \<Longrightarrow> i = j \<Longrightarrow> encl j x"
  by simp

lemma encl_mono': "encl i x \<Longrightarrow> a \<le> fst i \<Longrightarrow> snd i \<le> b \<Longrightarrow> encl (a, b) x"
  by (cases i) (simp add: encl_mono)

lemmas ivl_encl = iadd_encl isub_encl imul_encl idiv_encl ineg_encl

lemmas ivl_simps = iadd_def isub_def ineg_def imul_def idiv_def small_ivl_def small_def unit30_def scale_def

end
