(* ===== verification/Student_T.thy ===== *)
theory Student_T
  imports Likelihood Fp_Interval
begin

text \<open>
  What the Student t distribution function of \<open>src/signal/likelihood.cpp\<close> computes at 1 and -1, by
  interval arithmetic through two rounds of its continued fraction, and the shape of the calibration
  table.
\<close>

lemma off_zero_encl: "encl (a, b) x \<Longrightarrow> 0 < a \<Longrightarrow> off_zero x = x"
proof -
  assume x: "encl (a, b) x" "0 < a"
  then obtain r where r: "x = Fin r" "scale a \<le> r" by (auto simp: encl_def)
  have "scale 1 \<le> scale a" using x(2) by simp
  then have "scale 1 \<le> r" using r(2) by linarith
  moreover have "fle CF_FPMIN (Fin (scale 1))"
    unfolding CF_FPMIN_def lit_def using encl_fl [of 0 "1 / 10 ^ 30" 1] by (auto simp: encl_def ivl_simps)
  ultimately have "fle CF_FPMIN (fabs x)" using fle_trans [of CF_FPMIN "Fin (scale 1)" "fabs x"] by (simp add: r(1))
  then show ?thesis using fle_not_flt by (auto simp: off_zero_def)
qed

lemma lit_simps: "lit (1 / 2) = Fin (1 / 2)" "f64_of_int 1 = Fin 1" "f64_of_int 2 = Fin 2"
  "fmul (Fin 2) (Fin 1) = Fin 2" "fmul (Fin 2) (Fin 2) = Fin 4" "fmul (Fin 4) (Fin (1 / 2)) = Fin 2"
  "fadd (Fin 1) (Fin 4) = Fin 5" "fadd (Fin 2) (Fin (1 / 2)) = fadd (Fin (1 / 2)) (Fin 2)"
  "fmul (Fin 1) (Fin 1) = Fin 1"
  by (simp_all add: lit_half f64_of_int_def fl_numeral add.commute)

lemma betacf_round_1:
  assumes x: "encl (214748363, 214748367) x" and c: "encl (1073741824, 1073741824) c" and d: "encl (1610612728, 1610612747) d" and h: "encl (1610612728, 1610612747) h"
  shows "\<exists>c' d' h' delta. betacf_step (lit (1 / 2)) (Fin 2) x 1 (c, d, h) = (c', d', h', delta)
    \<and> encl (951416803, 951416809) c' \<and> encl (1207959548, 1207959556) d' \<and> encl (1565873465, 1565873523) h' \<and> encl (1070343899, 1070343914) delta"
proof -
  have mf: "encl (1073741824, 1073741824) (Fin 1)" and m2: "encl (2147483648, 2147483648) (Fin 2)" and half: "encl (536870912, 536870912) (Fin (1 / 2))" and two: "encl (2147483648, 2147483648) (Fin 2)" and one: "encl (1073741824, 1073741824) (Fin 1)"
    by (simp_all add: encl_num ivl_simps)
  define aa where "aa = fdiv (fmul (fmul (Fin 1) (fsub (Fin 2) (Fin 1))) x) (fmul (fadd (fsub (Fin (1 / 2)) (Fin 1)) (Fin 2)) (fadd (Fin (1 / 2)) (Fin 2)))"
  have aa: "encl (57266230, 57266232) aa" unfolding aa_def by (rule encl_eq, rule idiv_encl [OF imul_encl [OF imul_encl [OF mf isub_encl [OF two mf]] x] imul_encl [OF iadd_encl [OF isub_encl [OF half one] m2] iadd_encl [OF half m2]]]) (simp_all add: ivl_simps)
  define d1 where "d1 = fadd (Fin 1) (fmul aa d)"
  have d1: "encl (1159641168, 1159641173) d1" unfolding d1_def by (rule encl_eq, rule iadd_encl [OF one imul_encl [OF aa d]]) (simp_all add: ivl_simps)
  define c1 where "c1 = fadd (Fin 1) (fdiv aa c)"
  have c1: "encl (1131008054, 1131008056) c1" unfolding c1_def by (rule encl_eq, rule iadd_encl [OF one idiv_encl [OF aa c]]) (simp_all add: ivl_simps)
  define d2 where "d2 = fdiv (Fin 1) d1"
  have d2: "encl (994205389, 994205395) d2" unfolding d2_def by (rule encl_eq, rule idiv_encl [OF one d1]) (simp_all add: ivl_simps)
  define h1 where "h1 = fmul h (fmul d2 c1)"
  have h1: "encl (1570844504, 1570844539) h1" unfolding h1_def by (rule encl_eq, rule imul_encl [OF h imul_encl [OF d2 c1]]) (simp_all add: ivl_simps)
  define a2 where "a2 = fdiv (fmul (fmul (fneg (fadd (Fin (1 / 2)) (Fin 1))) (fadd (fadd (Fin (1 / 2)) (Fin 2)) (Fin 1))) x) (fmul (fadd (Fin (1 / 2)) (Fin 2)) (fadd (fadd (Fin (1 / 2)) (Fin 1)) (Fin 2)))"
  have a2: "encl (- 128849021, - 128849017) a2" unfolding a2_def by (rule encl_eq, rule idiv_encl [OF imul_encl [OF imul_encl [OF ineg_encl [OF iadd_encl [OF half mf]] iadd_encl [OF iadd_encl [OF half two] mf]] x] imul_encl [OF iadd_encl [OF half m2] iadd_encl [OF iadd_encl [OF half one] m2]]]) (simp_all add: ivl_simps)
  define d3 where "d3 = fadd (Fin 1) (fmul a2 d2)"
  have d3: "encl (954437174, 954437180) d3" unfolding d3_def by (rule encl_eq, rule iadd_encl [OF one imul_encl [OF a2 d2]]) (simp_all add: ivl_simps)
  define c2 where "c2 = fadd (Fin 1) (fdiv a2 c1)"
  have c2: "encl (951416803, 951416809) c2" unfolding c2_def by (rule encl_eq, rule iadd_encl [OF one idiv_encl [OF a2 c1]]) (simp_all add: ivl_simps)
  define d4 where "d4 = fdiv (Fin 1) d3"
  have d4: "encl (1207959548, 1207959556) d4" unfolding d4_def by (rule encl_eq, rule idiv_encl [OF one d3]) (simp_all add: ivl_simps)
  define de where "de = fmul d4 c2"
  have de: "encl (1070343899, 1070343914) de" unfolding de_def by (rule encl_eq, rule imul_encl [OF d4 c2]) (simp_all add: ivl_simps)
  define h2 where "h2 = fmul h1 de"
  have h2: "encl (1565873465, 1565873523) h2" unfolding h2_def by (rule encl_eq, rule imul_encl [OF h1 de]) (simp_all add: ivl_simps)
  have "betacf_step (lit (1 / 2)) (Fin 2) x 1 (c, d, h) = (c2, d4, h2, de)"
    using off_zero_encl [OF d1] off_zero_encl [OF c1] off_zero_encl [OF d3] off_zero_encl [OF c2]
    by (simp add: betacf_step_def Let_def lit_simps aa_def d1_def c1_def d2_def h1_def a2_def d3_def c2_def d4_def de_def h2_def del: fadd.simps fmul.simps fdiv.simps)
  then show ?thesis using c2 d4 h2 de by blast
qed

lemma betacf_round_2:
  assumes x: "encl (214748363, 214748367) x" and c: "encl (951416803, 951416809) c" and d: "encl (1207959548, 1207959556) d" and h: "encl (1565873465, 1565873523) h"
  shows "\<exists>c' d' h' delta. betacf_step (lit (1 / 2)) (Fin 2) x 2 (c, d, h) = (c', d', h', delta)
    \<and> encl (976128929, 976128932) c' \<and> encl (1181116005, 1181116009) d' \<and> encl (1565873459, 1565873529) h' \<and> encl (1073741820, 1073741828) delta"
proof -
  have mf: "encl (2147483648, 2147483648) (Fin 2)" and m2: "encl (4294967296, 4294967296) (Fin 4)" and half: "encl (536870912, 536870912) (Fin (1 / 2))" and two: "encl (2147483648, 2147483648) (Fin 2)" and one: "encl (1073741824, 1073741824) (Fin 1)"
    by (simp_all add: encl_num ivl_simps)
  define aa where "aa = fdiv (fmul (fmul (Fin 2) (fsub (Fin 2) (Fin 2))) x) (fmul (fadd (fsub (Fin (1 / 2)) (Fin 1)) (Fin 4)) (fadd (Fin (1 / 2)) (Fin 4)))"
  have aa: "encl (0, 0) aa" unfolding aa_def by (rule encl_eq, rule idiv_encl [OF imul_encl [OF imul_encl [OF mf isub_encl [OF two mf]] x] imul_encl [OF iadd_encl [OF isub_encl [OF half one] m2] iadd_encl [OF half m2]]]) (simp_all add: ivl_simps)
  define d1 where "d1 = fadd (Fin 1) (fmul aa d)"
  have d1: "encl (1073741824, 1073741824) d1" unfolding d1_def by (rule encl_eq, rule iadd_encl [OF one imul_encl [OF aa d]]) (simp_all add: ivl_simps)
  define c1 where "c1 = fadd (Fin 1) (fdiv aa c)"
  have c1: "encl (1073741824, 1073741824) c1" unfolding c1_def by (rule encl_eq, rule iadd_encl [OF one idiv_encl [OF aa c]]) (simp_all add: ivl_simps)
  define d2 where "d2 = fdiv (Fin 1) d1"
  have d2: "encl (1073741824, 1073741824) d2" unfolding d2_def by (rule encl_eq, rule idiv_encl [OF one d1]) (simp_all add: ivl_simps)
  define h1 where "h1 = fmul h (fmul d2 c1)"
  have h1: "encl (1565873465, 1565873523) h1" unfolding h1_def by (rule encl_eq, rule imul_encl [OF h imul_encl [OF d2 c1]]) (simp_all add: ivl_simps)
  define a2 where "a2 = fdiv (fmul (fmul (fneg (fadd (Fin (1 / 2)) (Fin 2))) (fadd (fadd (Fin (1 / 2)) (Fin 2)) (Fin 2))) x) (fmul (fadd (Fin (1 / 2)) (Fin 4)) (fadd (fadd (Fin (1 / 2)) (Fin 1)) (Fin 4)))"
  have a2: "encl (- 97612895, - 97612892) a2" unfolding a2_def by (rule encl_eq, rule idiv_encl [OF imul_encl [OF imul_encl [OF ineg_encl [OF iadd_encl [OF half mf]] iadd_encl [OF iadd_encl [OF half two] mf]] x] imul_encl [OF iadd_encl [OF half m2] iadd_encl [OF iadd_encl [OF half one] m2]]]) (simp_all add: ivl_simps)
  define d3 where "d3 = fadd (Fin 1) (fmul a2 d2)"
  have d3: "encl (976128929, 976128932) d3" unfolding d3_def by (rule encl_eq, rule iadd_encl [OF one imul_encl [OF a2 d2]]) (simp_all add: ivl_simps)
  define c2 where "c2 = fadd (Fin 1) (fdiv a2 c1)"
  have c2: "encl (976128929, 976128932) c2" unfolding c2_def by (rule encl_eq, rule iadd_encl [OF one idiv_encl [OF a2 c1]]) (simp_all add: ivl_simps)
  define d4 where "d4 = fdiv (Fin 1) d3"
  have d4: "encl (1181116005, 1181116009) d4" unfolding d4_def by (rule encl_eq, rule idiv_encl [OF one d3]) (simp_all add: ivl_simps)
  define de where "de = fmul d4 c2"
  have de: "encl (1073741820, 1073741828) de" unfolding de_def by (rule encl_eq, rule imul_encl [OF d4 c2]) (simp_all add: ivl_simps)
  define h2 where "h2 = fmul h1 de"
  have h2: "encl (1565873459, 1565873529) h2" unfolding h2_def by (rule encl_eq, rule imul_encl [OF h1 de]) (simp_all add: ivl_simps)
  have "betacf_step (lit (1 / 2)) (Fin 2) x 2 (c, d, h) = (c2, d4, h2, de)"
    using off_zero_encl [OF d1] off_zero_encl [OF c1] off_zero_encl [OF d3] off_zero_encl [OF c2]
    by (simp add: betacf_step_def Let_def lit_simps aa_def d1_def c1_def d2_def h1_def a2_def d3_def c2_def d4_def de_def h2_def del: fadd.simps fmul.simps fdiv.simps)
  then show ?thesis using c2 d4 h2 de by blast
qed


lemma betacf_loop_Suc:
  "betacf_step a b x m (c, d, h) = (c', d', h', delta) \<Longrightarrow>
     betacf_loop a b x m (Suc n) (c, d, h) =
       (if flt (fabs (fsub delta (Fin 1))) CF_EPS then h' else betacf_loop a b x (m + 1) n (c', d', h'))"
  by simp

lemma betacf_value:
  assumes x: "encl (214748363, 214748367) x"
  shows "encl (1565873459, 1565873529) (betacf (lit (1 / 2)) (Fin 2) x)"
proof -
  have half: "encl (536870912, 536870912) (Fin (1 / 2))" and two: "encl (2147483648, 2147483648) (Fin 2)"
    and one: "encl (1073741824, 1073741824) (Fin 1)"
    by (simp_all add: encl_num ivl_simps)
  have eps: "encl (322, 323) CF_EPS"
    unfolding CF_EPS_def lit_def by (rule encl_fl) (simp_all add: ivl_simps)
  define d where "d = fdiv (Fin 1) (fsub (Fin 1) (fdiv (fmul (fadd (Fin (1 / 2)) (Fin 2)) x) (fadd (Fin (1 / 2)) (Fin 1))))"
  have d: "encl (1610612728, 1610612747) d" unfolding d_def
    by (rule encl_eq, rule idiv_encl [OF one isub_encl [OF one idiv_encl [OF imul_encl [OF iadd_encl [OF half two] x] iadd_encl [OF half one]]]])
      (simp_all add: ivl_simps)
  have nz: "encl (715827878, 715827886) (fsub (Fin 1) (fdiv (fmul (fadd (Fin (1 / 2)) (Fin 2)) x) (fadd (Fin (1 / 2)) (Fin 1))))"
    by (rule encl_eq, rule isub_encl [OF one idiv_encl [OF imul_encl [OF iadd_encl [OF half two] x] iadd_encl [OF half one]]])
      (simp_all add: ivl_simps)
  obtain c1 d1 h1 e1 where s1: "betacf_step (lit (1 / 2)) (Fin 2) x 1 (Fin 1, d, d) = (c1, d1, h1, e1)"
    and c1: "encl (951416803, 951416809) c1" and d1: "encl (1207959548, 1207959556) d1"
    and h1: "encl (1565873465, 1565873523) h1" and e1: "encl (1070343899, 1070343914) e1"
    using betacf_round_1 [OF x one d d] by blast
  obtain c2 d2 h2 e2 where s2: "betacf_step (lit (1 / 2)) (Fin 2) x 2 (c1, d1, h1) = (c2, d2, h2, e2)"
    and h2: "encl (1565873459, 1565873529) h2" and e2: "encl (1073741820, 1073741828) e2"
    using betacf_round_2 [OF x c1 d1 h1] by blast
  have n1: "\<not> flt (fabs (fsub e1 (Fin 1))) CF_EPS"
  proof -
    have "encl (- 3397925, - 3397910) (fsub e1 (Fin 1))"
      by (rule encl_eq, rule isub_encl [OF e1 one]) (simp_all add: ivl_simps)
    then have "encl (3397910, 3397925) (fabs (fsub e1 (Fin 1)))" by (auto simp: encl_def ivl_simps)
    then have "flt CF_EPS (fabs (fsub e1 (Fin 1)))" by (rule encl_flt [OF eps]) simp
    then show ?thesis using flt_imp_fle fle_not_flt by blast
  qed
  have n2: "flt (fabs (fsub e2 (Fin 1))) CF_EPS"
  proof -
    have "encl (- 4, 4) (fsub e2 (Fin 1))" by (rule encl_eq, rule isub_encl [OF e2 one]) (simp_all add: ivl_simps)
    then have "flt (fabs (fsub e2 (Fin 1))) (Fin (scale 5))" by (rule encl_abs_less) simp_all
    moreover have "fle (Fin (scale 5)) CF_EPS" by (rule encl_fle [OF encl_num [of 5 _ 5] eps]) simp_all
    ultimately show ?thesis by (rule flt_fle_trans)
  qed
  have "betacf (lit (1 / 2)) (Fin 2) x = betacf_loop (lit (1 / 2)) (Fin 2) x 1 CF_MAX_ITER (Fin 1, d, d)"
    using off_zero_encl [OF nz] by (simp add: betacf_def Let_def lit_half d_def del: fadd.simps fmul.simps fdiv.simps)
  also have "CF_MAX_ITER = Suc (Suc 198)" by (simp add: CF_MAX_ITER_def)
  finally have "betacf (lit (1 / 2)) (Fin 2) x = h2"
    using n1 n2 by (simp only: betacf_loop_Suc [OF s1] if_False) (simp only: one_add_one betacf_loop_Suc [OF s2] if_True)
  then show ?thesis using h2 by simp
qed


text \<open>
  What the C library documents of the functions used: \<open>lgamma\<close> at 2, 1/2 and 5/2, \<open>log\<close> near 4/5 and
  near 1/5, \<open>exp\<close> between -0.98 and -0.95, each to two or three digits (in units of \<open>2 ^ -30\<close>).
\<close>

definition near :: "rat \<Rightarrow> rat \<Rightarrow> f64 \<Rightarrow> bool" where
  "near lo hi x \<longleftrightarrow> (\<exists>r. x = Fin r \<and> lo \<le> r \<and> r \<le> hi)"

lemma near_Fin [simp]: "near lo hi (Fin r) \<longleftrightarrow> lo \<le> r \<and> r \<le> hi"
  by (auto simp: near_def)

lemma near_encl: "near lo hi x \<Longrightarrow> scale a \<le> lo \<Longrightarrow> hi \<le> scale b \<Longrightarrow> encl (a, b) x"
  by (auto simp: near_def encl_def)

lemma encl_near: "encl (a, b) x \<Longrightarrow> lo \<le> scale a \<Longrightarrow> scale b \<le> hi \<Longrightarrow> near lo hi x"
  by (auto simp: near_def encl_def)

definition libm_digits :: "libm \<Rightarrow> bool" where
  "libm_digits M \<longleftrightarrow>
     near 0 0 (c_lgamma M (Fin 2)) \<and> near (57 / 100) (58 / 100) (c_lgamma M (Fin (1 / 2)))
     \<and> near (28 / 100) (29 / 100) (c_lgamma M (Fin (5 / 2)))
     \<and> (\<forall>x. near (799 / 1000) (801 / 1000) x \<longrightarrow> near (- 2245 / 10000) (- 2218 / 10000) (c_log M x))
     \<and> (\<forall>x. near (199 / 1000) (201 / 1000) x \<longrightarrow> near (- 16145 / 10000) (- 16044 / 10000) (c_log M x))
     \<and> (\<forall>x. near (- 99 / 100) (- 93 / 100) x \<longrightarrow> near (371 / 1000) (395 / 1000) (c_exp M x))"

lemma betai_negative:
  assumes "libm_digits M" and x: "encl (858993459, 858993460) x"
  shows "\<exists>e. encl e (betai M (Fin 2) (Fin (1 / 2)) x) \<and> small_ivl e \<and> snd e < - 80000000"
proof -
  have half: "encl (536870912, 536870912) (Fin (1 / 2))" and two: "encl (2147483648, 2147483648) (Fin 2)"
    and one: "encl (1073741824, 1073741824) (Fin 1)"
    by (simp_all add: encl_num ivl_simps)
  have sum: "fadd (Fin 2) (Fin (1 / 2)) = Fin (5 / 2)"
  proof -
    have "representable (5 / 2)"
      unfolding representable_def by (intro exI [of _ 5] exI [of _ "- 1"]) (simp add: pow2_def)
    then show ?thesis by (simp add: fl_representable f64_top_def)
  qed
  have h5: "encl (2684354560, 2684354560) (Fin (5 / 2))" by (simp add: encl_num ivl_simps)
  define y where "y = fsub (Fin 1) x"
  have y: "encl (214748364, 214748365) y" unfolding y_def by (rule encl_eq, rule isub_encl [OF one x]) (simp_all add: ivl_simps)
  have "encl (214748363, 214748367) y" by (rule encl_mono [OF y]) simp_all
  from betacf_value [OF this] have cf: "encl (1565873459, 1565873529) (betacf (Fin (1 / 2)) (Fin 2) y)" by (simp only: lit_half)
  have "near (799 / 1000) (801 / 1000) x" "near (199 / 1000) (201 / 1000) y"
    by (rule encl_near [OF x] encl_near [OF y]; simp add: ivl_simps)+
  then have l: "near (- 2245 / 10000) (- 2218 / 10000) (c_log M x)" "near (- 16145 / 10000) (- 16044 / 10000) (c_log M y)"
    "near 0 0 (c_lgamma M (Fin 2))" "near (57 / 100) (58 / 100) (c_lgamma M (Fin (1 / 2)))"
    "near (28 / 100) (29 / 100) (c_lgamma M (Fin (5 / 2)))"
    using assms(1) unfolding libm_digits_def by blast+
  have lx: "encl (- 241055040, - 238155936) (c_log M x)" and ly: "encl (- 1733556176, - 1722711382) (c_log M y)"
    and g2: "encl (0, 0) (c_lgamma M (Fin 2))" and gh: "encl (612032839, 622770258) (c_lgamma M (Fin (1 / 2)))"
    and g5: "encl (300647710, 311385129) (c_lgamma M (Fin (5 / 2)))"
    by (rule near_encl [OF l(1)] near_encl [OF l(2)] near_encl [OF l(3)] near_encl [OF l(4)] near_encl [OF l(5)];
        simp add: ivl_simps)+
  define z where "z = fadd (fadd (fsub (fadd (c_lgamma M (Fin 2)) (c_lgamma M (Fin (1 / 2)))) (c_lgamma M (Fin (5 / 2))))
      (fmul (Fin 2) (c_log M x))) (fmul (Fin (1 / 2)) (c_log M y))"
  have z: "encl (- 1048240459, - 1015545014) z" unfolding z_def
    by (rule encl_mono', rule iadd_encl [OF iadd_encl [OF isub_encl [OF iadd_encl [OF g2 gh] g5] imul_encl [OF two lx]] imul_encl [OF half ly]])
      (simp_all add: ivl_simps)
  have "near (- 99 / 100) (- 93 / 100) z" by (rule encl_near [OF z]) (simp_all add: ivl_simps)
  then have "near (371 / 1000) (395 / 1000) (c_exp M z)" using assms(1) unfolding libm_digits_def by blast
  then have bt: "encl (398358216, 424128021) (c_exp M z)" by (rule near_encl) (simp_all add: ivl_simps)
  have eq: "betai M (Fin 2) (Fin (1 / 2)) x
      = fsub (Fin 1) (fdiv (fmul (c_exp M z) (betacf (Fin (1 / 2)) (Fin 2) y)) (Fin (1 / 2)))"
  proof -
    have a: "\<not> fle x (Fin 0)" "\<not> fle (Fin 1) x"
      using x by (auto simp: encl_def ivl_simps)
    have q: "encl (715827882, 715827883) (fdiv (fadd (Fin 2) (Fin 1)) (fadd (Fin (5 / 2)) (Fin 2)))"
      by (rule encl_eq, rule idiv_encl [OF iadd_encl [OF two one] iadd_encl [OF h5 two]]) (simp_all add: ivl_simps)
    have "\<not> flt x (fdiv (fadd (Fin 2) (Fin 1)) (fadd (Fin (5 / 2)) (Fin 2)))"
      using encl_flt [OF q x] flt_imp_fle fle_not_flt by fastforce
    then show ?thesis using a by (simp add: betai_def Let_def sum z_def y_def del: fadd.simps fmul.simps fdiv.simps fle.simps flt.simps)
  qed
  show ?thesis unfolding eq
    by (intro exI conjI, rule isub_encl [OF one idiv_encl [OF imul_encl [OF bt cf] half]]) (simp_all add: ivl_simps)
qed


text \<open>
  The distribution function is not one. With the values the C library documents for \<open>exp\<close>,
  \<open>log\<close> and \<open>lgamma\<close>, the value computed for P(T <= 1) with the four degrees of freedom of the bot is
  greater than 1, and P(T <= -1) is negative: \<open>betai\<close> multiplies by the beta function where it should
  divide by it.
\<close>

theorem student_t_exceeds_one:
  assumes "libm_digits M"
  shows "flt (Fin 1) (student_t_cdf M (Fin 1) T_DEGREES_OF_FREEDOM) \<and> flt (student_t_cdf M (Fin (- 1)) T_DEGREES_OF_FREEDOM) (Fin 0)"
proof -
  have T: "T_DEGREES_OF_FREEDOM = Fin 4" by (simp add: T_DEGREES_OF_FREEDOM_def lit_def fl_numeral)
  have half: "encl (536870912, 536870912) (Fin (1 / 2))" and one: "encl (1073741824, 1073741824) (Fin 1)"
    by (simp_all add: encl_num ivl_simps)
  have x: "encl (858993459, 858993460) (fdiv (Fin 4) (Fin 5))"
    using encl_fl [of 858993459 "4 / 5" 858993460] by (simp add: ivl_simps)
  let ?i = "betai M (Fin 2) (Fin (1 / 2)) (fdiv (Fin 4) (Fin 5))"
  obtain e where "encl e ?i" "small_ivl e" "snd e < - 80000000" using betai_negative [OF assms x] by blast
  then have e: "encl (- (2 ^ 53), - 80000000) ?i"
    by (cases e) (rule encl_mono, auto simp: small_ivl_def small_def)
  have h: "encl (- (2 ^ 52), - 40000000) (fmul (Fin (1 / 2)) ?i)"
    by (rule encl_mono', rule imul_encl [OF half e]) (simp_all add: ivl_simps)
  have lo: "flt (fmul (Fin (1 / 2)) ?i) (Fin 0)" by (rule encl_flt [OF h, of 0 0]) (simp_all add: encl_num)
  have "encl (1113741824, 2 ^ 53 - 1) (fsub (Fin 1) (fmul (Fin (1 / 2)) ?i))"
    by (rule encl_mono', rule isub_encl [OF one h]) (simp_all add: ivl_simps)
  then have hi: "flt (Fin 1) (fsub (Fin 1) (fmul (Fin (1 / 2)) ?i))" by (rule encl_flt [OF one]) simp
  have "student_t_cdf M (Fin 1) T_DEGREES_OF_FREEDOM = fsub (Fin 1) (fmul (Fin (1 / 2)) ?i)"
    "student_t_cdf M (Fin (- 1)) T_DEGREES_OF_FREEDOM = fmul (Fin (1 / 2)) ?i"
    by (simp_all add: student_t_cdf_def Let_def T lit_half fl_numeral del: fdiv.simps fsub_def)
  then show ?thesis using lo hi by simp
qed

text \<open>A C library with just these values.\<close>

definition sample_libm :: libm where
  "sample_libm =
     \<lparr>c_log = (\<lambda>x. if flt x (Fin (1 / 2)) then Fin (- 1609 / 1000) else Fin (- 223 / 1000)),
      c_exp = (\<lambda>x. Fin (382 / 1000)),
      c_lgamma = (\<lambda>x. if x = Fin 2 then Fin 0 else if x = Fin (1 / 2) then Fin (572 / 1000) else Fin (285 / 1000)),
      c_sqrt = (\<lambda>x. x)\<rparr>"

theorem student_t_exceeds_one_witness:
  "flt (Fin 1) (student_t_cdf sample_libm (Fin 1) T_DEGREES_OF_FREEDOM)"
proof -
  have "libm_digits sample_libm" by (auto simp: libm_digits_def sample_libm_def) (auto simp: near_def)
  from student_t_exceeds_one [OF this] show ?thesis by blast
qed

subsection \<open>The calibration table is never read out of range\<close>

definition table_shape :: "f64 list list \<Rightarrow> bool" where
  "table_shape t \<longleftrightarrow> length t = STRIKE_DISTANCE_BINS \<and> (\<forall>r \<in> set t. length r = TIME_REMAINING_BINS)"

lemma length_load_row: "length (load_row s col r) = length r"
  by (induction s col r rule: load_row.induct) (subst load_row.simps, auto split: option.splits)

lemma load_rows_shape: "table_shape t \<Longrightarrow> table_shape (snd (load_rows s row t))"
proof (induction s row t rule: load_rows.induct)
  case (1 s row t)
  show ?case
  proof (cases "getline (CHR 0x0A) s")
    case None
    then show ?thesis using "1.prems" by (subst load_rows.simps) simp
  next
    case (Some p)
    obtain l r where p: "p = (l, r)" by (cases p) blast
    have "table_shape (t[row := load_row l 0 (t ! row)])" if "row < STRIKE_DISTANCE_BINS"
      using "1.prems" that set_update_subset_insert [of t row "load_row l 0 (t ! row)"]
      by (auto simp: table_shape_def length_load_row)
    then show ?thesis using "1.prems" "1.IH" [OF Some p [symmetric]] by (subst load_rows.simps) (simp add: Some p)
  qed
qed

lemma lookup_row_less: "lookup_row btc strike < STRIKE_DISTANCE_BINS"
  by (auto simp: lookup_row_def Let_def saturate_def STRIKE_DISTANCE_BINS_def)

lemma lookup_col_less: "lookup_col t < TIME_REMAINING_BINS"
  by (auto simp: lookup_col_def saturate_def TIME_REMAINING_BINS_def)

text \<open>
  The calibration table. Whatever files are loaded in whatever order, readable or not, with short or
  long rows and lines that do not parse, the table keeps its 200 rows of 60 columns, and a lookup at
  any prices and times returns 0.5 or an entry within them.
\<close>

theorem lookup_in_table:
  "let T = fold (\<lambda>f T. snd (load_csv f T)) files new_lookup_table
   in table_shape (lt_table T)
      \<and> (lookup T btc strike time_remaining_s = lit (1 / 2)
         \<or> lookup T btc strike time_remaining_s \<in> \<Union> (set ` set (lt_table T)))"
proof -
  have "table_shape (lt_table (snd (load_csv f T)))" if "table_shape (lt_table T)" for f T
    using load_rows_shape [OF that] that
    by (cases f) (auto simp: load_csv_def case_prod_beta)
  then have s: "table_shape (lt_table T) \<Longrightarrow> table_shape (lt_table (fold (\<lambda>f T. snd (load_csv f T)) files T))" for T
    by (induction files arbitrary: T) simp_all
  have "table_shape (lt_table new_lookup_table)" by (simp add: table_shape_def new_lookup_table_def)
  from s [OF this] show ?thesis
    using lookup_row_less [of btc strike] lookup_col_less [of time_remaining_s]
    by (auto simp: lookup_def table_shape_def Let_def) (metis nth_mem)
qed

end
