(* ===== verification/Feed_Parsers.thy ===== *)
theory Feed_Parsers
  imports Json_Lib Tick
begin

text \<open>
  The message parsers of \<open>src/data/feed_manager.cpp\<close>. A parser that returns false is \<open>Inr None\<close>, an
  exception of the JSON library or of a number conversion is \<open>Inl\<close>; the tick it fills is the result.
\<close>

definition parse_double :: "string \<Rightarrow> f64" where
  "parse_double s = (case stod s of Inl _ \<Rightarrow> Fin 0 | Inr x \<Rightarrow> x)"

definition sum_levels :: "f64 list \<Rightarrow> f64" where
  "sum_levels qs = fold (\<lambda>q s. fadd s q) qs (Fin 0)"

definition compute_ob_imbalance :: "f64 list \<Rightarrow> f64 list \<Rightarrow> f64" where
  "compute_ob_imbalance bids asks =
     (let bid_qty = sum_levels (take 5 bids); ask_qty = sum_levels (take 5 asks); total = fadd bid_qty ask_qty
      in if feq total (Fin 0) then Fin 0 else fdiv (fsub bid_qty ask_qty) total)"

text \<open>A key read as text and as a number, and the number of an element of a level \<open>[price, quantity]\<close>.\<close>

definition key_double :: "'j json_lib \<Rightarrow> string \<Rightarrow> 'j \<Rightarrow> exn + f64" where
  "key_double J k j = sbind (j_get_string J j k) (\<lambda>s. Inr (parse_double s))"

definition opt_double :: "'j json_lib \<Rightarrow> string \<Rightarrow> 'j \<Rightarrow> exn + f64" where
  "opt_double J k j = (if j_contains J j k then key_double J k j else Inr (Fin 0))"

definition nth_double :: "'j json_lib \<Rightarrow> nat \<Rightarrow> 'j \<Rightarrow> exn + f64" where
  "nth_double J i j = sbind (j_nth J j i) (\<lambda>x. sbind (j_string J x) (\<lambda>s. Inr (parse_double s)))"

text \<open>The first field of the best level, zero for an empty side.\<close>

definition best_level :: "'j json_lib \<Rightarrow> ('j \<Rightarrow> exn + f64) \<Rightarrow> 'j \<Rightarrow> exn + f64" where
  "best_level J price book = (if j_items J book = [] then Inr (Fin 0) else sbind (j_nth J book 0) price)"

text \<open>The quantities of the first five levels in an array of five, the rest zero.\<close>

fun read_levels :: "'j json_lib \<Rightarrow> ('j \<Rightarrow> exn + f64) \<Rightarrow> 'j \<Rightarrow> nat list \<Rightarrow> exn + f64 list" where
  "read_levels J qty book [] = Inr []"
| "read_levels J qty book (i # is) =
     sbind (j_nth J book i) (\<lambda>l. sbind (qty l) (\<lambda>q. sbind (read_levels J qty book is) (\<lambda>qs. Inr (q # qs))))"

definition top_levels :: "'j json_lib \<Rightarrow> ('j \<Rightarrow> exn + f64) \<Rightarrow> 'j \<Rightarrow> exn + f64 list" where
  "top_levels J qty book =
     sbind (read_levels J qty book [0..<min 5 (length (j_items J book))])
       (\<lambda>qs. Inr (qs @ replicate (5 - length qs) (Fin 0)))"

definition half_sum :: "f64 \<Rightarrow> f64 \<Rightarrow> f64" where
  "half_sum a b = fdiv (fadd a b) (Fin 2)"

definition thin :: "'j json_lib \<Rightarrow> 'j \<Rightarrow> 'j \<Rightarrow> bool" where
  "thin J bids asks \<longleftrightarrow> length (j_items J bids) < 2 \<or> length (j_items J asks) < 2"

definition parse_binance_depth :: "'j json_lib \<Rightarrow> 'j \<Rightarrow> i64 \<Rightarrow> i64 \<Rightarrow> exn + tick option" where
  "parse_binance_depth J data exchange_us clock_offset_us =
     (if \<not> j_contains J data ''b'' \<or> \<not> j_contains J data ''a'' then Inr None
      else sbind (j_at J data ''b'') (\<lambda>bids. sbind (j_at J data ''a'') (\<lambda>asks.
        if j_items J bids = [] \<and> j_items J asks = [] then Inr None
        else sbind (best_level J (nth_double J 0) bids) (\<lambda>bb.
             sbind (best_level J (nth_double J 0) asks) (\<lambda>ba.
             sbind (top_levels J (nth_double J 1) bids) (\<lambda>bqty.
             sbind (top_levels J (nth_double J 1) asks) (\<lambda>aqty.
               Inr (Some \<lparr>timestamp_us = exchange_us + clock_offset_us, tick_source = BINANCE, best_bid = bb, best_ask = ba,
                 mid = half_sum bb ba,
                 ob_imbalance = (if thin J bids asks then Fin 0 else compute_ob_imbalance bqty aqty),
                 last_trade = Fin 0, low_depth = thin J bids asks\<rparr>))))))))"

definition parse_binance_trade :: "'j json_lib \<Rightarrow> 'j \<Rightarrow> i64 \<Rightarrow> i64 \<Rightarrow> exn + tick option" where
  "parse_binance_trade J data exchange_us clock_offset_us =
     (if \<not> j_contains J data ''p'' then Inr None
      else sbind (key_double J ''p'' data) (\<lambda>price.
        if feq price (Fin 0) then Inr None
        else Inr (Some \<lparr>timestamp_us = exchange_us + clock_offset_us, tick_source = BINANCE, best_bid = Fin 0,
          best_ask = Fin 0, mid = Fin 0, ob_imbalance = Fin 0, last_trade = price, low_depth = False\<rparr>)))"

text \<open>The mark price and the funding rate, when both are to be stored.\<close>

definition parse_binance_funding :: "'j json_lib \<Rightarrow> 'j \<Rightarrow> exn + (f64 \<times> f64) option" where
  "parse_binance_funding J data =
     (if \<not> j_contains J data ''p'' \<or> \<not> j_contains J data ''r'' then Inr None
      else case sbind (key_double J ''p'' data) (\<lambda>mp. sbind (key_double J ''r'' data) (\<lambda>fr. Inr (mp, fr))) of
             Inl e \<Rightarrow> Inl (Terminated (exn_what e))
           | Inr (mp, fr) \<Rightarrow> if feq mp (Fin 0) then Inr None else Inr (Some (mp, fr)))"

definition coinbase_ticker_tick :: "'j json_lib \<Rightarrow> i64 \<Rightarrow> 'j \<Rightarrow> exn + tick" where
  "coinbase_ticker_tick J timestamp t =
     sbind (opt_double J ''best_bid'' t) (\<lambda>bb.
     sbind (opt_double J ''best_ask'' t) (\<lambda>ba.
     sbind (opt_double J ''price'' t) (\<lambda>pr.
     sbind (opt_double J ''best_bid_quantity'' t) (\<lambda>bbq.
     sbind (opt_double J ''best_ask_quantity'' t) (\<lambda>baq.
       let total = fadd bbq baq
       in Inr \<lparr>timestamp_us = timestamp, tick_source = COINBASE, best_bid = bb, best_ask = ba,
            mid = (if flt (Fin 0) bb \<and> flt (Fin 0) ba then half_sum bb ba else pr),
            ob_imbalance = (if flt (Fin 0) total then fdiv (fsub bbq baq) total else Fin 0),
            last_trade = pr, low_depth = False\<rparr>)))))"

fun find_ticker :: "'j json_lib \<Rightarrow> i64 \<Rightarrow> 'j list \<Rightarrow> exn + tick option" where
  "find_ticker J ts [] = Inr None"
| "find_ticker J ts (t # rest) =
     (if \<not> j_contains J t ''product_id'' then find_ticker J ts rest
      else sbind (j_get_string J t ''product_id'') (\<lambda>pid.
        if pid \<noteq> ''BTC-USD'' then find_ticker J ts rest
        else sbind (coinbase_ticker_tick J ts t) (\<lambda>tk. Inr (Some tk))))"

fun find_event :: "'j json_lib \<Rightarrow> i64 \<Rightarrow> 'j list \<Rightarrow> exn + tick option" where
  "find_event J ts [] = Inr None"
| "find_event J ts (ev # rest) =
     (if \<not> j_contains J ev ''tickers'' then find_event J ts rest
      else sbind (j_at J ev ''tickers'') (\<lambda>tks.
        sbind (find_ticker J ts (j_items J tks)) (\<lambda>r. case r of None \<Rightarrow> find_event J ts rest | Some tk \<Rightarrow> Inr (Some tk))))"

definition parse_coinbase_ticker :: "'j json_lib \<Rightarrow> 'j \<Rightarrow> i64 \<Rightarrow> i64 \<Rightarrow> exn + tick option" where
  "parse_coinbase_ticker J j envelope_us clock_offset_us =
     (if \<not> j_contains J j ''events'' then Inr None
      else sbind (j_at J j ''events'') (\<lambda>evs. find_event J (envelope_us + clock_offset_us) (j_items J evs)))"

text \<open>The exchange time of a Polymarket message in microseconds, zero when it has none.\<close>

definition poly_time :: "'j json_lib \<Rightarrow> 'j \<Rightarrow> exn + i64" where
  "poly_time J j =
     (if j_contains J j ''timestamp''
      then sbind (j_get_string J j ''timestamp'') (\<lambda>s. sbind (stoll s) (\<lambda>t. Inr (t * 1000)))
      else Inr 0)"

definition parse_polymarket_book :: "'j json_lib \<Rightarrow> 'j \<Rightarrow> i64 \<Rightarrow> exn + tick option" where
  "parse_polymarket_book J j clock_offset_us =
     (if \<not> j_contains J j ''bids'' \<or> \<not> j_contains J j ''asks'' then Inr None
      else sbind (poly_time J j) (\<lambda>exchange_us.
           sbind (j_at J j ''bids'') (\<lambda>bids. sbind (j_at J j ''asks'') (\<lambda>asks.
           sbind (best_level J (key_double J ''price'') bids) (\<lambda>bb.
           sbind (best_level J (key_double J ''price'') asks) (\<lambda>ba.
           sbind (top_levels J (key_double J ''size'') bids) (\<lambda>bsizes.
           sbind (top_levels J (key_double J ''size'') asks) (\<lambda>asizes.
             Inr (Some \<lparr>timestamp_us = exchange_us + clock_offset_us, tick_source = POLYMARKET, best_bid = bb, best_ask = ba,
               mid = (if flt (Fin 0) bb \<and> flt (Fin 0) ba then half_sum bb ba else Fin 0),
               ob_imbalance = (if thin J bids asks then Fin 0 else compute_ob_imbalance bsizes asizes),
               last_trade = Fin 0, low_depth = thin J bids asks\<rparr>)))))))))"

fun find_change :: "'j json_lib \<Rightarrow> 'j list \<Rightarrow> f64 \<times> f64 \<Rightarrow> exn + f64 \<times> f64" where
  "find_change J [] p = Inr p"
| "find_change J (c # cs) (bb, ba) =
     sbind (if j_contains J c ''best_bid'' then key_double J ''best_bid'' c else Inr bb) (\<lambda>bb.
     sbind (if j_contains J c ''best_ask'' then key_double J ''best_ask'' c else Inr ba) (\<lambda>ba.
       if flt (Fin 0) bb \<or> flt (Fin 0) ba then Inr (bb, ba) else find_change J cs (bb, ba)))"

definition parse_polymarket_price_change :: "'j json_lib \<Rightarrow> 'j \<Rightarrow> i64 \<Rightarrow> exn + tick option" where
  "parse_polymarket_price_change J j clock_offset_us =
     (if \<not> j_contains J j ''price_changes'' then Inr None
      else sbind (j_at J j ''price_changes'') (\<lambda>changes.
        if j_items J changes = [] then Inr None
        else sbind (poly_time J j) (\<lambda>exchange_us.
             sbind (find_change J (j_items J changes) (Fin 0, Fin 0)) (\<lambda>(bb, ba).
               if feq bb (Fin 0) \<and> feq ba (Fin 0) then Inr None
               else Inr (Some \<lparr>timestamp_us = exchange_us + clock_offset_us, tick_source = POLYMARKET,
                 best_bid = bb, best_ask = ba,
                 mid = (if flt (Fin 0) bb \<and> flt (Fin 0) ba then half_sum bb ba else fadd bb ba),
                 ob_imbalance = Fin 0, last_trade = Fin 0, low_depth = False\<rparr>)))))"

end
