(* ===== verification/Feed_Manager.thy ===== *)
theory Feed_Manager
  imports Feed_Parsers Ring_Buffer Effects Constants
begin

text \<open>
  The feed manager, \<open>src/data/feed_manager.hpp\<close> and \<open>feed_manager.cpp\<close>: dispatch of the messages of
  the three connections into the tick ring, the fault level of each source, and the reconnect loop.
  The clock is a function of a world; the sockets are the list of what a connection delivers.
\<close>

record 'w feed =
  fd_world :: 'w
  fd_ring :: "tick ring"
  fd_clock :: clock_sync
  low_streak :: "source \<Rightarrow> u32"
  last_received :: "source \<Rightarrow> i64"
  fault_of :: "source \<Rightarrow> feed_fault_level"
  funding_rate :: f64
  mark_price :: f64
  fd_running :: bool

type_synonym 'w clock = "'w \<Rightarrow> i64 \<times> 'w"

definition new_feed :: "'w \<Rightarrow> tick ring \<Rightarrow> 'w feed" where
  "new_feed w r = \<lparr>fd_world = w, fd_ring = r, fd_clock = new_clock_sync (lit (5 / 100)), low_streak = (\<lambda>_. 0),
     last_received = (\<lambda>_. 0), fault_of = (\<lambda>_. NOMINAL), funding_rate = Fin 0, mark_price = Fin 0, fd_running = False\<rparr>"

definition fd_stop :: "'w feed \<Rightarrow> 'w feed" where
  "fd_stop s = s\<lparr>fd_running := False\<rparr>"

definition clock_offset_us :: "source \<Rightarrow> 'w feed \<Rightarrow> i64" where
  "clock_offset_us src s = cs_offset_us src (fd_clock s)"

definition both_cex_dead :: "'w feed \<Rightarrow> bool" where
  "both_cex_dead s \<longleftrightarrow> fault_of s BINANCE = EMERGENCY_FLATTEN \<and> fault_of s COINBASE = EMERGENCY_FLATTEN"

definition now_us :: "'w clock \<Rightarrow> ('w feed, i64) prog" where
  "now_us C = (\<lambda>s. case C (fd_world s) of (t, w) \<Rightarrow> (Inr t, s\<lparr>fd_world := w\<rparr>))"

definition record_received :: "'w clock \<Rightarrow> source \<Rightarrow> ('w feed, unit) prog" where
  "record_received C src = bind (now_us C) (\<lambda>t. modify (\<lambda>s. s\<lparr>last_received := (last_received s)(src := t)\<rparr>))"

definition count_depth :: "tick \<Rightarrow> 'w feed \<Rightarrow> 'w feed" where
  "count_depth t s =
     (let src = tick_source t
      in if low_depth t
         then let n = low_streak s src + 1; s1 = s\<lparr>low_streak := (low_streak s)(src := n)\<rparr>
              in if n = 30 \<and> fault_of s src = NOMINAL then s1\<lparr>fault_of := (fault_of s)(src := DEGRADED)\<rparr> else s1
         else s\<lparr>low_streak := (low_streak s)(src := 0)\<rparr>)"

definition push_tick :: "tick \<Rightarrow> ('w feed, unit) prog" where
  "push_tick t = modify (\<lambda>s. let s1 = count_depth t s in s1\<lparr>fd_ring := snd (push 4096 t (fd_ring s1))\<rparr>)"

subsection \<open>Message dispatch\<close>

definition deliver :: "'w clock \<Rightarrow> source \<Rightarrow> exn + tick option \<Rightarrow> ('w feed, unit) prog" where
  "deliver C src r =
     bind (lift_sum r) (\<lambda>x. case x of None \<Rightarrow> skip | Some t \<Rightarrow> andthen (record_received C src) (push_tick t))"

text \<open>\<open>clock_sync_.update\<close>, then the new offset.\<close>

definition sync_clock :: "source \<Rightarrow> i64 \<Rightarrow> i64 \<Rightarrow> ('w feed, i64) prog" where
  "sync_clock src local_us exchange_us =
     andthen (modify (\<lambda>s. s\<lparr>fd_clock := cs_update src local_us exchange_us (fd_clock s)\<rparr>)) (gets (clock_offset_us src))"

definition has_substr :: "string \<Rightarrow> string \<Rightarrow> bool" where
  "has_substr hay needle \<longleftrightarrow> (\<exists>i \<in> set [0..<length hay + 1]. starts_with needle (drop i hay))"

definition store_funding :: "(f64 \<times> f64) option \<Rightarrow> ('w feed, unit) prog" where
  "store_funding r = (case r of None \<Rightarrow> skip | Some (mp, fr) \<Rightarrow> modify (\<lambda>s. s\<lparr>mark_price := mp, funding_rate := fr\<rparr>))"

definition dispatch_binance_msg :: "'j json_lib \<Rightarrow> 'w clock \<Rightarrow> string \<Rightarrow> i64 \<Rightarrow> ('w feed, unit) prog" where
  "dispatch_binance_msg J C txt local_us =
     (case j_parse J txt of
        Inl _ \<Rightarrow> skip
      | Inr j \<Rightarrow>
          if \<not> j_contains J j ''stream'' \<or> \<not> j_contains J j ''data'' then skip
          else bind (lift_sum (j_get_string J j ''stream'')) (\<lambda>stream.
               bind (lift_sum (j_at J j ''data'')) (\<lambda>data.
               bind (lift_sum (if j_contains J data ''E''
                               then sbind (j_at J data ''E'') (\<lambda>e. sbind (j_int64 J e) (\<lambda>t. Inr (t * 1000)))
                               else Inr 0)) (\<lambda>exchange_us.
               bind (sync_clock BINANCE local_us exchange_us) (\<lambda>offset.
                 if has_substr stream ''depth'' then deliver C BINANCE (parse_binance_depth J data exchange_us offset)
                 else if has_substr stream ''aggTrade'' then deliver C BINANCE (parse_binance_trade J data exchange_us offset)
                 else if has_substr stream ''markPrice''
                 then bind (lift_sum (parse_binance_funding J data)) (\<lambda>r.
                      andthen (store_funding r) (record_received C BINANCE))
                 else skip)))))"

definition dispatch_coinbase_msg :: "'j json_lib \<Rightarrow> 'w clock \<Rightarrow> string \<Rightarrow> i64 \<Rightarrow> ('w feed, unit) prog" where
  "dispatch_coinbase_msg J C txt local_us =
     (case j_parse J txt of
        Inl _ \<Rightarrow> skip
      | Inr j \<Rightarrow>
          if \<not> j_contains J j ''channel'' \<or> j_get_string J j ''channel'' \<noteq> Inr ''ticker'' then skip
          else bind (lift_sum (if j_contains J j ''timestamp''
                               then sbind (j_get_string J j ''timestamp'') (\<lambda>s. Inr (iso8601_to_us s)) else Inr 0)) (\<lambda>env.
               let envelope_us = (if env = 0 then local_us else env)
               in bind (sync_clock COINBASE local_us envelope_us) (\<lambda>offset.
                  deliver C COINBASE (parse_coinbase_ticker J j envelope_us offset))))"

definition dispatch_polymarket_msg :: "'j json_lib \<Rightarrow> 'w clock \<Rightarrow> string \<Rightarrow> i64 \<Rightarrow> ('w feed, unit) prog" where
  "dispatch_polymarket_msg J C txt local_us =
     (case j_parse J txt of
        Inl _ \<Rightarrow> skip
      | Inr j \<Rightarrow>
          if \<not> j_contains J j ''event_type'' then skip
          else bind (lift_sum (j_get_string J j ''event_type'')) (\<lambda>etype.
               let t = (case poly_time J j of Inl _ \<Rightarrow> 0 | Inr t \<Rightarrow> t); exchange_us = (if t = 0 then local_us else t)
               in bind (sync_clock POLYMARKET local_us exchange_us) (\<lambda>offset.
                    if etype = ''book'' then deliver C POLYMARKET (parse_polymarket_book J j offset)
                    else if etype = ''price_change'' then deliver C POLYMARKET (parse_polymarket_price_change J j offset)
                    else skip)))"

definition dispatch_msg :: "'j json_lib \<Rightarrow> 'w clock \<Rightarrow> source \<Rightarrow> string \<Rightarrow> i64 \<Rightarrow> ('w feed, unit) prog" where
  "dispatch_msg J C src =
     (case src of BINANCE \<Rightarrow> dispatch_binance_msg J C | COINBASE \<Rightarrow> dispatch_coinbase_msg J C
      | POLYMARKET \<Rightarrow> dispatch_polymarket_msg J C)"

subsection \<open>Reconnecting\<close>

definition next_delay :: "nat \<Rightarrow> nat" where
  "next_delay attempt = min (100 * 2 ^ min attempt 8) 30000"

text \<open>
  The three connections run the same loops, which take the source. The read loop of one connection
  on the messages it delivers before it fails. An exception of a
  dispatch ends it as a failed read does; a throw in a \<open>noexcept\<close> function ends the process.
\<close>

fun read_loop :: "'j json_lib \<Rightarrow> 'w clock \<Rightarrow> source \<Rightarrow> string list \<Rightarrow> ('w feed, unit) prog" where
  "read_loop J C src [] = skip"
| "read_loop J C src (txt # rest) =
     bind (gets fd_running) (\<lambda>run. if \<not> run then skip else
     bind (now_us C) (\<lambda>local_us. \<lambda>s.
       case dispatch_msg J C src txt local_us s of
         (Inl (Terminated m), s') \<Rightarrow> (Inl (Terminated m), s')
       | (Inl _, s') \<Rightarrow> (Inr (), s')
       | (Inr _, s') \<Rightarrow> read_loop J C src rest s'))"

text \<open>
  One round of the connection loop: \<open>None\<close> is a connection that could not be made. The result is the
  delay waited and the attempt counter of the next round.
\<close>

definition connection_round ::
  "'j json_lib \<Rightarrow> 'w clock \<Rightarrow> source \<Rightarrow> string list option \<Rightarrow> nat \<Rightarrow> ('w feed, nat \<times> nat) prog" where
  "connection_round J C src conn attempt =
     (case conn of
        None \<Rightarrow> ret (next_delay attempt, attempt + 1)
      | Some msgs \<Rightarrow> andthen (read_loop J C src msgs) (ret (next_delay 0, 1)))"

fun connection_loop ::
  "'j json_lib \<Rightarrow> 'w clock \<Rightarrow> source \<Rightarrow> string list option list \<Rightarrow> nat \<Rightarrow> ('w feed, nat list) prog" where
  "connection_loop J C src [] attempt = ret []"
| "connection_loop J C src (c # cs) attempt =
     bind (gets fd_running) (\<lambda>run. if \<not> run then ret [] else
     bind (connection_round J C src c attempt) (\<lambda>(d, attempt').
     bind (connection_loop J C src cs attempt') (\<lambda>ds. ret (d # ds))))"

subsection \<open>Fault levels\<close>

definition fault_tier :: "f64 \<Rightarrow> feed_fault_level" where
  "fault_tier gap_s =
     (if fle gap_s FEED_DEGRADED_THRESHOLD_S then NOMINAL
      else if fle gap_s FEED_FALLBACK_THRESHOLD_S then DEGRADED
      else if fle gap_s (fmul (f64_of_int FEED_FLATTEN_SLICE_COUNT) FEED_FLATTEN_SLICE_INTERVAL_S) then REST_FALLBACK
      else EMERGENCY_FLATTEN)"

definition gap_seconds :: "i64 \<Rightarrow> i64 \<Rightarrow> f64" where
  "gap_seconds now heard = fdiv (f64_of_int (sint (now - heard))) (lit 1000000)"

definition monitor_source :: "i64 \<Rightarrow> source \<Rightarrow> 'w feed \<Rightarrow> 'w feed" where
  "monitor_source now src s =
     (let heard = last_received s src
      in if heard = 0 then s
         else let level = fault_tier (gap_seconds now heard)
              in if level \<noteq> fault_of s src then s\<lparr>fault_of := (fault_of s)(src := level)\<rparr> else s)"

definition monitor_turn :: "'w clock \<Rightarrow> ('w feed, unit) prog" where
  "monitor_turn C =
     bind (gets fd_running) (\<lambda>run. if \<not> run then skip else
     bind (now_us C) (\<lambda>now. modify (\<lambda>s. fold (monitor_source now) [BINANCE, COINBASE, POLYMARKET] s)))"

end
