(* ===== verification/Feed_Safety.thy ===== *)
theory Feed_Safety
  imports Feed_Manager
begin

text \<open>
  Properties of the feed manager: what a connection may do to the ring and to the state of the other
  sources, the fault levels as a function of the silence of a source, the depth fault and how the
  monitor undoes it, and the reconnect delays.
\<close>

subsection \<open>A connection and its source\<close>

definition feed_trace :: "source \<Rightarrow> 'w feed \<Rightarrow> 'w feed \<Rightarrow> bool" where
  "feed_trace src s s' \<longleftrightarrow>
     (ring_inv 4096 (fd_ring s) \<longrightarrow> ring_inv 4096 (fd_ring s') \<and>
        (\<exists>ts. contents 4096 (fd_ring s') = contents 4096 (fd_ring s) @ ts \<and> (\<forall>t \<in> set ts. tick_source t = src)))
     \<and> (\<forall>other. other \<noteq> src \<longrightarrow> fault_of s' other = fault_of s other \<and> last_received s' other = last_received s other
          \<and> low_streak s' other = low_streak s other \<and> clock_offset_us other s' = clock_offset_us other s)
     \<and> fd_running s' = fd_running s"

lemma feed_trace_trans: "feed_trace src s t \<Longrightarrow> feed_trace src t u \<Longrightarrow> feed_trace src s u"
  unfolding feed_trace_def by (auto; metis Un_iff append.assoc set_append)

interpretation lane: step_relation "feed_trace src" for src
  by unfold_locales (auto simp: feed_trace_def intro: feed_trace_trans)

named_theorems lane_rules "programs that stay with their source"

lemmas [lane_rules] = lane.follows_rules

lemma lane_now [lane_rules]: "follows (feed_trace src) (now_us C)"
  by (auto simp: follows_def now_us_def feed_trace_def clock_offset_us_def split: prod.splits)

lemma lane_record [lane_rules]: "follows (feed_trace src) (record_received C src)"
  unfolding record_received_def
  by (intro lane_rules) (auto simp: follows_def modify_def feed_trace_def clock_offset_us_def)

lemma lane_sync [lane_rules]: "follows (feed_trace src) (sync_clock src a b)"
  unfolding sync_clock_def
  by (intro lane_rules) (auto simp: follows_def modify_def feed_trace_def clock_offset_us_def cs_reset_update_other)

lemma lane_funding [lane_rules]: "follows (feed_trace src) (store_funding r)"
  by (auto simp: store_funding_def follows_def prog_defs feed_trace_def clock_offset_us_def split: option.splits)

lemma count_depth_frame:
  "fd_ring (count_depth t s) = fd_ring s" "fd_clock (count_depth t s) = fd_clock s"
  "last_received (count_depth t s) = last_received s" "fd_running (count_depth t s) = fd_running s"
  "other \<noteq> tick_source t \<Longrightarrow> fault_of (count_depth t s) other = fault_of s other"
  "other \<noteq> tick_source t \<Longrightarrow> low_streak (count_depth t s) other = low_streak s other"
  by (auto simp: count_depth_def Let_def)

lemma ring_push:
  assumes "ring_inv 4096 r"
  shows "ring_inv 4096 (snd (push 4096 t r))
    \<and> (contents 4096 (snd (push 4096 t r)) = contents 4096 r @ [t] \<or> contents 4096 (snd (push 4096 t r)) = contents 4096 r)"
  using tick_ring.inv_enq [OF assms, of t] tick_ring.enq_room [OF assms, of t] tick_ring.enq_full [OF assms, of t]
    tick_ring.bounded [OF assms] by (cases "length (contents 4096 r) < 4096") auto

lemma lane_push: "tick_source t = src \<Longrightarrow> follows (feed_trace src) (push_tick t)"
  using ring_push by (fastforce simp: follows_def push_tick_def modify_def Let_def feed_trace_def count_depth_frame
      clock_offset_us_def intro: exI [of _ "[]"] exI [of _ "[t]"])

definition from_source :: "source \<Rightarrow> exn + tick option \<Rightarrow> bool" where
  "from_source src r \<longleftrightarrow> (\<forall>t. r = Inr (Some t) \<longrightarrow> tick_source t = src)"

lemma lane_deliver:
  assumes "from_source src r"
  shows "follows (feed_trace src) (deliver C src r)"
proof (cases r)
  case (Inl e)
  then show ?thesis by (auto simp: deliver_def lift_sum_def bind_def intro!: followsI lane.R_refl)
next
  case (Inr x)
  have "deliver C src r = (case x of None \<Rightarrow> skip | Some t \<Rightarrow> andthen (record_received C src) (push_tick t))"
    by (simp add: deliver_def Inr lift_sum_def bind_def)
  moreover have "follows (feed_trace src) \<dots>"
    using assms Inr by (cases x) (auto simp: from_source_def intro: lane_rules lane_push)
  ultimately show ?thesis by simp
qed

lemma from_source_simps [simp]: "from_source src (Inl e)" "from_source src (Inr None)"
  "from_source src (Inr (Some t)) \<longleftrightarrow> tick_source t = src"
  by (simp_all add: from_source_def)

lemma from_source_bind: "(\<And>x. from_source src (f x)) \<Longrightarrow> from_source src (sbind r f)"
  by (cases r) simp_all

lemma from_source_if [simp]: "from_source src (if c then a else b) \<longleftrightarrow> (if c then from_source src a else from_source src b)"
  by simp

lemma binance_source:
  "from_source BINANCE (parse_binance_depth J d t off)" "from_source BINANCE (parse_binance_trade J d t off)"
  unfolding parse_binance_depth_def parse_binance_trade_def Let_def
  by (simp_all add: from_source_bind)

lemma polymarket_source:
  "from_source POLYMARKET (parse_polymarket_book J j off)" "from_source POLYMARKET (parse_polymarket_price_change J j off)"
  unfolding parse_polymarket_book_def parse_polymarket_price_change_def Let_def
  by (auto simp: from_source_bind intro!: from_source_bind split: prod.splits)

lemma ticker_tick_source: "coinbase_ticker_tick J ts t = Inr tk \<Longrightarrow> tick_source tk = COINBASE"
  by (auto simp: coinbase_ticker_tick_def Let_def elim!: sbind_InrE)

lemma find_ticker_source: "from_source COINBASE (find_ticker J ts l)"
proof (induction l)
  case (Cons t l)
  have "from_source COINBASE (sbind (coinbase_ticker_tick J ts t) (\<lambda>tk. Inr (Some tk)))"
    by (auto simp: from_source_def elim!: sbind_InrE dest: ticker_tick_source)
  then show ?case using Cons.IH by (auto intro!: from_source_bind [where r = "j_get_string J t ''product_id''"])
qed simp

lemma find_event_source: "from_source COINBASE (find_event J ts l)"
proof (induction l)
  case (Cons ev l)
  have "from_source COINBASE (sbind (find_ticker J ts xs) (\<lambda>r. case r of None \<Rightarrow> find_event J ts l | Some tk \<Rightarrow> Inr (Some tk)))" for xs
    using find_ticker_source [of J ts xs] Cons.IH by (cases "find_ticker J ts xs") (auto split: option.splits)
  then show ?case using Cons.IH
    by (auto intro!: from_source_bind [where r = "j_at J ev ''tickers''"])
qed simp

lemma coinbase_source: "from_source COINBASE (parse_coinbase_ticker J j t off)"
  by (auto simp: parse_coinbase_ticker_def find_event_source intro!: from_source_bind)

lemma lane_binance: "follows (feed_trace BINANCE) (dispatch_binance_msg J C msg t)"
  unfolding dispatch_binance_msg_def by (intro lane_rules lane_deliver binance_source)

lemma lane_coinbase: "follows (feed_trace COINBASE) (dispatch_coinbase_msg J C msg t)"
  unfolding dispatch_coinbase_msg_def by (intro lane_rules lane_deliver coinbase_source)

lemma lane_polymarket: "follows (feed_trace POLYMARKET) (dispatch_polymarket_msg J C msg t)"
  unfolding dispatch_polymarket_msg_def by (intro lane_rules lane_deliver polymarket_source)

lemma lane_dispatch: "follows (feed_trace src) (dispatch_msg J C src msg t)"
  by (cases src) (simp_all add: dispatch_msg_def lane_binance lane_coinbase lane_polymarket)

lemma lane_read_loop: "follows (feed_trace src) (read_loop J C src msgs)"
proof (induction msgs)
  case (Cons msg msgs)
  have "follows (feed_trace src) (\<lambda>s. case dispatch_msg J C src msg t s of
         (Inl (Terminated m), s') \<Rightarrow> (Inl (Terminated m), s')
       | (Inl _, s') \<Rightarrow> (Inr (), s')
       | (Inr _, s') \<Rightarrow> read_loop J C src msgs s')" for t
  proof (rule followsI)
    fix s
    obtain r s' where d: "dispatch_msg J C src msg t s = (r, s')" by fastforce
    have 1: "feed_trace src s s'" by (rule followsD [OF lane_dispatch d])
    have 2: "feed_trace src s' (snd (read_loop J C src msgs s'))" using Cons.IH by (simp add: follows_def)
    show "feed_trace src s (snd (case dispatch_msg J C src msg t s of
         (Inl (Terminated m), s') \<Rightarrow> (Inl (Terminated m), s')
       | (Inl _, s') \<Rightarrow> (Inr (), s')
       | (Inr _, s') \<Rightarrow> read_loop J C src msgs s'))"
      using 1 feed_trace_trans [OF 1 2] by (auto simp: d split: sum.splits exn.splits)
  qed
  then show ?case unfolding read_loop.simps by (intro lane_rules)
qed (auto intro: lane_rules)

lemma lane_connection_loop: "follows (feed_trace src) (connection_loop J C src conns attempt)"
proof (induction conns arbitrary: attempt)
  case (Cons c conns)
  have "follows (feed_trace src) (connection_round J C src c attempt)"
    unfolding connection_round_def by (intro lane_rules lane_read_loop)
  then show ?case using Cons.IH unfolding connection_loop.simps by (intro lane_rules)
qed (auto intro: lane_rules)

text \<open>
  Isolation of the feeds. Whatever one connection delivers over any number of reconnects,
  malformed messages and exceptions included, the ring only grows at its end, by ticks of the
  connection's own source, and the fault level, last arrival, depth streak and clock offset of the
  other sources are untouched.
\<close>

theorem connection_keeps_its_lane:
  assumes "ring_inv 4096 (fd_ring s)" and "connection_loop J C src conns attempt s = (r, s')"
  shows "ring_inv 4096 (fd_ring s')
    \<and> (\<exists>ts. contents 4096 (fd_ring s') = contents 4096 (fd_ring s) @ ts \<and> list_all (\<lambda>t. tick_source t = src) ts)
    \<and> (other = src \<or> fault_of s' other = fault_of s other \<and> last_received s' other = last_received s other
         \<and> low_streak s' other = low_streak s other \<and> clock_offset_us other s' = clock_offset_us other s)"
  using followsD [OF lane_connection_loop assms(2)] assms(1) by (auto simp: feed_trace_def list_all_iff)

definition feed_json :: "jv json_lib" where
  "feed_json = table_json [(''t'', JObj [(''stream'', JStr ''btcusdc@aggTrade''), (''data'', JObj [(''p'', JStr ''7'')])])]"

definition running_feed :: "i64 feed" where
  "running_feed = (new_feed 5 (new_ring 4096 \<lparr>timestamp_us = 0, tick_source = BINANCE, best_bid = Fin 0, best_ask = Fin 0,
     mid = Fin 0, ob_imbalance = Fin 0, last_trade = Fin 0, low_depth = False\<rparr>))\<lparr>fd_running := True\<rparr>"

definition counting_clock :: "i64 clock" where
  "counting_clock t = (t, t + 1)"

theorem connection_keeps_its_lane_witness:
  "\<exists>r s'. connection_loop feed_json counting_clock BINANCE [None, Some [''t'', ''junk'']] 0 running_feed = (r, s')
     \<and> ring_inv 4096 (fd_ring s') \<and> fault_of s' COINBASE = NOMINAL"
proof -
  obtain r s' where r: "connection_loop feed_json counting_clock BINANCE [None, Some [''t'', ''junk'']] 0 running_feed = (r, s')"
    by fastforce
  have i: "ring_inv 4096 (fd_ring running_feed)" by (simp add: running_feed_def new_feed_def ring_inv_def new_ring_def)
  from connection_keeps_its_lane [OF i r, of COINBASE] r show ?thesis
    by (auto simp: running_feed_def new_feed_def)
qed

subsection \<open>Fault levels and silence\<close>

lemma fl_just_above:
  assumes "0 \<le> k" "k \<le> 30"
  shows "fl (of_int k + 1 / 1048576) = Fin (of_int k + 1 / 1048576)"
proof (rule fl_representable)
  have p: "pow2 (- 20) = 1 / 1048576" by (simp add: pow2_def)
  have e: "of_int k + 1 / 1048576 = of_int (k * 1048576 + 1) * pow2 (- 20)" unfolding p by (simp add: add_divide_distrib)
  have b: "\<bar>k * 1048576 + 1\<bar> < 2 ^ 53" using assms by simp
  show "representable (of_int k + 1 / 1048576)" unfolding representable_def
    by (rule exI [of _ "k * 1048576 + 1"], rule exI [of _ "- 20"]) (simp only: e b, simp)
  have "\<bar>of_int k + 1 / 1048576\<bar> \<le> (31 :: rat)" using assms by (simp add: abs_le_iff)
  also have "\<dots> < f64_top" by (simp add: f64_top_def)
  finally show "\<bar>of_int k + 1 / 1048576\<bar> < f64_top" .
qed

lemma fle_seconds:
  assumes "0 \<le> k" "k \<le> 30"
  shows "fle (fl (of_int g / 1000000)) (Fin (of_int k)) \<longleftrightarrow> g \<le> k * 1000000"
proof
  assume *: "fle (fl (of_int g / 1000000)) (Fin (of_int k))"
  show "g \<le> k * 1000000"
  proof (rule ccontr)
    assume "\<not> g \<le> k * 1000000"
    then have "k * 1000000 + 1 \<le> g" by simp
    then have "of_int (k * 1000000 + 1) \<le> (of_int g :: rat)" by (simp only: of_int_le_iff)
    then have "(of_int k * 1000000 + 1) / 1000000 \<le> of_int g / (1000000 :: rat)" by (intro divide_right_mono) simp_all
    moreover have "of_int k + 1 / 1048576 \<le> (of_int k * 1000000 + 1) / (1000000 :: rat)" by (simp add: add_divide_distrib)
    ultimately have "of_int k + 1 / 1048576 \<le> of_int g / (1000000 :: rat)" by (rule order_trans [rotated])
    then have "fle (fl (of_int k + 1 / 1048576)) (fl (of_int g / 1000000))" by (rule fl_mono)
    then have "fle (Fin (of_int k + 1 / 1048576)) (fl (of_int g / 1000000))" by (simp only: fl_just_above [OF assms])
    then have "fle (Fin (of_int k + 1 / 1048576)) (Fin (of_int k))" using * by (rule fle_trans)
    then show False by simp
  qed
next
  have k: "fl (of_int k) = Fin (of_int k)" using assms by (intro fl_of_int) simp
  assume "g \<le> k * 1000000"
  then have "of_int g \<le> (of_int (k * 1000000) :: rat)" by (simp only: of_int_le_iff)
  then have "of_int g / 1000000 \<le> (of_int k :: rat)" by simp
  then have "fle (fl (of_int g / 1000000)) (fl (of_int k))" by (rule fl_mono)
  then show "fle (fl (of_int g / 1000000)) (Fin (of_int k))" by (simp only: k)
qed

definition tier_of_gap :: "int \<Rightarrow> feed_fault_level" where
  "tier_of_gap g = (if g \<le> 2000000 then NOMINAL else if g \<le> 5000000 then DEGRADED
     else if g \<le> 30000000 then REST_FALLBACK else EMERGENCY_FLATTEN)"

lemma fault_tier_gap:
  assumes "\<bar>sint (now - heard)\<bar> \<le> 2 ^ 53"
  shows "fault_tier (gap_seconds now heard) = tier_of_gap (sint (now - heard))"
proof -
  have g: "gap_seconds now heard = fl (of_int (sint (now - heard)) / 1000000)"
    using fl_of_int [OF assms] by (simp add: gap_seconds_def f64_of_int_def lit_def fl_numeral)
  have "FEED_DEGRADED_THRESHOLD_S = Fin (of_int 2)" "FEED_FALLBACK_THRESHOLD_S = Fin (of_int 5)"
    "fmul (f64_of_int FEED_FLATTEN_SLICE_COUNT) FEED_FLATTEN_SLICE_INTERVAL_S = Fin (of_int 30)"
    by (simp_all add: FEED_DEGRADED_THRESHOLD_S_def FEED_FALLBACK_THRESHOLD_S_def FEED_FLATTEN_SLICE_COUNT_def
        FEED_FLATTEN_SLICE_INTERVAL_S_def f64_of_int_def lit_def fl_numeral)
  then show ?thesis
    using fle_seconds [of 2 "sint (now - heard)"] fle_seconds [of 5 "sint (now - heard)"] fle_seconds [of 30 "sint (now - heard)"]
    by (simp add: fault_tier_def tier_of_gap_def g)
qed

lemma tier_of_gap_mono: "g \<le> g' \<Longrightarrow> tier_of_gap g \<le> tier_of_gap g'"
  by (auto simp: tier_of_gap_def less_eq_feed_fault_level_def)

lemma monitor_source_fault:
  "fault_of (monitor_source now src s) x =
     (if x = src \<and> last_received s src \<noteq> 0 then fault_tier (gap_seconds now (last_received s src)) else fault_of s x)"
  "last_received (monitor_source now src s) = last_received s"
  by (auto simp: monitor_source_def Let_def)

lemma monitor_turn_run:
  assumes "fd_running s" and "C (fd_world s) = (now, w)" and "monitor_turn C s = (Inr u, s')"
  shows "fault_of s' src = (if last_received s src \<noteq> 0 then fault_tier (gap_seconds now (last_received s src)) else fault_of s src)"
  using assms by (cases src) (auto simp: monitor_turn_def now_us_def prog_defs monitor_source_fault)

text \<open>
  The fault monitor. A turn of the monitor sets the level of every source that has been heard
  by its silence alone: nominal up to 2 seconds, degraded up to 5, REST fallback up to 30, and
  emergency only beyond 30 seconds. In the order of the levels it never falls as the silence grows.
\<close>

theorem fault_level_by_silence:
  assumes "fd_running s" and "C (fd_world s) = (now, w)" and "last_received s src \<noteq> 0"
    and "\<bar>sint (now - last_received s src)\<bar> \<le> 2 ^ 53" and "monitor_turn C s = (Inr u, s')"
  shows "fault_of s' src = tier_of_gap (sint (now - last_received s src))
    \<and> mono tier_of_gap"
  using monitor_turn_run [OF assms(1,2,5), of src] fault_tier_gap [OF assms(4)] assms(3)
  by (simp add: mono_def tier_of_gap_mono)

definition heard_feed :: "i64 feed" where
  "heard_feed = running_feed\<lparr>fd_world := 6000007, last_received := (\<lambda>_. 7)\<rparr>"

lemma monitor_heard: "\<exists>s'. monitor_turn counting_clock heard_feed = (Inr (), s')"
  by (simp add: monitor_turn_def now_us_def prog_defs heard_feed_def running_feed_def counting_clock_def)

theorem fault_level_by_silence_witness:
  "\<exists>s'. monitor_turn counting_clock heard_feed = (Inr (), s') \<and> fault_of s' COINBASE = REST_FALLBACK"
proof -
  obtain s' where r: "monitor_turn counting_clock heard_feed = (Inr (), s')" using monitor_heard by blast
  have "fd_running heard_feed" "counting_clock (fd_world heard_feed) = (6000007, 6000008)"
    "last_received heard_feed COINBASE \<noteq> 0" "\<bar>sint (6000007 - last_received heard_feed COINBASE)\<bar> \<le> 2 ^ 53"
    by (simp_all add: heard_feed_def running_feed_def counting_clock_def)
  from fault_level_by_silence [OF this r] r show ?thesis by (auto simp: heard_feed_def tier_of_gap_def)
qed

subsection \<open>The depth fault\<close>

definition push_ticks :: "tick list \<Rightarrow> 'w feed \<Rightarrow> 'w feed" where
  "push_ticks ts s = fold (\<lambda>t s. snd (push_tick t s)) ts s"

definition thin_run :: "source \<Rightarrow> tick list \<Rightarrow> bool" where
  "thin_run src ts \<longleftrightarrow> list_all (\<lambda>t. low_depth t \<and> tick_source t = src) ts"

lemma push_tick_thin:
  assumes "low_depth t" "tick_source t = src"
  shows "low_streak (snd (push_tick t s)) src = low_streak s src + 1"
    and "fault_of (snd (push_tick t s)) src =
      (if low_streak s src + 1 = 30 \<and> fault_of s src = NOMINAL then DEGRADED else fault_of s src)"
    and "last_received (snd (push_tick t s)) = last_received s" "fd_running (snd (push_tick t s)) = fd_running s"
    and "fd_world (snd (push_tick t s)) = fd_world s"
  using assms by (auto simp: push_tick_def modify_def count_depth_def Let_def)

lemma push_ticks_thin:
  assumes "thin_run src ts"
  shows "low_streak (push_ticks ts s) src = low_streak s src + of_nat (length ts)
    \<and> last_received (push_ticks ts s) = last_received s \<and> fd_running (push_ticks ts s) = fd_running s
    \<and> fd_world (push_ticks ts s) = fd_world s"
  using assms by (induction ts arbitrary: s) (auto simp: push_ticks_def thin_run_def push_tick_thin)

lemma push_ticks_quiet:
  assumes "thin_run src ts" and "\<forall>i < length ts. low_streak s src + of_nat i + 1 \<noteq> 30"
  shows "fault_of (push_ticks ts s) src = fault_of s src"
  using assms
proof (induction ts arbitrary: s)
  case (Cons t ts)
  have t: "low_depth t" "tick_source t = src" "thin_run src ts" using Cons.prems(1) by (simp_all add: thin_run_def)
  have h: "low_streak s src + 1 \<noteq> 30" using Cons.prems(2) [rule_format, of 0] by simp
  have "\<forall>i < length ts. low_streak (snd (push_tick t s)) src + of_nat i + 1 \<noteq> 30"
  proof (intro allI impI)
    fix i assume "i < length ts"
    then have "low_streak s src + of_nat (Suc i) + 1 \<noteq> 30" using Cons.prems(2) [rule_format, of "Suc i"] by simp
    moreover have "low_streak (snd (push_tick t s)) src + of_nat i + 1 = low_streak s src + of_nat (Suc i) + 1"
      unfolding push_tick_thin [OF t(1,2)] of_nat_Suc by (simp only: ac_simps)
    ultimately show "low_streak (snd (push_tick t s)) src + of_nat i + 1 \<noteq> 30" by simp
  qed
  from Cons.IH [OF t(3) this] show ?case using h by (simp add: push_ticks_def push_tick_thin [OF t(1,2)])
qed (simp add: push_ticks_def)

lemma small_streak: "i < 29 \<Longrightarrow> (of_nat i :: u32) + 1 \<noteq> 30"
proof
  assume i: "i < 29" "(of_nat i :: u32) + 1 = 30"
  then have "(of_nat (Suc i) :: u32) = of_nat 30" by (simp add: add.commute)
  then have "Suc i mod 2 ^ 32 = 30 mod 2 ^ 32" by (simp only: word_of_nat_eq_iff take_bit_eq_mod) simp
  then show False using i(1) by simp
qed

lemma thirty_thin_ticks:
  assumes "thin_run src ts" and "length ts = 30" and "low_streak s src = 0" and "fault_of s src = NOMINAL"
  shows "fault_of (push_ticks ts s) src = DEGRADED"
proof -
  obtain us t where ts: "ts = us @ [t]" and us: "length us = 29"
    using assms(2) by (cases ts rule: rev_cases) auto
  have tr: "thin_run src us" "low_depth t" "tick_source t = src" using assms(1) by (simp_all add: ts thin_run_def)
  have "fault_of (push_ticks us s) src = NOMINAL"
    using push_ticks_quiet [OF tr(1), of s] small_streak us assms(3,4) by simp
  moreover have "low_streak (push_ticks us s) src = 29" using push_ticks_thin [OF tr(1), of s] us assms(3) by simp
  moreover have "push_ticks ts s = snd (push_tick t (push_ticks us s))" by (simp add: ts push_ticks_def)
  ultimately show ?thesis by (simp add: push_tick_thin [OF tr(2,3)])
qed

lemma later_streak: "i < 4294967266 \<Longrightarrow> (30 :: u32) + of_nat i + 1 \<noteq> 30"
proof
  assume i: "i < 4294967266" "(30 :: u32) + of_nat i + 1 = 30"
  then have "(of_nat (Suc i) :: u32) = of_nat 0" by (simp add: add.assoc add.commute [of "of_nat i"])
  then have "Suc i mod 2 ^ 32 = 0" by (simp only: word_of_nat_eq_iff take_bit_eq_mod) simp
  then show False using i(1) by simp
qed

text \<open>
  C35. The depth fault does not last. Thirty thin books in a row degrade their source, but as long as
  the source is not silent for more than two seconds the next turn of the fault monitor sets it back
  to nominal, and no further thin book degrades it again: the streak counter has passed thirty.
\<close>

theorem depth_fault_is_undone:
  assumes "fd_running s" and "fault_of s src = NOMINAL" and "low_streak s src = 0" and "last_received s src \<noteq> 0"
    and "thin_run src ts" and "length ts = 30" and "thin_run src us" and "length us < 4294967266"
    and "C (fd_world s) = (now, w)" and "0 \<le> sint (now - last_received s src)" "sint (now - last_received s src) \<le> 2000000"
    and "monitor_turn C (push_ticks ts s) = (Inr u, s')"
  shows "fault_of (push_ticks ts s) src = DEGRADED \<and> fault_of s' src = NOMINAL \<and> fault_of (push_ticks us s') src = NOMINAL"
proof -
  note p = push_ticks_thin [OF assms(5), of s]
  have "\<bar>sint (now - last_received s src)\<bar> \<le> 2 ^ 53" using assms(10,11) by simp
  from fault_tier_gap [OF this] have n: "fault_of s' src = NOMINAL"
    using monitor_turn_run [OF _ _ assms(12), of now w src] p assms(1,4,9,11) by (simp add: tier_of_gap_def)
  have "low_streak s' = low_streak (push_ticks ts s)"
    using assms(12) by (auto simp: monitor_turn_def now_us_def prog_defs monitor_source_def Let_def split: if_splits prod.splits)
  then have "low_streak s' src = 30" using p assms(3,6) by simp
  then have "fault_of (push_ticks us s') src = NOMINAL"
    using push_ticks_quiet [OF assms(7), of s'] later_streak assms(8) n by simp
  then show ?thesis using n thirty_thin_ticks [OF assms(5,6,3,2)] by simp
qed

definition thin_tick :: tick where
  "thin_tick = \<lparr>timestamp_us = 0, tick_source = POLYMARKET, best_bid = Fin 0, best_ask = Fin 0, mid = Fin 0,
     ob_imbalance = Fin 0, last_trade = Fin 0, low_depth = True\<rparr>"

theorem depth_fault_is_undone_witness:
  "\<exists>s'. monitor_turn counting_clock (push_ticks (replicate 30 thin_tick) (heard_feed\<lparr>fd_world := 8\<rparr>)) = (Inr (), s')
     \<and> fault_of (push_ticks [thin_tick] s') POLYMARKET = NOMINAL"
proof -
  let ?s = "heard_feed\<lparr>fd_world := 8\<rparr>"
  obtain s' where r: "monitor_turn counting_clock (push_ticks (replicate 30 thin_tick) ?s) = (Inr (), s')"
    by (cases "monitor_turn counting_clock (push_ticks (replicate 30 thin_tick) ?s)")
      (auto simp: monitor_turn_def now_us_def prog_defs split: if_splits prod.splits)
  have 1: "fd_running ?s" "fault_of ?s POLYMARKET = NOMINAL" "low_streak ?s POLYMARKET = 0" "last_received ?s POLYMARKET \<noteq> 0"
    by (simp_all add: heard_feed_def running_feed_def new_feed_def)
  have 2: "thin_run POLYMARKET (replicate 30 thin_tick)" "length (replicate 30 thin_tick) = 30"
    "thin_run POLYMARKET [thin_tick]" "length [thin_tick] < 4294967266"
    by (simp_all add: thin_run_def thin_tick_def list_all_iff)
  have 3: "counting_clock (fd_world ?s) = (8, 9)" "0 \<le> sint (8 - last_received ?s POLYMARKET)"
    "sint (8 - last_received ?s POLYMARKET) \<le> 2000000"
    by (simp_all add: counting_clock_def heard_feed_def)
  from depth_fault_is_undone [OF 1 2 3 r] r show ?thesis by blast
qed

subsection \<open>Reconnect delays\<close>

lemma next_delay_bounds: "100 \<le> next_delay attempt" "next_delay attempt \<le> 25600"
proof -
  have "(2 :: nat) ^ min attempt 8 \<le> 2 ^ 8" by (rule power_increasing) auto
  then show "100 \<le> next_delay attempt" "next_delay attempt \<le> 25600" by (auto simp: next_delay_def)
qed

text \<open>The delays of a run of refused connections double from 100 ms up to 25.6 s, not the 30 s the code announces.\<close>

lemma refused_delays:
  "fd_running s \<Longrightarrow> connection_loop J C src (replicate n None) a s = (Inr (map next_delay [a..<a + n]), s)"
proof (induction n arbitrary: a)
  case (Suc n)
  have "[a..<a + Suc n] = a # [Suc a..<Suc a + n]" by (simp add: upt_rec)
  then show ?case using Suc by (simp add: connection_round_def bind_def gets_def ret_def)
qed (simp add: ret_def)

text \<open>After a session, however it ended, the first delay is 100 ms and the second 200 ms.\<close>

lemma session_resets_delay:
  "connection_round J C src (Some msgs) a s = (Inr (d, a'), s') \<Longrightarrow> d = 100 \<and> a' = 1"
  by (auto simp: connection_round_def next_delay_def elim!: andthen_InrE)

end
