(* ===== verification/Base64.thy ===== *)
theory Base64
  imports Clob_Auth
begin

text \<open>
  The two base64url encoders of the repository, the one over OpenSSL in \<open>src/wallet/clob_auth.cpp\<close> and
  the hand-written one in \<open>src/execution/coinbase_client.cpp\<close>, and the decoder of the former, under the
  documented behaviour of OpenSSL's block functions.
\<close>

text \<open>RFC 4648 base64 with padding, on the groups the hand-written encoder forms.\<close>

definition pads :: "nat \<Rightarrow> nat" where
  "pads n = (3 - n mod 3) mod 3"

definition b64_padded :: "bytes \<Rightarrow> string" where
  "b64_padded bs = b64_groups bs @ replicate (pads (length bs)) (CHR ''='')"

text \<open>
  \<open>EVP_EncodeBlock\<close> writes padded base64; \<open>EVP_DecodeBlock\<close> reads it back with a zero byte for each
  padding character.
\<close>

definition evp_documented :: "'w auth_lib \<Rightarrow> bool" where
  "evp_documented A \<longleftrightarrow>
     (\<forall>bs. evp_encode_block A bs = b64_padded bs
        \<and> evp_decode_block A (b64_padded bs) = Some (bs @ replicate (pads (length bs)) 0))"

subsection \<open>Sextets\<close>

lemma unat_group:
  "unat (push_bit 16 (ucast x) OR push_bit 8 (ucast y) OR ucast z :: u32) = (unat x * 256 + unat y) * 256 + unat z"
  for x y z :: u8
proof -
  have ub: "unat (ucast w :: u32) = unat w" for w :: u8
    using unat_u8_less [of w] by (simp add: unsigned_ucast_eq take_bit_eq_mod del: ucast_id)
  have p: "unat (push_bit 16 (ucast x) :: u32) = push_bit 16 (unat x)" "unat (push_bit 8 (ucast y) :: u32) = push_bit 8 (unat y)"
    using unat_u8_less [of x] unat_u8_less [of y]
    by (simp_all only: unsigned_push_bit_eq ub) (simp_all add: push_bit_eq_mult take_bit_eq_mod)
  have xy: "push_bit 16 (unat x) OR push_bit 8 (unat y) = push_bit 8 (push_bit 8 (unat x) OR unat y)"
    by (simp add: push_bit_or push_bit_push_bit)
  show ?thesis
    using push_or_nat [of "unat y" 8 "unat x"] push_or_nat [of "unat z" 8 "unat x * 2 ^ 8 + unat y"]
      unat_u8_less [of y] unat_u8_less [of z]
    by (simp only: unsigned_or_eq p ub xy or.assoc [symmetric]) simp
qed

lemma unat_group0: "unat (push_bit 16 (ucast x) :: u32) = unat x * 65536" for x :: u8
  using unat_group [of x 0 0] by simp

lemma unat_group1: "unat (push_bit 16 (ucast x) OR push_bit 8 (ucast y) :: u32) = (unat x * 256 + unat y) * 256" for x y :: u8
  using unat_group [of x y 0] by simp

lemma enc6_nth: "enc6 b n = ENC ! (unat b div 2 ^ n mod 64)"
proof -
  have "drop_bit n b AND 0x3F = take_bit 6 (drop_bit n b)" by (simp add: take_bit_eq_mask mask_eq_exp_minus_1)
  then have "unat (drop_bit n b AND 0x3F) = take_bit 6 (drop_bit n (unat b))"
    by (simp only: unsigned_take_bit_eq unat_drop_bit_eq)
  then show ?thesis by (simp add: enc6_def take_bit_eq_mod drop_bit_eq_div)
qed

lemma mod_64_eq: "n = q * 64 + r \<Longrightarrow> r < 64 \<Longrightarrow> n mod 64 = (r :: nat)"
  by simp

lemma sextet_values:
  assumes y: "(y::nat) < 256" and z: "z < 256"
  shows "((x * 256 + y) * 256 + z) div 262144 = x div 4"
    and "((x * 256 + y) * 256 + z) div 4096 mod 64 = x mod 4 * 16 + y div 16"
    and "((x * 256 + y) * 256 + z) div 64 mod 64 = y mod 16 * 4 + z div 64"
    and "((x * 256 + y) * 256 + z) mod 64 = z mod 64"
proof -
  let ?n = "(x * 256 + y) * 256 + z"
  have a: "?n div 256 = x * 256 + y" using z by simp
  have "?n div 262144 = ?n div 256 div 256 div 4" by (simp only: div_mult2_eq [symmetric]) simp
  then show "?n div 262144 = x div 4" using a y by simp
  have "?n div 4096 = ?n div 256 div 16" by (simp only: div_mult2_eq [symmetric]) simp
  also have "\<dots> = x * 16 + y div 16"
    unfolding a using div_mult_self1 [of 16 y "x * 16"] by (simp add: ac_simps)
  also have "\<dots> = x div 4 * 64 + (x mod 4 * 16 + y div 16)"
    using div_mult_mod_eq [of x 4] by linarith
  finally show "?n div 4096 mod 64 = x mod 4 * 16 + y div 16"
    by (rule mod_64_eq) (use y mod_less_divisor [of 4 x] in simp)
  have y4: "y * 4 = y div 16 * 64 + y mod 16 * 4" using div_mult_mod_eq [of y 16] by linarith
  have "?n div 64 = (x * 256 + y) * 4 + z div 64" by simp
  also have "\<dots> = (x * 16 + y div 16) * 64 + (y mod 16 * 4 + z div 64)"
    using y4 by simp
  finally show "?n div 64 mod 64 = y mod 16 * 4 + z div 64"
    by (rule mod_64_eq) (use z mod_less_divisor [of 16 y] in simp)
  have "?n = (x * 1024 + y * 4 + z div 64) * 64 + z mod 64" using div_mult_mod_eq [of z 64] by simp
  then show "?n mod 64 = z mod 64" by (rule mod_64_eq) simp
qed

lemma groups_nth:
  "b64_groups (x # y # z # bs) =
     [ENC ! (unat x div 4), ENC ! (unat x mod 4 * 16 + unat y div 16), ENC ! (unat y mod 16 * 4 + unat z div 64),
      ENC ! (unat z mod 64)] @ b64_groups bs"
  "b64_groups [x, y] = [ENC ! (unat x div 4), ENC ! (unat x mod 4 * 16 + unat y div 16), ENC ! (unat y mod 16 * 4)]"
  "b64_groups [x] = [ENC ! (unat x div 4), ENC ! (unat x mod 4 * 16)]"
proof -
  note s = sextet_values [OF unat_u8_less unat_u8_less]
  have x: "unat x div 4 mod 64 = unat x div 4" using unat_u8_less [of x] by simp
  show "b64_groups (x # y # z # bs) =
     [ENC ! (unat x div 4), ENC ! (unat x mod 4 * 16 + unat y div 16), ENC ! (unat y mod 16 * 4 + unat z div 64),
      ENC ! (unat z mod 64)] @ b64_groups bs"
    using s [of "unat x" y z] x by (simp add: Let_def enc6_nth unat_group)
  show "b64_groups [x, y] = [ENC ! (unat x div 4), ENC ! (unat x mod 4 * 16 + unat y div 16), ENC ! (unat y mod 16 * 4)]"
    using s [of "unat x" y 0] x by (simp add: Let_def enc6_nth unat_group1)
  show "b64_groups [x] = [ENC ! (unat x div 4), ENC ! (unat x mod 4 * 16)]"
    using s [of "unat x" 0 0] x by (simp add: Let_def enc6_nth unat_group0)
qed


declare b64_groups.simps(2-4) [simp del]
declare groups_nth [simp]

lemma sextet_bounds [simp]:
  "unat x div 4 < 64" "unat x mod 4 * 16 < 64" "unat x mod 4 * 16 + unat y div 16 < 64" "unat y mod 16 * 4 < 64"
  "unat y mod 16 * 4 + unat z div 64 < 64" for x y z :: u8
  using unat_u8_less [of x] unat_u8_less [of y] unat_u8_less [of z] mod_less_divisor [of 4 "unat x"]
    mod_less_divisor [of 16 "unat y"] by simp_all

subsection \<open>The two encoders\<close>

lemma length_b64_groups: "length (b64_groups bs) mod 4 = (4 - pads (length bs)) mod 4 \<and> pads (length bs) < 3"
proof (induction bs rule: b64_groups.induct)
  case (4 x y z bs)
  have "pads (Suc (Suc (Suc (length bs)))) = pads (length bs)" by (simp add: pads_def)
  then show ?case using 4 by (simp add: groups_nth)
qed (simp_all add: pads_def groups_nth)

lemma ENC_chars: "n < 64 \<Longrightarrow> ENC ! n \<noteq> CHR ''='' \<and> std_char (url_char (ENC ! n)) = ENC ! n \<and> url_char (ENC ! n) \<noteq> CHR ''=''"
proof -
  have "\<forall>n \<in> set [0..<64]. ENC ! n \<noteq> CHR ''='' \<and> std_char (url_char (ENC ! n)) = ENC ! n \<and> url_char (ENC ! n) \<noteq> CHR ''=''"
    by code_simp
  then show "n < 64 \<Longrightarrow> ?thesis" by simp
qed

lemma b64_alphabet: "\<forall>c \<in> set (b64_groups bs). \<exists>n < 64. c = ENC ! n"
proof -
  have i: "n < 64 \<Longrightarrow> \<exists>m < 64. ENC ! n = ENC ! m" for n by blast
  have "unat (z :: u8) mod 64 < 64" for z by simp
  then show ?thesis by (induction bs rule: b64_groups.induct) (auto intro!: i)
qed

lemma std_url_groups: "map std_char (map url_char (b64_groups bs)) = b64_groups bs"
  using b64_alphabet [of bs] ENC_chars by (auto intro!: map_idI)

lemma no_pad_groups: "c \<in> set (b64_groups bs) \<Longrightarrow> c \<noteq> CHR ''=''"
  using b64_alphabet [of bs] ENC_chars by metis

lemma no_pad_end: "c \<in> set cs \<Longrightarrow> c \<noteq> CHR ''=''" if "cs = map url_char (b64_groups bs) \<or> cs = b64_groups bs"
  using that b64_alphabet [of bs] ENC_chars by fastforce

lemma drop_pads:
  assumes "\<And>c. c \<in> set cs \<Longrightarrow> c \<noteq> CHR ''=''"
  shows "dropWhile (\<lambda>c. c = CHR ''='') (replicate k (CHR ''='') @ rev cs) = rev cs"
    and "takeWhile (\<lambda>c. c = CHR ''='') (replicate k (CHR ''='') @ rev cs) = replicate k (CHR ''='')"
  using assms by (induction k) (cases "rev cs"; fastforce simp flip: set_rev [of cs])+

lemma strip_pads:
  "rev (dropWhile (\<lambda>c. c = CHR ''='') (rev (map url_char (b64_padded bs)))) = map url_char (b64_groups bs)"
proof -
  have "map url_char (b64_padded bs) = map url_char (b64_groups bs) @ replicate (pads (length bs)) (CHR ''='')"
    by (simp add: b64_padded_def url_char_def)
  moreover have "dropWhile (\<lambda>c. c = CHR ''='') (replicate (pads (length bs)) (CHR ''='') @ rev (map url_char (b64_groups bs)))
      = rev (map url_char (b64_groups bs))"
    by (rule drop_pads(1)) (use no_pad_end in blast)
  ultimately show ?thesis by (simp only: rev_append rev_replicate rev_rev_ident)
qed

lemma encoders_agree: "evp_documented A \<Longrightarrow> b64url_encode A bs = base64url_encode bs"
  unfolding b64url_encode_def base64url_encode_def evp_documented_def using strip_pads [of bs] by simp

lemma pad4_groups: "pad4 (b64_groups bs) = b64_padded bs"
proof -
  have "pads (length bs) < 3" and l: "length (b64_groups bs) mod 4 = (4 - pads (length bs)) mod 4"
    using length_b64_groups by blast+
  then have "pads (length bs) \<in> {0, 1, 2}" by auto
  with l have "(4 - length (b64_groups bs) mod 4) mod 4 = pads (length bs)" by auto
  then show ?thesis by (simp add: pad4_def b64_padded_def)
qed

lemma trailing_pads_padded: "trailing_pads (b64_padded bs) = pads (length bs)"
proof -
  have "\<And>c. c \<in> set (b64_groups bs) \<Longrightarrow> c \<noteq> CHR ''=''" using no_pad_end by blast
  from drop_pads(2) [OF this] show ?thesis
    by (simp only: trailing_pads_def b64_padded_def rev_append rev_replicate length_replicate)
qed

text \<open>
  C38. base64url. Where OpenSSL's block functions behave as documented, the encoder of the CLOB
  session and the hand-written one of the Coinbase client give the same text for every message, and
  the decoder of the session reads that text back.
\<close>

theorem base64url_round_trip:
  assumes "evp_documented A"
  shows "b64url_encode A bs = base64url_encode bs \<and> b64url_decode A (base64url_encode bs) = Inr bs"
proof
  show "b64url_encode A bs = base64url_encode bs" by (rule encoders_agree [OF assms])
  have "pad4 (map std_char (base64url_encode bs)) = b64_padded bs"
    by (simp only: base64url_encode_def std_url_groups pad4_groups)
  then show "b64url_decode A (base64url_encode bs) = Inr bs"
    using assms by (simp add: b64url_decode_def evp_documented_def trailing_pads_padded Let_def)
qed

subsection \<open>A concrete block decoder\<close>

definition sextet_of :: "char \<Rightarrow> nat" where
  "sextet_of c = length (takeWhile (\<lambda>d. d \<noteq> c) ENC) mod 64"

fun decode_groups :: "string \<Rightarrow> bytes" where
  "decode_groups (a # b # c # d # s) =
     [of_nat (sextet_of a * 4 + sextet_of b div 16), of_nat (sextet_of b mod 16 * 16 + sextet_of c div 4),
      of_nat (sextet_of c mod 4 * 64 + sextet_of d)] @ decode_groups s"
| "decode_groups _ = []"

definition block_lib :: "unit auth_lib" where
  "block_lib =
     \<lparr>au_system_ns = Pair 0, au_http_post = (\<lambda>_ _ _. Pair (Inr (500, []))), au_http_get = (\<lambda>_ _. Pair (Inr (500, []))),
      evp_encode_block = b64_padded, evp_decode_block = (\<lambda>s. Some (decode_groups s)), hmac_lib = (\<lambda>_ _. None)\<rparr>"

lemma sextet_of_ENC: "n < 64 \<Longrightarrow> sextet_of (ENC ! n) = n"
proof -
  have "\<forall>n \<in> set [0..<64]. sextet_of (ENC ! n) = n" by code_simp
  then show "n < 64 \<Longrightarrow> ?thesis" by simp
qed

lemma sextet_of_pad: "sextet_of (CHR ''='') = 0"
  by code_simp

lemma decode_padded: "decode_groups (b64_padded bs) = bs @ replicate (pads (length bs)) 0"
proof (induction bs rule: b64_groups.induct)
  case (2 x)
  have b: "unat x div 4 < 64" "unat x mod 4 * 16 < 64" using unat_u8_less [of x] mod_less_divisor [of 4 "unat x"] by simp_all
  have "(unat x div 4) * 4 + (unat x mod 4 * 16) div 16 = unat x" using div_mult_mod_eq [of "unat x" 4] by simp
  then show ?case
    by (simp add: b64_padded_def groups_nth pads_def sextet_of_ENC b sextet_of_pad numeral_2_eq_2)
next
  case (3 x y)
  have b: "unat x div 4 < 64" "unat x mod 4 * 16 + unat y div 16 < 64" "unat y mod 16 * 4 < 64"
    using unat_u8_less [of x] unat_u8_less [of y] mod_less_divisor [of 4 "unat x"] mod_less_divisor [of 16 "unat y"] by simp_all
  have e: "(unat x div 4) * 4 + (unat x mod 4 * 16 + unat y div 16) div 16 = unat x"
    "(unat x mod 4 * 16 + unat y div 16) mod 16 * 16 + (unat y mod 16 * 4) div 4 = unat y"
    using div_mult_mod_eq [of "unat x" 4] div_mult_mod_eq [of "unat y" 16] unat_u8_less [of y] by simp_all
  show ?case using e
    by (simp add: b64_padded_def groups_nth pads_def sextet_of_ENC b sextet_of_pad)
next
  case (4 x y z bs)
  have b: "unat x div 4 < 64" "unat x mod 4 * 16 + unat y div 16 < 64" "unat y mod 16 * 4 + unat z div 64 < 64" "unat z mod 64 < 64"
    using unat_u8_less [of x] unat_u8_less [of y] unat_u8_less [of z] mod_less_divisor [of 4 "unat x"]
      mod_less_divisor [of 16 "unat y"] by simp_all
  have e: "(unat x div 4) * 4 + (unat x mod 4 * 16 + unat y div 16) div 16 = unat x"
    "(unat x mod 4 * 16 + unat y div 16) mod 16 * 16 + (unat y mod 16 * 4 + unat z div 64) div 4 = unat y"
    "(unat y mod 16 * 4 + unat z div 64) mod 4 * 64 + unat z mod 64 = unat z"
    using div_mult_mod_eq [of "unat x" 4] div_mult_mod_eq [of "unat y" 16] div_mult_mod_eq [of "unat z" 64]
      unat_u8_less [of y] unat_u8_less [of z] by simp_all
  have e': "of_nat ((unat x div 4) * 4 + (unat x mod 4 * 16 + unat y div 16) div 16) = x"
    "of_nat ((unat x mod 4 * 16 + unat y div 16) mod 16 * 16 + (unat y mod 16 * 4 + unat z div 64) div 4) = y"
    "of_nat ((unat y mod 16 * 4 + unat z div 64) mod 4 * 64 + unat z mod 64) = z"
    unfolding e by simp_all
  have m: "unat z mod 64 < 64" by simp
  have p: "pads (length (x # y # z # bs)) = pads (length bs)" by (simp add: pads_def)
  have "decode_groups (b64_padded (x # y # z # bs)) = [x, y, z] @ decode_groups (b64_padded bs)"
    unfolding b64_padded_def p by (simp only: groups_nth append_Cons append_Nil decode_groups.simps sextet_of_ENC sextet_bounds m e' append_assoc)
  then show ?case using 4 p by simp
qed (simp add: b64_padded_def pads_def)

lemma documented_block_lib: "evp_documented block_lib"
  by (simp add: evp_documented_def block_lib_def decode_padded)

theorem base64url_round_trip_witness:
  "evp_documented block_lib \<and> b64url_encode block_lib [0xfb, 0xff] = ''-_8'' \<and> b64url_decode block_lib ''-_8'' = Inr [0xfb, 0xff]"
proof -
  have "base64url_encode [0xfb, 0xff] = ''-_8''" by code_simp
  then show ?thesis
    using base64url_round_trip [OF documented_block_lib, of "[0xfb, 0xff]"] documented_block_lib by simp
qed

end
