(* ===== verification/Order_Shape.thy ===== *)
theory Order_Shape
  imports Nonce_Order Http_Venue
begin

text \<open>
  The shape of the orders a machine submits, as a second step relation that the machine follows on
  every path: each order has the field sizes of the EIP-712 struct, the bot's wallet as maker and
  signer, the market's own token, and one of the two sides.
\<close>

definition market_order :: "address \<Rightarrow> string \<Rightarrow> order \<Rightarrow> bool" where
  "market_order wallet token r \<longleftrightarrow>
     wf_order r \<and> maker r = wallet \<and> signer r = wallet \<and> taker r = replicate 20 0
     \<and> parse_token_id token = Inr (tokenId r) \<and> side r \<in> {0, 1} \<and> signatureType r = 0"

definition submitted_orders :: "event list \<Rightarrow> order list" where
  "submitted_orders cs = concat (map (\<lambda>e. case e of Submit r t x \<Rightarrow> [r] | _ \<Rightarrow> []) cs)"

lemma submitted_orders_simps [simp]:
  "submitted_orders [] = []"
  "submitted_orders (xs @ ys) = submitted_orders xs @ submitted_orders ys"
  "submitted_orders (Submit r t x # cs) = r # submitted_orders cs"
  "submitted_orders (Cancel i z # cs) = submitted_orders cs"
  "submitted_orders (Poll i y # cs) = submitted_orders cs"
  "submitted_orders (Hedge sd q p h # cs) = submitted_orders cs"
  "submitted_orders (HedgeCancel i b # cs) = submitted_orders cs"
  by (simp_all add: submitted_orders_def)

definition order_trace :: "address \<Rightarrow> string \<Rightarrow> ('w, 'z) env_scheme \<Rightarrow> ('w, 'z) env_scheme \<Rightarrow> bool" where
  "order_trace wallet token s s' \<longleftrightarrow>
     (\<exists>cs. calls s' = calls s @ cs \<and> (\<forall>r \<in> set (submitted_orders cs). market_order wallet token r))"

lemma order_traceI:
  "calls s' = calls s @ cs \<Longrightarrow> \<forall>r \<in> set (submitted_orders cs). market_order wallet token r \<Longrightarrow> order_trace wallet token s s'"
  unfolding order_trace_def by blast

lemma order_trace_same: "calls s' = calls s \<Longrightarrow> order_trace wallet token s s'"
  by (rule order_traceI [where cs = "[]"]) simp_all

lemma order_trace_trans:
  assumes "order_trace wallet token s t" and "order_trace wallet token t u"
  shows "order_trace wallet token s u"
proof -
  from assms obtain cs ds where "calls t = calls s @ cs" "calls u = calls t @ ds"
    "\<forall>r \<in> set (submitted_orders cs). market_order wallet token r"
    "\<forall>r \<in> set (submitted_orders ds). market_order wallet token r"
    unfolding order_trace_def by blast
  then show ?thesis by (intro order_traceI [where cs = "cs @ ds"]) auto
qed

interpretation orders: step_relation "order_trace wallet token"
  by unfold_locales (auto intro: order_trace_same order_trace_trans)

named_theorems shape_rules "programs that submit orders of the market only"

lemmas [shape_rules] = orders.osm_rules

lemma shape_observe: "follows (order_trace a t) (observe f)" "follows (order_trace a t) (attempt g)"
  by (auto simp: follows_def observe_def attempt_def split: prod.splits intro!: order_trace_same)

lemma shape_clocks [shape_rules]:
  "follows (order_trace a t) (system_seconds V)" "follows (order_trace a t) (system_micros V)"
  "follows (order_trace a t) (steady_now V)"
  unfolding system_seconds_def system_micros_def steady_now_def by (intro shape_rules shape_observe)+

lemma shape_other_calls [shape_rules]:
  "follows (order_trace a t) (clob_cancel V i)" "follows (order_trace a t) (clob_status V i)"
  "follows (order_trace a t) (hedge_submit V sd q p)" "follows (order_trace a t) (hedge_cancel V i)"
  unfolding clob_cancel_def clob_status_def hedge_submit_def hedge_cancel_def
  by (auto simp: follows_def call_def call_noexcept_def split: prod.splits intro!: order_traceI)

lemma shape_modify: "(\<And>s. calls (g s) = calls s) \<Longrightarrow> follows (order_trace a t) (modify g)"
  by (auto simp: follows_def modify_def intro!: order_trace_same)

lemma shape_nonce_next: "follows (order_trace a t) nonce_next"
  by (auto simp: follows_def nonce_next_def intro!: order_trace_same)

lemma shape_submit: "market_order a t r \<Longrightarrow> follows (order_trace a t) (clob_submit V r k)"
  unfolding clob_submit_def
  by (intro orders.follows_bind shape_observe)
    (auto simp: follows_def call_def split: prod.splits intro!: order_traceI)

text \<open>A venue whose salts have 32 bytes and whose wallet has 20.\<close>

definition sized :: "'w venue \<Rightarrow> bool" where
  "sized V \<longleftrightarrow> length (v_wallet V) = 20 \<and> (\<forall>w sl w'. v_salt V w = (Inr sl, w') \<longrightarrow> length sl = 32)"

lemma sized_salt: "sized V \<Longrightarrow> attempt (v_salt V) s = (Inr sl, s') \<Longrightarrow> length sl = 32"
  by (auto simp: sized_def attempt_def split: prod.splits)

lemma parse_token_length: "parse_token_id t = Inr v \<Longrightarrow> length v = 32"
  unfolding parse_token_id_iff by auto

lemma built_order:
  assumes "sized V" and "build_order V token m k ex fee sd s = (Inr r, s')" and "sd \<in> {0, 1}"
  shows "market_order (v_wallet V) token r"
proof -
  from assms(2) obtain sl s1 s2 tid where
    "attempt (v_salt V) s = (Inr sl, s1)" "lift_sum (parse_token_id token) s1 = (Inr tid, s2)" "salt r = sl" "tokenId r = tid"
    by (auto simp: build_order_def elim!: bind_InrE)
  moreover from this have "parse_token_id token = Inr tid" by (simp add: lift_sum_def)
  ultimately show ?thesis
    using sized_salt [OF assms(1)] build_order_run [OF assms(2)] assms(1,3) parse_token_length
    by (auto simp: market_order_def wf_order_def sized_def)
qed

lemma shape_build [shape_rules]:
  fixes V :: "'w venue" and g :: "order \<Rightarrow> (('w, 'z) env_scheme, 'x) prog"
  assumes "sized V" and "sd \<in> {0, 1}"
    and g: "\<And>r. market_order (v_wallet V) token r \<Longrightarrow> follows (order_trace (v_wallet V) token) (g r)"
  shows "follows (order_trace (v_wallet V) token) (bind (build_order V token m k ex fee sd) g)"
proof (rule followsI)
  fix s :: "('w, 'z) env_scheme"
  obtain y s1 where b: "build_order V token m k ex fee sd s = (y, s1)" by fastforce
  have f: "follows (order_trace (v_wallet V) token) (build_order V token m k ex fee sd)"
    unfolding build_order_def by (intro shape_rules shape_observe shape_nonce_next)
  have t: "order_trace (v_wallet V) token s s1" using followsD [OF f b] .
  show "order_trace (v_wallet V) token s (snd (bind (build_order V token m k ex fee sd) g s))"
  proof (cases y)
    case (Inr r)
    have "follows (order_trace (v_wallet V) token) (g r)" using g built_order [OF assms(1) _ assms(2)] b Inr by blast
    then have "order_trace (v_wallet V) token s1 (snd (g r s1))" by (simp add: follows_def)
    from order_trace_trans [OF t this] show ?thesis by (simp add: bind_def b Inr)
  qed (use t in \<open>simp add: bind_def b\<close>)
qed

lemma unwind_market_order:
  "market_order a t r \<Longrightarrow> length sl = 32 \<Longrightarrow> market_order a t (unwind_order r sl n now)"
  by (auto simp: market_order_def wf_order_def unwind_order_def)

lemma shape_unwind_poly [shape_rules]:
  fixes V :: "'w venue"
  assumes "sized V" and "market_order (v_wallet V) token r"
  shows "follows (order_trace (v_wallet V) token :: ('w, 'z) env_scheme \<Rightarrow> _) (unwind_poly V r now)"
proof (rule followsI)
  fix s :: "('w, 'z) env_scheme"
  obtain y s1 where b: "attempt (v_salt V) s = (y, s1)" by fastforce
  have t: "order_trace (v_wallet V) token s s1" using followsD [OF shape_observe(2) b] .
  show "order_trace (v_wallet V) token s (snd (unwind_poly V r now s))"
  proof (cases y)
    case (Inr sl)
    have "length sl = 32" using sized_salt [OF assms(1)] b Inr by blast
    then have "follows (order_trace (v_wallet V) token :: ('w, 'z) env_scheme \<Rightarrow> _)
        (bind nonce_next (\<lambda>n. bind (clob_submit V (unwind_order r sl n now) ''FOK'') (\<lambda>_. skip)))"
      by (intro orders.follows_bind shape_nonce_next shape_submit unwind_market_order assms shape_rules)
    then have "order_trace (v_wallet V) token s1
        (snd (bind nonce_next (\<lambda>n. bind (clob_submit V (unwind_order r sl n now) ''FOK'') (\<lambda>_. skip)) s1))"
      by (simp add: follows_def)
    from order_trace_trans [OF t this] show ?thesis by (simp add: unwind_poly_def bind_def [of "attempt _"] b Inr)
  qed (use t in \<open>simp add: unwind_poly_def bind_def [of "attempt _"] b\<close>)
qed

lemma shape_modifies [shape_rules]:
  "follows (order_trace a k) (transition x)" "follows (order_trace a k) (open_position e)"
  "follows (order_trace a k) release_position" "follows (order_trace a k) (modify (last_entry_update f))"
  "follows (order_trace a k) (modify (bid_order_id_update h))" "follows (order_trace a k) (modify (ask_order_id_update h))"
  "follows (order_trace a k) (modify (\<lambda>s. s\<lparr>quoted_fair := v, quoted_mid := p s\<rparr>))"
  "follows (order_trace a k) (modify (quote_time_update f))"
  "follows (order_trace a k) (modify (close_poly_order_id_update h))"
  "follows (order_trace a k) (modify (close_coinbase_order_id_update h))"
  "follows (order_trace a k) (modify (\<lambda>s. s\<lparr>close_poly_order_id := i, close_coinbase_order_id := j\<rparr>))"
  "follows (order_trace a k) (modify (pos_update pf))" "follows (order_trace a k) (modify (flatten_flag_update bf))"
  "follows (order_trace a k) (modify (deadline_flags t))"
  unfolding transition_def open_position_def release_position_def deadline_flags_def
  by (auto intro!: shape_modify)

subsection \<open>The arms and the machine\<close>

lemma shape_settle [shape_rules]:
  "sized V \<Longrightarrow> market_order (v_wallet V) token r \<Longrightarrow>
     follows (order_trace (v_wallet V) token) (settle_legs V up q e r now entry pr cb)"
  unfolding settle_legs_def unwind_hedge_def by (intro shape_rules)

lemma shape_taker [shape_rules]:
  "follows (order_trace a t) (in_cooldown V)"
  "sized V \<Longrightarrow> follows (order_trace (v_wallet V) (tc_token_id cfg)) (fire V cfg b e entry)"
  unfolding in_cooldown_def fire_def fire_legs_def
  by (intro shape_rules shape_submit; simp)+

lemma shape_maker [shape_rules]:
  "follows (order_trace a t) (cancel_all V)"
  "sized V \<Longrightarrow> sd \<in> {0, 1} \<Longrightarrow> follows (order_trace (v_wallet V) (mc_token_id mc)) (submit_side V mc sd p)"
  unfolding cancel_all_def cancel_bid_def cancel_ask_def submit_side_def
  by (intro shape_rules shape_submit; simp)+

lemma shape_quote [shape_rules]:
  "sized V \<Longrightarrow> follows (order_trace (v_wallet V) (mc_token_id mc)) (quote V mc p)"
  "sized V \<Longrightarrow> follows (order_trace (v_wallet V) (mc_token_id mc)) (manage V mc entry)"
  unfolding quote_def manage_def check_fills_def check_fill_def
  by (intro shape_rules; simp)+

lemma shape_close [shape_rules]:
  "sized V \<Longrightarrow> follows (order_trace (v_wallet V) (token_id c)) (close_position V c b)"
  unfolding close_position_def close_poly_leg_def close_hedge_leg_def by (intro shape_rules shape_submit; simp)

lemma cfg_tokens: "tc_token_id (taker_cfg c) = token_id c" "mc_token_id (maker_cfg c) = token_id c"
  by (simp_all add: taker_cfg_def maker_cfg_def)

lemma shape_arms [shape_rules]:
  assumes "sized V"
  shows "follows (order_trace (v_wallet V) (token_id c)) (fire V (taker_cfg c) b e entry)"
    "follows (order_trace (v_wallet V) (token_id c)) (quote V (maker_cfg c) p)"
    "follows (order_trace (v_wallet V) (token_id c)) (manage V (maker_cfg c) entry')"
  using shape_taker(2) [OF assms, of "taker_cfg c"] shape_quote [OF assms, of "maker_cfg c"] by (simp_all add: cfg_tokens)

lemma shape_handlers [shape_rules]:
  assumes "sized V"
  shows "follows (order_trace (v_wallet V) (token_id c)) (handle_idle V c)"
    "follows (order_trace (v_wallet V) (token_id c)) (handle_taker_eval V c)"
    "follows (order_trace (v_wallet V) (token_id c)) (handle_maker_quoted V c)"
    "follows (order_trace (v_wallet V) (token_id c)) (handle_position_open V c)"
    "follows (order_trace (v_wallet V) (token_id c)) (handle_closing V)"
  unfolding handle_idle_def handle_taker_eval_def handle_maker_quoted_def handle_late_fill_def
    handle_position_open_def handle_closing_def
  by (intro shape_rules assms)+

lemma shape_run_iteration [shape_rules]:
  "sized V \<Longrightarrow> follows (order_trace (v_wallet V) (token_id c)) (run_iteration V c)"
  unfolding run_iteration_def evaluate_def dispatch_def time_remaining_s_def by (intro shape_rules)

lemma shape_run_turns: "sized V \<Longrightarrow> follows (order_trace (v_wallet V) (token_id c)) (run_turns V c n)"
  by (induction n) (auto intro: shape_rules)

lemma random_salt_length: "random_salt f g w = (Inr sl, w') \<Longrightarrow> length sl = 32"
  by (auto simp: random_salt_def split: prod.splits if_splits)

lemma sized_http: "length (wallet_address km) = 20 \<Longrightarrow> sized (http_venue B km au)"
  by (auto simp: sized_def http_venue_def dest: random_salt_length)

text \<open>
  C20. What a machine puts its name to. With a key from \<open>load\<close>, every order that any number of
  turns submits over the REST clients (a throw included) has the field sizes that the EIP-712 hash
  expects, the wallet of that key as maker and signer, the zero address as taker, the token id of the
  machine's own market, one of the two sides, and the signature type of an externally owned account.
\<close>

theorem orders_trade_own_market:
  assumes "km_load J L path (new_key_manager w) = (Inr u, km)"
    and "run_turns (http_venue B km au) c n s = (r, s')"
  shows "\<exists>cs. calls s' = calls s @ cs \<and> (\<forall>q \<in> set (submitted_orders cs).
     wf_order q \<and> maker q = wallet_address km \<and> signer q = wallet_address km \<and> taker q = replicate 20 0
     \<and> parse_token_id (token_id c) = Inr (tokenId q) \<and> side q \<in> {0, 1} \<and> signatureType q = 0)"
proof -
  have "length (wallet_address km) = 20" using load_returned [OF assms(1)] by auto
  then have "follows (order_trace (wallet_address km) (token_id c)) (run_turns (http_venue B km au) c n)"
    using shape_run_turns [OF sized_http, of km B au c n] by (simp add: http_venue_def)
  from followsD [OF this assms(2)] show ?thesis by (simp add: order_trace_def market_order_def)
qed

definition key_file_json :: jv where
  "key_file_json = JObj [(''coinbase_key_id'', JStr ''id''), (''coinbase_key_secret'', JStr ''secret''),
     (''private_key'', JStr (bytes_to_hex (replicate 32 1)))]"

lemma silent_load: "\<exists>km. km_load (table_json [([], key_file_json)]) silent_key ''keys.bin'' (new_key_manager ()) = (Inr (), km)"
proof -
  have h: "hex_decode (bytes_to_hex (replicate 32 1)) = Inr (replicate 32 1)"
    by (simp add: hex_decode_def bytes_to_hex_def key_strip_0x_def length_hex_body hex_bytes_body Let_def)
  show ?thesis
    by (simp add: km_load_def decrypt_secrets_def read_blob_def pbkdf2_sha256_def aes256gcm_decrypt_def
        parse_secrets_def extract_secrets_def parse_private_key_def init_secp_def derive_address_def prog_defs km_read_def
        guard_def require_def silent_key_def table_json_def key_file_json_def HEADER_SIZE_def bytes_text_def
        j_get_string_def h)
qed

theorem orders_trade_own_market_witness:
  "\<exists>km r s' cs. run_turns (http_venue silent_libs km open_session) sample_market 3 (new_osm initial_shared) = (r, s')
     \<and> calls s' = calls (new_osm initial_shared) @ cs
     \<and> (\<forall>q \<in> set (submitted_orders cs). wf_order q \<and> maker q = wallet_address km)"
proof -
  obtain km where k: "km_load (table_json [([], key_file_json)]) silent_key ''keys.bin'' (new_key_manager ()) = (Inr (), km)"
    using silent_load by blast
  obtain r s' where r: "run_turns (http_venue silent_libs km open_session) sample_market 3 (new_osm initial_shared) = (r, s')"
    by fastforce
  from orders_trade_own_market [OF k r] r show ?thesis by blast
qed

end
