(* ===== verification/Http_Layer.thy ===== *)
theory Http_Layer
  imports Bot Binance_Client
begin

text \<open>
  The HTTP transport: what each component sets on a libcurl handle and what it reads of the outcome
  (\<open>clob_auth.cpp\<close>, \<open>clob_client.cpp\<close>, \<open>coinbase_client.cpp\<close>, \<open>binance_client.cpp\<close>,
  \<open>market_scanner.cpp\<close>, \<open>rpc_client.cpp\<close>), and the program without a network. libcurl itself is a
  record of two functions over the world: creating a handle, and performing the request that was set.
\<close>

text \<open>
  A request as \<open>curl_easy_setopt\<close> left it. The body is given with its length, the URL and the header
  lines as C strings, which end at the first NUL.
\<close>

record curl_request =
  rq_method :: string
  rq_url :: string
  rq_headers :: "string list"
  rq_body :: string
  rq_timeout_ms :: int
  rq_follow :: bool

text \<open>
  The outcome: the error text of a code other than \<open>CURLE_OK\<close>, what the write callback has appended
  until then, and the response code.
\<close>

record curl_outcome =
  co_error :: "string option"
  co_body :: string
  co_status :: int

record 'w libcurl =
  easy_init :: "'w \<Rightarrow> bool \<times> 'w"
  easy_perform :: "curl_request \<Rightarrow> 'w \<Rightarrow> curl_outcome \<times> 'w"

definition c_str :: "string \<Rightarrow> string" where
  "c_str s = takeWhile (\<lambda>c. c \<noteq> CHR 0x00) s"

definition curl_exchange :: "'w libcurl \<Rightarrow> curl_request \<Rightarrow> 'w \<Rightarrow> curl_outcome option \<times> 'w" where
  "curl_exchange C r w =
     (case easy_init C w of (ok, w1) \<Rightarrow>
        if \<not> ok then (None, w1)
        else case easy_perform C r w1 of (out, w2) \<Rightarrow> (Some out, w2))"

text \<open>
  The lines of a header map, in the order of \<open>std::map\<close>. The maps of the program have no other keys
  than these six, here in that order.
\<close>

definition POLY_KEYS :: "string list" where
  "POLY_KEYS = [''POLY_ADDRESS'', ''POLY_API_KEY'', ''POLY_NONCE'', ''POLY_PASSPHRASE'', ''POLY_SIGNATURE'', ''POLY_TIMESTAMP'']"

definition header_line :: "string \<Rightarrow> string \<Rightarrow> string" where
  "header_line k v = c_str (k @ '': '' @ v)"

definition header_lines :: "headers \<Rightarrow> string list" where
  "header_lines h = concat (map (\<lambda>k. case h k of None \<Rightarrow> [] | Some v \<Rightarrow> [header_line k v]) POLY_KEYS)"

definition JSON_CONTENT :: string where
  "JSON_CONTENT = ''Content-Type: application/json''"

subsection \<open>The session\<close>

definition http_result :: "string \<Rightarrow> curl_outcome option \<times> 'w \<Rightarrow> (exn + int \<times> string) \<times> 'w" where
  "http_result verb = (\<lambda>(x, w). (case x of
       None \<Rightarrow> Inl (Runtime_Error ''clob_auth: curl_easy_init failed'')
     | Some out \<Rightarrow> (case co_error out of
         Some e \<Rightarrow> Inl (Runtime_Error (''clob_auth: HTTP '' @ verb @ '' failed: '' @ e))
       | None \<Rightarrow> Inr (co_status out, co_body out)), w))"

definition auth_http_post :: "'w libcurl \<Rightarrow> string \<Rightarrow> headers \<Rightarrow> string \<Rightarrow> 'w \<Rightarrow> (exn + int \<times> string) \<times> 'w" where
  "auth_http_post C url h body w = http_result ''POST'' (curl_exchange C
     \<lparr>rq_method = ''POST'', rq_url = c_str url, rq_headers = JSON_CONTENT # header_lines h, rq_body = body,
      rq_timeout_ms = 30000, rq_follow = True\<rparr> w)"

definition auth_http_get :: "'w libcurl \<Rightarrow> string \<Rightarrow> headers \<Rightarrow> 'w \<Rightarrow> (exn + int \<times> string) \<times> 'w" where
  "auth_http_get C url h w = http_result ''GET'' (curl_exchange C
     \<lparr>rq_method = ''GET'', rq_url = c_str url, rq_headers = header_lines h, rq_body = [],
      rq_timeout_ms = 30000, rq_follow = True\<rparr> w)"

subsection \<open>The exchange clients\<close>

text \<open>
  These clients read neither the return code nor the status: the answer is what was received, however
  the transfer ended.
\<close>

definition received :: "curl_outcome option \<times> 'w \<Rightarrow> string \<times> 'w" where
  "received = (\<lambda>(x, w). (case x of None \<Rightarrow> [] | Some out \<Rightarrow> co_body out, w))"

definition curl_do :: "'w libcurl \<Rightarrow> 'w curl" where
  "curl_do C url meth body h w = received (curl_exchange C
     \<lparr>rq_method = (if meth = ''POST'' then ''POST'' else if meth = ''DELETE'' then ''DELETE'' else ''GET''),
      rq_url = c_str url,
      rq_headers = header_lines h @ (if body \<noteq> [] \<and> meth \<noteq> ''GET'' then [JSON_CONTENT] else []),
      rq_body = (if meth = ''POST'' \<or> meth = ''DELETE'' then body else []),
      rq_timeout_ms = 10000, rq_follow = False\<rparr> w)"

text \<open>The performing part of a request whose handle exists already.\<close>

definition coinbase_perform :: "'w libcurl \<Rightarrow> string \<Rightarrow> string \<Rightarrow> string list \<Rightarrow> string \<Rightarrow> 'w \<Rightarrow> string \<times> 'w" where
  "coinbase_perform C meth url hs body w =
     (case easy_perform C \<lparr>rq_method = (if meth = ''POST'' then ''POST'' else ''GET''), rq_url = c_str url,
        rq_headers = map c_str hs, rq_body = (if meth = ''POST'' then body else []),
        rq_timeout_ms = 10000, rq_follow = False\<rparr> w of (out, w1) \<Rightarrow> (co_body out, w1))"

definition binance_perform :: "'w libcurl \<Rightarrow> string \<Rightarrow> string \<Rightarrow> string list \<Rightarrow> string \<Rightarrow> 'w \<Rightarrow> string \<times> 'w" where
  "binance_perform C meth url hs body w =
     (case easy_perform C \<lparr>rq_method = meth, rq_url = c_str url, rq_headers = map c_str hs, rq_body = body,
        rq_timeout_ms = 10000, rq_follow = False\<rparr> w of (out, w1) \<Rightarrow> (co_body out, w1))"

subsection \<open>The scanner and the RPC client\<close>

text \<open>These two return the empty text after a failed transfer.\<close>

definition whole_answer :: "curl_outcome option \<times> 'w \<Rightarrow> string \<times> 'w" where
  "whole_answer = (\<lambda>(x, w). (case x of None \<Rightarrow> []
     | Some out \<Rightarrow> if co_error out = None then co_body out else [], w))"

definition scanner_http_get :: "'w libcurl \<Rightarrow> string \<Rightarrow> string \<Rightarrow> 'w \<Rightarrow> string \<times> 'w" where
  "scanner_http_get C base path w = whole_answer (curl_exchange C
     \<lparr>rq_method = ''GET'', rq_url = c_str (base @ path), rq_headers = [''Accept: application/json''], rq_body = [],
      rq_timeout_ms = 10000, rq_follow = False\<rparr> w)"

definition https_post :: "'w libcurl \<Rightarrow> 'w https" where
  "https_post C url body timeout_ms w = whole_answer (curl_exchange C
     \<lparr>rq_method = ''POST'', rq_url = c_str url, rq_headers = [JSON_CONTENT], rq_body = body,
      rq_timeout_ms = timeout_ms, rq_follow = False\<rparr> w)"

subsection \<open>The libraries of the program over one libcurl\<close>

definition net_auth :: "'w libcurl \<Rightarrow> 'w auth_lib \<Rightarrow> 'w auth_lib" where
  "net_auth C A = A\<lparr>au_http_post := auth_http_post C, au_http_get := auth_http_get C\<rparr>"

definition net_coinbase :: "'w libcurl \<Rightarrow> 'w cb_lib \<Rightarrow> 'w cb_lib" where
  "net_coinbase C L = L\<lparr>curl_init := easy_init C, curl_perform := coinbase_perform C\<rparr>"

definition net_binance :: "'w libcurl \<Rightarrow> 'w bn_lib \<Rightarrow> 'w bn_lib" where
  "net_binance C L = L\<lparr>bn_init := easy_init C, bn_perform := binance_perform C\<rparr>"

definition net_libs :: "'w libcurl \<Rightarrow> ('j, 'w, 'k) bot_libs \<Rightarrow> ('j, 'w, 'k) bot_libs" where
  "net_libs C B = B\<lparr>bl_auth := net_auth C (bl_auth B), bl_curl := curl_do C, bl_cb := net_coinbase C (bl_cb B)\<rparr>"

subsection \<open>No header is lost\<close>

lemma header_lines_complete:
  assumes "h k = Some v" and "dom h \<subseteq> set POLY_KEYS"
  shows "header_line k v \<in> set (header_lines h)"
proof -
  have "k \<in> set POLY_KEYS" using assms by blast
  then show ?thesis unfolding header_lines_def using assms(1) by force
qed

lemma level1_keys:
  assumes "level1_headers A L km n w = (Inr h, w')"
  shows "dom h \<subseteq> set POLY_KEYS"
proof -
  obtain ns w1 where "au_system_ns A w = (ns, w1)" by fastforce
  with assms obtain sig where "h = [''POLY_ADDRESS'' \<mapsto> address_to_hex (wallet_address km), ''POLY_SIGNATURE'' \<mapsto> sig,
      ''POLY_TIMESTAMP'' \<mapsto> timestamp_text ns, ''POLY_NONCE'' \<mapsto> show_nat (unat n)]"
    by (auto simp: level1_headers_def Let_def elim!: sbind_InrE)
  then show ?thesis by (simp add: POLY_KEYS_def)
qed

lemma level2_keys:
  assumes "level2_headers A a meth path body w = (Inr h, w')"
  shows "dom h \<subseteq> set POLY_KEYS"
proof -
  obtain c where c: "ca_creds a = Some c" using assms by (auto simp: level2_headers_def split: option.splits)
  obtain ns w1 where "au_system_ns A w = (ns, w1)" by fastforce
  with assms c obtain digest where "h = [''POLY_ADDRESS'' \<mapsto> wallet_hex a, ''POLY_SIGNATURE'' \<mapsto> b64url_encode A digest,
      ''POLY_TIMESTAMP'' \<mapsto> timestamp_text ns, ''POLY_API_KEY'' \<mapsto> api_key c, ''POLY_PASSPHRASE'' \<mapsto> api_passphrase c]"
    by (auto simp: level2_headers_def Let_def elim!: sbind_InrE)
  then show ?thesis by (simp add: POLY_KEYS_def)
qed

subsection \<open>Without a network\<close>

text \<open>Every transfer fails before a byte is received; handles may be created or not.\<close>

definition offline :: "'w libcurl \<Rightarrow> bool" where
  "offline C \<longleftrightarrow> (\<forall>r w. co_error (fst (easy_perform C r w)) \<noteq> None \<and> co_body (fst (easy_perform C r w)) = [])"

lemma offline_exchange:
  assumes "offline C"
  shows "case fst (curl_exchange C r w) of None \<Rightarrow> True | Some out \<Rightarrow> co_error out \<noteq> None \<and> co_body out = []"
proof -
  obtain ok w1 where i: "easy_init C w = (ok, w1)" by fastforce
  obtain out w2 where p: "easy_perform C r w1 = (out, w2)" by fastforce
  have "co_error (fst (easy_perform C r w1)) \<noteq> None \<and> co_body (fst (easy_perform C r w1)) = []"
    using assms unfolding offline_def by blast
  then show ?thesis by (simp add: curl_exchange_def i p)
qed

lemma offline_received: "offline C \<Longrightarrow> fst (received (curl_exchange C r w)) = []"
  by (drule offline_exchange [of C r w]) (auto simp: received_def split: prod.splits option.splits)

lemma offline_whole: "offline C \<Longrightarrow> fst (whole_answer (curl_exchange C r w)) = []"
  by (drule offline_exchange [of C r w]) (auto simp: whole_answer_def split: prod.splits option.splits)

lemma offline_post: "offline C \<Longrightarrow> isl (fst (auth_http_post C url h body w))"
  unfolding auth_http_post_def http_result_def
  by (drule offline_exchange [of C "\<lparr>rq_method = ''POST'', rq_url = c_str url, rq_headers = JSON_CONTENT # header_lines h,
        rq_body = body, rq_timeout_ms = 30000, rq_follow = True\<rparr>" w]) (auto split: prod.splits option.splits)

lemma offline_login: "offline C \<Longrightarrow> \<exists>e s'. authenticate J (net_auth C A) L km n s = (Inl e, s')"
proof (cases "authenticate J (net_auth C A) L km n s")
  case (Pair r s')
  assume off: "offline C"
  show ?thesis
  proof (cases r)
    case (Inr u)
    with Pair have a: "authenticate J (net_auth C A) L km n s = (Inr u, s')" by simp
    then obtain url h t x t' where "ar_call (au_http_post (net_auth C A) url h []) t = (Inr x, t')"
      unfolding authenticate_def by (auto simp: throw_def elim!: bind_InrE andthen_InrE split: if_splits)
    then obtain w where "au_http_post (net_auth C A) url h [] (ar_world t) = (Inr x, w)" using ar_call_run by blast
    then show ?thesis using offline_post [OF off, of url h "[]" "ar_world t"] by (simp add: net_auth_def)
  qed (use Pair in simp)
qed

text \<open>
  Without a network the program does not start: whatever the key file holds, \<open>main\<close> ends
  before the session. With a missing argument it exits with code 1; otherwise the failed key load or the
  failed login aborts the process.
\<close>

theorem no_network_no_start:
  assumes "offline C"
  shows "startup J (net_auth C A) L (https_post C) argv k w = Inl (if length argv < 2 then Exit 1 else Abort)"
proof -
  obtain r km where l: "km_load J L (argv ! 1) (new_key_manager k) = (r, km)" by fastforce
  obtain e s' where "authenticate J (net_auth C A) L km 0
      \<lparr>ar_world = w, ar_auth = new_clob_auth ''https://clob.polymarket.com''\<rparr> = (Inl e, s')"
    using offline_login [OF assms] by blast
  then show ?thesis by (cases r) (simp_all add: startup_def leave_def l [simplified])
qed

subsection \<open>A machine without a network\<close>

text \<open>No position, no quotes, and in a state from which only the entry arms lead on.\<close>

definition flat_machine :: "('w, 'z) osm_scheme \<Rightarrow> bool" where
  "flat_machine s \<longleftrightarrow> \<not> is_open (pos s) \<and> st s \<in> {IDLE, TAKER_EVAL} \<and> bid_order_id s = [] \<and> ask_order_id s = []"

definition no_success :: "'w venue \<Rightarrow> bool" where
  "no_success V \<longleftrightarrow> (\<forall>q g t w. case fst (v_submit V q g t w) of Inl _ \<Rightarrow> True | Inr x \<Rightarrow> \<not> sr_success x)"

lemma offline_no_success: "offline C \<Longrightarrow> no_success (http_venue (net_libs C B) km au)"
proof -
  assume off: "offline C"
  have "fst (curl_do C url meth body h w) = []" for url meth body h w
    unfolding curl_do_def by (rule offline_received [OF off])
  then have "case fst (submit_order J A (curl_do C) base a q g t w) of Inl _ \<Rightarrow> True | Inr x \<Rightarrow> \<not> sr_success x" for J A base a q g t w
    by (simp add: submit_order_def Let_def clob_post_def split: prod.split sum.split) (metis fst_conv read_submit_empty submit_result.select_convs(1))
  then show "no_success (http_venue (net_libs C B) km au)"
    unfolding no_success_def by (simp add: http_venue_def net_libs_def) blast
qed

lemma refused_submit:
  assumes "no_success V" and "clob_submit V q t s = (Inr x, s')"
  shows "\<not> sr_success x"
proof -
  obtain g u where "v_submit V q g t u = (Inr x, world s')"
    using assms(2) unfolding clob_submit_def attempt_def call_def
    by (auto elim!: bind_InrE split: prod.splits)
  then show ?thesis using assms(1) unfolding no_success_def by (metis (no_types, lifting) fst_conv old.sum.simps(6))
qed

lemma refused_fire:
  assumes "no_success V" and "fire V cfg b e entry s = (Inr (res, entry'), s')"
  shows "res \<in> {SKIPPED, ERROR}"
proof -
  consider "res \<in> {SKIPPED, ERROR}" | usdc qty where "fire_legs V cfg (ss s) usdc qty entry s = (Inr (res, entry'), s')"
    using assms(2) by (auto simp: fire_def Let_def bind_def gets_def ret_def split: if_splits)
  then show ?thesis
  proof cases
    case 2
    then show ?thesis
      by (rule fire_legs_run) (auto split: if_splits dest: refused_submit [OF assms(1)])
  qed
qed

lemma refused_side: "no_success V \<Longrightarrow> submit_side V cfg sd p s = (Inr r, s') \<Longrightarrow> r = None"
  unfolding submit_side_def
  by (auto simp: Let_def split: prod.splits if_splits elim!: bind_InrE dest!: refused_submit)

lemma refused_quote:
  assumes "no_success V" and "quote V cfg p s = (Inr ok, s')"
  shows "\<not> ok"
proof -
  note none = refused_side [OF assms(1)]
  show ?thesis using assms(2) unfolding quote_def
    by (auto simp: Let_def split: if_splits elim!: bind_InrE andthen_InrE dest: none)
qed

lemma flat_arm: "taker_changes s s' \<Longrightarrow> flat_machine (s :: ('w, 'z) osm_scheme) \<Longrightarrow> flat_machine s' \<and> ss s' = ss s"
proof -
  assume t: "taker_changes s s'" and f: "flat_machine s"
  have "bid_order_id s' = bid_order_id s" "ask_order_id s' = ask_order_id s"
    using t by (cases s; cases s'; simp add: taker_changes_def)+
  then show ?thesis using f arm_changesD [OF arm_changes_taker [OF t]] by (simp add: flat_machine_def)
qed

lemma flat_quote:
  assumes "no_success V" and "quote V cfg p s = (Inr ok, s')" and "flat_machine s"
  shows "flat_machine s' \<and> ss s' = ss s"
proof -
  have q: "maker_changes s s'" "bid_order_id s' = []" "ask_order_id s' = []"
    using quote_run [OF assms(2)] refused_quote [OF assms(1,2)] by simp_all
  show ?thesis using assms(3) q arm_changesD [OF arm_changes_maker [OF q(1)]] by (simp add: flat_machine_def)
qed

lemma flat_transition:
  "transition x s = (Inr u, s') \<Longrightarrow> x \<in> {IDLE, TAKER_EVAL} \<Longrightarrow> flat_machine s \<Longrightarrow> flat_machine s' \<and> ss s' = ss s"
  by (auto simp: transition_def flat_machine_def)

lemma flat_handle_idle:
  assumes V: "no_success V" and run: "handle_idle V c s = (Inr u, s')" and f: "flat_machine s"
  shows "flat_machine s' \<and> ss s' = ss s"
proof -
  let ?b = "fle (compute_e_min_taker (ss s)) (edge_of (ss s))"
  let ?rest = "\<lambda>take. if take then transition TAKER_EVAL
       else if quotes_cancelled s then skip
       else if regime (ss s) = SIDEWAYS \<and> flt (fabs (edge_of (ss s))) (compute_e_min_taker (ss s))
       then bind (quote V (maker_cfg c) (p_true (ss s))) (\<lambda>ok. if ok then transition MAKER_QUOTED else skip)
       else skip"
  have nopen: "\<not> is_open (pos s)" using f by (simp add: flat_machine_def)
  have "(if entries_stopped s then skip
       else if MAX_OPEN_POSITIONS \<le> sint (open_position_count (ss s)) then skip
       else bind (if ?b then bind (in_cooldown V) (\<lambda>cd. ret (\<not> cd)) else ret False) ?rest) s = (Inr u, s')"
    using run by (simp only: handle_idle_def bind_gets id_apply nopen if_False Let_def)
  then consider "s' = s" | "bind (if ?b then bind (in_cooldown V) (\<lambda>cd. ret (\<not> cd)) else ret False) ?rest s = (Inr u, s')"
    by (auto simp only: skip_Inr split: if_split_asm)
  then consider "s' = s"
    | take t where "(if ?b then bind (in_cooldown V) (\<lambda>cd. ret (\<not> cd)) else ret False) s = (Inr take, t)"
        "?rest take t = (Inr u, s')"
    by cases (blast, erule bind_InrE, blast)
  then show ?thesis
  proof cases
    case 2
    have "taker_changes s t"
      using 2(1) in_cooldown_changes [of V s] by (auto simp: taker_changes_def split: if_splits elim!: bind_InrE)
    note t = flat_arm [OF this f]
    from 2(2) consider "s' = t" | "transition TAKER_EVAL t = (Inr u, s')"
      | ok v where "quote V (maker_cfg c) (p_true (ss s)) t = (Inr ok, v)"
          "(if ok then transition MAKER_QUOTED else skip) v = (Inr u, s')"
      by (auto simp: split: if_split_asm elim!: bind_InrE)
    then show ?thesis
    proof cases
      case 3
      then show ?thesis using t flat_quote [OF V 3(1)] refused_quote [OF V 3(1)] by simp
    qed (use t flat_transition [of TAKER_EVAL t u s'] in auto)
  qed (use f in simp)
qed

lemma flat_handle_taker:
  assumes V: "no_success V" and run: "handle_taker_eval V c s = (Inr u, s')" and f: "flat_machine s"
  shows "flat_machine s' \<and> ss s' = ss s"
proof -
  from run obtain res entry t where
    e: "fire V (taker_cfg c) (from_double (bankroll_usdc (ss s))) (from_double (total_exposure_usdc (ss s)))
          empty_entry s = (Inr (res, entry), t)"
    and r: "(case res of
         SUCCESS \<Rightarrow> andthen (open_position entry) (transition POSITION_OPEN)
       | SKIPPED \<Rightarrow> transition IDLE
       | LEG_FAIL \<Rightarrow> transition IDLE
       | ERROR \<Rightarrow> transition IDLE) t = (Inr u, s')"
    unfolding handle_taker_eval_def by (auto elim!: bind_InrE)
  have "transition IDLE t = (Inr u, s')" using r refused_fire [OF V e] by auto
  then show ?thesis using flat_arm [OF fire_changes [OF e] f] flat_transition by fastforce
qed

lemma flat_evaluate:
  assumes V: "no_success V" and run: "evaluate V c s = (Inr u, s')" and f: "flat_machine s"
  shows "flat_machine s' \<and> ss s' = ss s"
  using run
proof (rule evaluate_run)
  fix t w
  let ?s = "deadline_flags t (s\<lparr>world := w\<rparr>)"
  assume "(if flt t (Fin 0) then (if is_open (pos s) then close_position V c True else skip) else dispatch V c)
       ?s = (Inr u, s')"
  moreover have fs: "flat_machine ?s" "ss ?s = ss s" "st ?s = st s" "\<not> is_open (pos s)" "st s = IDLE \<or> st s = TAKER_EVAL"
    using f by (auto simp: flat_machine_def deadline_flags_def)
  ultimately consider "s' = ?s" | "handle_idle V c ?s = (Inr u, s')" | "handle_taker_eval V c ?s = (Inr u, s')"
    by (auto simp: dispatch_def split: if_splits)
  then show ?thesis
    by cases (use fs flat_handle_idle [OF V, of c ?s] flat_handle_taker [OF V, of c ?s] in auto)
qed

lemma flat_iteration:
  assumes V: "no_success V" and run: "run_iteration V c s = (Inr go, s')" and f: "flat_machine s"
  shows "flat_machine s' \<and> ss s' = ss s"
proof (cases "stop_flag s")
  case True
  then show ?thesis using run f by (simp add: run_iteration_def)
next
  case False
  from run this show ?thesis
  proof (rule iteration_run)
    fix s1 s2 t
    assume 1: "(if flatten_flag s then andthen (close_position V c True) (modify (\<lambda>s. s\<lparr>flatten_flag := False\<rparr>))
                     else skip) s = (Inr (), s1)"
      and 2: "evaluate V c s1 = (Inr (), s2)" and 3: "time_remaining_s V c s2 = (Inr t, s')"
    have "\<not> is_open (pos s)" using f by (simp add: flat_machine_def)
    then have "s1 = s \<or> s1 = s\<lparr>st := IDLE, flatten_flag := False\<rparr>"
      using 1 by (auto simp: close_position_closed split: if_splits elim!: andthen_InrE)
    then have s1: "flat_machine s1 \<and> ss s1 = ss s" using f by (auto simp: flat_machine_def)
    obtain w where "s' = s2\<lparr>world := w\<rparr>" using time_remaining_run [OF 3] by blast
    then show ?thesis using flat_evaluate [OF V 2] s1 by (simp add: flat_machine_def)
  qed
qed

lemma flat_turns:
  assumes "no_success V"
  shows "run_turns V c n s = (Inr go, s') \<Longrightarrow> flat_machine s \<Longrightarrow> flat_machine s' \<and> ss s' = ss s"
proof (induction n arbitrary: s)
  case (Suc n)
  then obtain g t where 1: "run_iteration V c s = (Inr g, t)"
    and 2: "(if g then run_turns V c n else ret False) t = (Inr go, s')" by (auto elim: bind_InrE)
  have t: "flat_machine t \<and> ss t = ss s" by (rule flat_iteration [OF assms 1 Suc.prems(2)])
  show ?case using Suc.IH [of t] 2 t by (auto split: if_splits)
qed simp

text \<open>
  C19. A machine over a dead network never takes a position. If every transfer fails before
  a byte is received, a machine without position and quotes is in that state after any number of turns,
  whatever it was told: it stays in \<open>IDLE\<close> or \<open>TAKER_EVAL\<close>, no order id is kept, and the shared
  counters are untouched.
\<close>

theorem offline_machine_stays_flat:
  assumes "offline C" and "flat_machine s"
    and "run_turns (http_venue (net_libs C B) km au) c n s = (Inr go, s')"
  shows "flat_machine s' \<and> ss s' = ss s"
  using flat_turns [OF offline_no_success [OF assms(1)] assms(3,2)] .

definition dead_curl :: "unit libcurl" where
  "dead_curl = \<lparr>easy_init = Pair True,
     easy_perform = (\<lambda>_. Pair \<lparr>co_error = Some ''Couldn't resolve host name'', co_body = [], co_status = 0\<rparr>)\<rparr>"

lemma dead_offline: "offline dead_curl"
  by (simp add: offline_def dead_curl_def)

lemma dead_ready: "session_ready (net_libs dead_curl silent_libs) held_key open_session"
  by (simp add: session_ready_def net_libs_def net_auth_def b64url_decode_def pad4_def trailing_pads_def silent_libs_def
      held_key_def open_session_def silent_auth_def silent_key_def)

theorem offline_machine_stays_flat_witness:
  "offline dead_curl
   \<and> (\<exists>go s'. run_turns (http_venue (net_libs dead_curl silent_libs) held_key open_session) sample_market 3 (new_osm initial_shared)
            = (Inr go, s') \<and> flat_machine s' \<and> ss s' = initial_shared)"
proof -
  obtain go s' where r: "run_turns (http_venue (net_libs dead_curl silent_libs) held_key open_session) sample_market 3
      (new_osm initial_shared) = (Inr go, s')"
    using returnsE [OF returns_run_turns [OF calm_http [OF dead_ready] token_sample]] by blast
  have "flat_machine (new_osm initial_shared)" by (simp add: flat_machine_def new_osm_def new_position_manager_def)
  from offline_machine_stays_flat [OF dead_offline this r] show ?thesis
    using r dead_offline by (auto simp: new_osm_def)
qed

theorem no_network_no_start_witness:
  "startup (table_json []) (net_auth dead_curl silent_auth) silent_key (https_post dead_curl) [''bot'', ''keys.enc''] () () = Inl Abort"
  by (simp add: no_network_no_start [OF dead_offline])

end
