(* ===== verification/Fleet.thy ===== *)
theory Fleet
  imports Bot
begin

text \<open>
  The machines of \<open>src/main.cpp\<close> as threads over one \<open>SharedState\<close>. A turn of a machine is two steps: it
  begins by reading its flags and the shared state, and it ends by adding to the shared counters what its
  \<open>fetch_add\<close> and \<open>fetch_sub\<close> calls add (\<open>src/execution/order_state_machine.cpp\<close>); the turns of other
  machines, the engine, the watchdog, the scanner's callbacks and the main loop may come between. The
  venue and the nonce counter are shared too: a turn may find any world and any counter value.
  Removed machines keep their place in the list, with their stop flag set.
\<close>

record 'w fleet =
  fl_shared :: shared_state
  fl_members :: "('w machine \<times> 'w osm option) list"

definition no_fleet :: "'w fleet" where
  "no_fleet = \<lparr>fl_shared = seeded_state, fl_members = []\<rparr>"

text \<open>What a turn from \<open>s\<close> to \<open>s'\<close> adds: at most one position is entered or released.\<close>

definition commit :: "('w, 'z) osm_scheme \<Rightarrow> ('w, 'z) osm_scheme \<Rightarrow> shared_state \<Rightarrow> shared_state" where
  "commit s s' cur = cur\<lparr>
     open_position_count := open_position_count cur + (open_position_count (ss s') - open_position_count (ss s)),
     total_exposure_usdc :=
       (if \<not> is_open (pos s) \<and> is_open (pos s') then fadd (total_exposure_usdc cur) (entry_cost (data (pos s')))
        else if is_open (pos s) \<and> \<not> is_open (pos s') then fsub (total_exposure_usdc cur) (entry_cost (data (pos s)))
        else total_exposure_usdc cur)\<rparr>"

text \<open>The flags other threads have set meanwhile stay set; the turn itself only clears a flatten request it saw.\<close>

definition late_signals :: "'w osm \<Rightarrow> 'w osm \<Rightarrow> 'w osm \<Rightarrow> 'w osm" where
  "late_signals s cur s' = s'\<lparr>
     stop_flag := stop_flag s' \<or> stop_flag cur,
     flatten_flag := flatten_flag s' \<or> (flatten_flag cur \<and> \<not> flatten_flag s),
     entries_stopped := entries_stopped s' \<or> entries_stopped cur,
     quotes_cancelled := quotes_cancelled s' \<or> quotes_cancelled cur,
     positions_closed := positions_closed s' \<or> positions_closed cur,
     force_closed := force_closed s' \<or> force_closed cur\<rparr>"

definition signals :: "('w osm \<Rightarrow> 'w osm) set" where
  "signals = {stop, emergency_flatten, notify StopEntries, notify CancelQuotes, notify ClosePositions, notify ForceClose}"

inductive fleet_step :: "'w venue \<Rightarrow> 'w fleet \<Rightarrow> 'w fleet \<Rightarrow> bool" for V where
  launch: "fleet_step V f (f\<lparr>fl_members := fl_members f @
     [(\<lparr>m_config = machine_config am, m_osm = fresh_osm w n (fl_shared f)\<rparr>, None)]\<rparr>)"
| turn_begins: "i < length (fl_members f) \<Longrightarrow> fl_members f ! i = (m, None) \<Longrightarrow>
     fleet_step V f (f\<lparr>fl_members := (fl_members f)[i := (m, Some ((m_osm m)\<lparr>ss := fl_shared f\<rparr>))]\<rparr>)"
| turn_ends: "i < length (fl_members f) \<Longrightarrow> fl_members f ! i = (m, Some s0) \<Longrightarrow>
     s = s0\<lparr>world := w, next_nonce := n\<rparr> \<Longrightarrow> run_iteration V (m_config m) s = (Inr go, s') \<Longrightarrow>
     fleet_step V f (f\<lparr>fl_shared := commit s s' (fl_shared f),
       fl_members := (fl_members f)[i := (m\<lparr>m_osm := late_signals s (m_osm m) s'\<rparr>, None)]\<rparr>)"
| signal: "i < length (fl_members f) \<Longrightarrow> fl_members f ! i = (m, ph) \<Longrightarrow> g \<in> signals \<Longrightarrow>
     fleet_step V f (f\<lparr>fl_members := (fl_members f)[i := (on_machine g m, ph)]\<rparr>)"
| others: "open_position_count sh = open_position_count (fl_shared f) \<Longrightarrow> fleet_step V f (f\<lparr>fl_shared := sh\<rparr>)"

inductive fleet_reachable :: "'w venue \<Rightarrow> 'w fleet \<Rightarrow> bool" for V where
  start: "fleet_reachable V no_fleet"
| step: "fleet_reachable V f \<Longrightarrow> fleet_step V f f' \<Longrightarrow> fleet_reachable V f'"

subsection \<open>Every position is counted\<close>

definition holds_position :: "'w machine \<times> 'w osm option \<Rightarrow> bool" where
  "holds_position x \<longleftrightarrow> is_open (pos (m_osm (fst x)))"

definition held :: "'w fleet \<Rightarrow> nat" where
  "held f = length (filter holds_position (fl_members f))"

definition member_ok :: "'w machine \<times> 'w osm option \<Rightarrow> bool" where
  "member_ok = (\<lambda>(m, ph). osm_inv (m_osm m)
     \<and> (case ph of None \<Rightarrow> True | Some s \<Rightarrow> pos s = pos (m_osm m) \<and> st s = st (m_osm m)))"

definition fleet_inv :: "'w fleet \<Rightarrow> bool" where
  "fleet_inv f \<longleftrightarrow> open_position_count (fl_shared f) = word_of_nat (held f) \<and> (\<forall>x \<in> set (fl_members f). member_ok x)"

lemma held_update:
  assumes "i < length xs"
  shows "(word_of_nat (length (filter P (xs[i := y]))) :: u32) =
     word_of_nat (length (filter P xs)) - (if P (xs ! i) then 1 else 0) + (if P y then 1 else 0)"
proof -
  have xs: "xs = take i xs @ xs ! i # drop (Suc i) xs" using assms by (rule id_take_nth_drop)
  have up: "xs[i := y] = take i xs @ y # drop (Suc i) xs" using assms by (rule upd_conv_take_nth_drop)
  have "length (filter P xs) = length (filter P (take i xs)) + (if P (xs ! i) then 1 else 0) + length (filter P (drop (Suc i) xs))"
    by (subst (1) xs) simp
  then show ?thesis by (simp add: up)
qed

lemma fleet_inv_update:
  assumes "fleet_inv f" and "i < length (fl_members f)" and "member_ok y"
    and "open_position_count sh = open_position_count (fl_shared f)
       - (if holds_position (fl_members f ! i) then 1 else 0) + (if holds_position y then 1 else 0)"
  shows "fleet_inv (f\<lparr>fl_shared := sh, fl_members := (fl_members f)[i := y]\<rparr>)"
  using assms held_update [OF assms(2), of holds_position y]
  by (auto simp: fleet_inv_def held_def dest!: set_update_subset_insert [THEN subsetD])

lemma member_nth: "fleet_inv f \<Longrightarrow> i < length (fl_members f) \<Longrightarrow> member_ok (fl_members f ! i)"
  by (simp add: fleet_inv_def)

lemma signal_frame:
  "g \<in> signals \<Longrightarrow> pos (g s) = pos s \<and> st (g s) = st s \<and> calls (g s) = calls s \<and> (stop_flag s \<longrightarrow> stop_flag (g s))"
  by (auto simp: signals_def stop_def emergency_flatten_def notify_def notify_stop_entries_def
      notify_cancel_quotes_def notify_close_positions_def notify_force_close_def)

lemma late_signals_frame:
  "pos (late_signals s c s') = pos s'" "st (late_signals s c s') = st s'" "calls (late_signals s c s') = calls s'"
  by (simp_all add: late_signals_def)

lemma fleet_step_inv: "fleet_step V f f' \<Longrightarrow> fleet_inv f \<Longrightarrow> fleet_inv f'"
proof (induction rule: fleet_step.induct)
  case (launch f am w n)
  then show ?case
    by (auto simp: fleet_inv_def held_def holds_position_def member_ok_def fresh_osm_def osm_inv_def holding_def new_position_manager_def)
next
  case (turn_begins i f m)
  have "member_ok (m, Some ((m_osm m)\<lparr>ss := fl_shared f\<rparr>))"
    using member_nth [OF turn_begins(3,1)] turn_begins(2) by (simp add: member_ok_def)
  from fleet_inv_update [OF turn_begins(3,1) this, of "fl_shared f"] show ?case
    using turn_begins(2) by (simp add: holds_position_def)
next
  case (turn_ends i f m s0 s w n go s')
  note m = member_nth [OF turn_ends(5,1), unfolded turn_ends(2) member_ok_def, simplified]
  then have "osm_inv s" by (simp add: turn_ends(3) osm_inv_def)
  moreover have t: "machine_turn V (m_config m) s s'" using turn_ends(4) unfolding machine_turn_def by blast
  ultimately have o: "osm_inv s'" and "open_position_count (fl_shared f) + (open_position_count (ss s') - open_position_count (ss s))
      = open_position_count (fl_shared f) - own_count s + own_count s'"
    by (rule machine.turn_inv, rule machine.turn_adds)
  then have "open_position_count (commit s s' (fl_shared f)) = open_position_count (fl_shared f)
       - (if holds_position (fl_members f ! i) then 1 else 0)
       + (if holds_position (m\<lparr>m_osm := late_signals s (m_osm m) s'\<rparr>, None) then 1 else 0)"
    using m by (simp add: commit_def holds_position_def turn_ends(2,3) own_count_def late_signals_frame)
  moreover have "member_ok (m\<lparr>m_osm := late_signals s (m_osm m) s'\<rparr>, None)"
    using o by (simp add: member_ok_def osm_inv_def late_signals_frame)
  ultimately show ?case using turn_ends by (intro fleet_inv_update)
next
  case (signal i f m ph g)
  have "member_ok (on_machine g m, ph)"
    using member_nth [OF signal(4,1)] signal(2) signal_frame [OF signal(3), of "m_osm m"]
    by (simp add: member_ok_def on_machine_def osm_inv_def split: option.splits)
  from fleet_inv_update [OF signal(4,1) this, of "fl_shared f"] show ?case
    using signal(2) signal_frame [OF signal(3), of "m_osm m"] by (simp add: holds_position_def on_machine_def)
next
  case (others sh f)
  then show ?case by (simp add: fleet_inv_def held_def)
qed

lemma fleet_reachable_inv: "fleet_reachable V f \<Longrightarrow> fleet_inv f"
proof (induction rule: fleet_reachable.induct)
  case start
  show ?case by (simp add: fleet_inv_def held_def no_fleet_def seeded_state_def initial_shared_def)
qed (rule fleet_step_inv)

text \<open>
  C2. In every interleaving of the machines' turns with each other and with the engine, the
  watchdog, the deadlines and the synchronisation, the shared \<open>open_position_count\<close> is the number of open
  positions (modulo 2^32), those of removed machines included, and a machine has a position exactly in
  the states \<open>POSITION_OPEN\<close> and \<open>CLOSING\<close>.
\<close>

theorem every_position_is_counted:
  assumes "fleet_reachable V f"
  shows "open_position_count (fl_shared f) = word_of_nat (held f)
    \<and> (\<forall>(m, ph) \<in> set (fl_members f). holds_position (m, ph) = (st (m_osm m) = POSITION_OPEN \<or> st (m_osm m) = CLOSING))"
  using fleet_reachable_inv [OF assms] by (auto simp: fleet_inv_def holds_position_def member_ok_def osm_inv_def holding_def)

subsection \<open>A stopped machine\<close>

text \<open>The machine at place \<open>i\<close> is stopped, with these calls made and this position.\<close>

definition frozen :: "nat \<Rightarrow> event list \<Rightarrow> position_manager \<Rightarrow> 'w fleet \<Rightarrow> bool" where
  "frozen i cs p f \<longleftrightarrow> i < length (fl_members f) \<and> (case fl_members f ! i of (m, ph) \<Rightarrow>
     (\<forall>s \<in> insert (m_osm m) (set_option ph). stop_flag s \<and> calls s = cs \<and> pos s = p))"

lemma frozen_step: "fleet_step V f f' \<Longrightarrow> frozen i cs p f \<Longrightarrow> frozen i cs p f'"
proof (induction rule: fleet_step.induct)
  case (launch f am w n)
  then show ?case by (simp add: frozen_def nth_append)
next
  case (turn_begins j f m)
  then show ?case by (auto simp: frozen_def nth_list_update split: prod.splits)
next
  case (turn_ends j f m s0 s w n go s')
  have "s' = s" if "i = j"
    using that turn_ends by (simp add: frozen_def run_iteration_def)
  then show ?case
    using turn_ends by (cases "i = j") (auto simp: frozen_def late_signals_def)
next
  case (signal j f m ph g)
  then show ?case using signal_frame [OF signal(3), of "m_osm m"]
    by (cases "i = j") (auto simp: frozen_def on_machine_def)
next
  case (others sh f)
  then show ?case by (simp add: frozen_def)
qed

text \<open>
  C6. After \<open>stop\<close> nothing happens any more. In every continuation of an interleaving, a machine
  that was stopped between two of its turns makes no further venue call and keeps its position, open or
  not, whatever flatten request or deadline reaches it: a position that is open when the main loop
  answers the kill switch by stopping the machines is never sold.
\<close>

theorem stopped_machine_is_frozen:
  assumes "(fleet_step V)\<^sup>*\<^sup>* f f'" and "i < length (fl_members f)"
    and "fl_members f ! i = (m, None)" and "stop_flag (m_osm m)"
  shows "\<exists>m' ph. fl_members f' ! i = (m', ph) \<and> calls (m_osm m') = calls (m_osm m) \<and> pos (m_osm m') = pos (m_osm m)"
proof -
  have "frozen i (calls (m_osm m)) (pos (m_osm m)) f" using assms(2-4) by (simp add: frozen_def)
  with assms(1) have "frozen i (calls (m_osm m)) (pos (m_osm m)) f'" by (induction rule: rtranclp_induct) (auto intro: frozen_step)
  then show ?thesis by (auto simp: frozen_def split: prod.splits)
qed

subsection \<open>The cap on open positions\<close>

text \<open>A turn with nothing in between.\<close>

lemma reach_turn:
  assumes "fleet_reachable V f" and "i < length (fl_members f)" and "fl_members f ! i = (m, None)"
    and "run_iteration V (m_config m) ((m_osm m)\<lparr>world := w, next_nonce := n, ss := fl_shared f\<rparr>) = (Inr go, s')"
  shows "fleet_reachable V (f\<lparr>fl_shared := commit ((m_osm m)\<lparr>world := w, next_nonce := n, ss := fl_shared f\<rparr>) s' (fl_shared f),
     fl_members := (fl_members f)[i := (m\<lparr>m_osm := late_signals ((m_osm m)\<lparr>world := w, next_nonce := n, ss := fl_shared f\<rparr>) (m_osm m) s'\<rparr>, None)]\<rparr>)"
proof -
  let ?b = "(m_osm m)\<lparr>ss := fl_shared f\<rparr>" and ?s = "(m_osm m)\<lparr>world := w, next_nonce := n, ss := fl_shared f\<rparr>"
  let ?f = "f\<lparr>fl_members := (fl_members f)[i := (m, Some ?b)]\<rparr>"
  have "fleet_reachable V ?f" by (rule step [OF assms(1) turn_begins]) (use assms in simp_all)
  moreover have "i < length (fl_members ?f)" "fl_members ?f ! i = (m, Some ?b)" "?s = ?b\<lparr>world := w, next_nonce := n\<rparr>"
    using assms(2) by simp_all
  from turn_ends [OF this assms(4)] have "fleet_step V ?f (f\<lparr>fl_shared := commit ?s s' (fl_shared f),
     fl_members := (fl_members f)[i := (m\<lparr>m_osm := late_signals ?s (m_osm m) s'\<rparr>, None)]\<rparr>)" by simp
  ultimately show ?thesis by (rule step)
qed

text \<open>A quiet market: model and market agree at one half, low volatility.\<close>

definition quiet :: "shared_state \<Rightarrow> bool" where
  "quiet sh \<longleftrightarrow> p_true sh = lit (1 / 2) \<and> p_market sh = lit (1 / 2) \<and> regime sh = SIDEWAYS
     \<and> poly_best_bid sh = lit (1 / 2) \<and> poly_best_ask sh = lit (1 / 2)"

definition far_market :: active_market where
  "far_market = new_market ''c'' ''7'' ''8'' 300000000"

definition quoting :: "unit osm \<Rightarrow> bool" where
  "quoting s \<longleftrightarrow> st s = MAKER_QUOTED \<and> \<not> is_open (pos s) \<and> bid_order_id s \<noteq> [] \<and> quoted_mid s = lit (1 / 2)
     \<and> quote_time s = 0 \<and> \<not> stop_flag s \<and> \<not> flatten_flag s \<and> \<not> quotes_cancelled s"

lemma far_time: "time_left (machine_config far_market) 0 = Fin 300"
proof -
  have "sint (300000000 :: i64) = 300000000" by simp
  moreover have "f64_of_int 300000000 = Fin 300000000" by (simp add: f64_of_int_def fl_numeral)
  ultimately show ?thesis
    by (simp add: time_left_def machine_config_def osm_config.make_def far_market_def new_market_def lit_numeral fl_numeral)
qed

lemma filling_time: "time_remaining_s filling_venue (machine_config far_market) s = (Inr (Fin 300), s)"
  by (simp add: time_remaining_s_def system_micros_def observe_def filling_venue_def still_venue_def bind_def ret_def
      signed_divide_int_def far_time)

lemma far_flags: "deadline_flags (Fin 300) s = s"
  by (simp add: deadline_flags_def lit_numeral)

lemma quiet_edge:
  assumes "quiet sh"
  shows "edge_of sh = Fin 0" "\<not> fle (compute_e_min_taker sh) (Fin 0)" "flt (Fin 0) (compute_e_min_taker sh)"
proof -
  show e: "edge_of sh = Fin 0" using assms by (simp add: edge_of_def quiet_def fsub_def lit_half)
  have "compute_e_min_taker sh = compute_e_min_taker initial_shared"
    using assms by (simp add: compute_e_min_taker_def quiet_def initial_shared_def)
  then have p: "flt (Fin 0) (compute_e_min_taker sh)" using e_min_positive by simp
  then show "\<not> fle (compute_e_min_taker sh) (Fin 0)" by (cases "compute_e_min_taker sh") simp_all
  show "flt (Fin 0) (compute_e_min_taker sh)" by (rule p)
qed

lemma quote_prices:
  obtains b a where "fsub (lit (1 / 2)) (lit (1 / 200)) = Fin b" "1 / 4 \<le> b" "b \<le> 1 / 2"
    "fadd (lit (1 / 2)) (lit (1 / 200)) = Fin a" "a \<le> 3 / 4"
proof -
  have q: "fl (1 / 4) = Fin (1 / 4)" "fl (1 / 2) = Fin (1 / 2)" "fl (3 / 4) = Fin (3 / 4)"
    using fl_eqI [of "- 2" "1 / 4" 4503599627370496] lit_half e_min_roundings(3) by (simp_all add: pow2_def lit_def)
  have h: "lit (1 / 200) = Fin (5764607523034235 / 1152921504606846976)" by (simp add: lit_def e_min_roundings)
  let ?b = "fl (1 / 2 - 5764607523034235 / 1152921504606846976)" and ?a = "fl (1 / 2 + 5764607523034235 / 1152921504606846976)"
  have 1: "fle (fl (1 / 4)) ?b" "fle ?b (fl (1 / 2))" "fle ?a (fl (3 / 4))" "fle (fl (1 / 2)) ?a" by (rule fl_mono, simp)+
  have p: "fsub (lit (1 / 2)) (lit (1 / 200)) = ?b" "fadd (lit (1 / 2)) (lit (1 / 200)) = ?a"
    by (simp_all add: fsub_def lit_half h)
  show thesis
    using that 1 p unfolding q by (cases ?b; cases ?a) auto
qed

lemma u64_max_nonneg: "0 \<le> u64_max"
  by (simp add: u64_max_def)

lemma bid_shares:
  assumes "1 / 4 \<le> b" and "b \<le> 1 / 2"
  shows "shares_at (Amount 100000000) (Fin b) \<noteq> 0"
proof -
  have "f64_of_int (raw (Amount 100000000)) = Fin 100000000" by (simp add: f64_of_int_def fl_numeral)
  then have d: "fdiv (f64_of_int (raw (Amount 100000000))) (Fin b) = fl (100000000 / b)" using assms by simp
  have b: "fl 1 = Fin 1" "fl 400000000 = Fin 400000000" by (simp_all add: fl_numeral)
  have "1 \<le> 100000000 / b" "100000000 / b \<le> 400000000" using assms by (simp_all add: field_simps)
  note this [THEN fl_mono]
  then have "fle (Fin 1) (fl (100000000 / b))" "fle (fl (100000000 / b)) (Fin 400000000)" by (simp_all only: b)
  note m = this [THEN cast_int_mono [of 0 u64_max, rotated], OF u64_max_nonneg]
  have v: "cast_int 0 u64_max (Fin 1) = 1" "cast_int 0 u64_max (Fin 400000000) = 400000000"
    by (simp_all add: saturate_def u64_max_def)
  have "0 < cast_int 0 u64_max (fl (100000000 / b))" "cast_int 0 u64_max (fl (100000000 / b)) < 2 ^ 64"
    using m unfolding v by simp_all
  then have "uint (word_of_int (cast_int 0 u64_max (fl (100000000 / b))) :: u64) \<noteq> 0"
    by (simp add: uint_word_of_int)
  then show ?thesis unfolding shares_at_def d cast_u64_def by (metis unsigned_0)
qed

lemma calm_filling: "calm filling_venue"
  by (simp add: calm_def filling_venue_def still_venue_def)

lemma filling_submit:
  assumes "mc_token_id cfg = ''7''" and "maker_amounts cfg sd p = (m, t)" and "m \<noteq> 0" "t \<noteq> 0"
  shows "\<exists>s'. submit_side filling_venue cfg sd p s = (Inr (Some ''p1''), s')"
  using assms(2-4)
  by (simp add: submit_side_def assms(1) system_seconds_def observe_def filling_venue_def still_venue_def bind_def ret_def
      build_order_def attempt_def lift_sum_def token_7 nonce_next_def clob_submit_def call_def)

abbreviation far_maker :: maker_config where
  "far_maker \<equiv> maker_cfg (machine_config far_market)"

lemma far_maker_fields:
  "mc_token_id far_maker = ''7''" "mc_half_spread far_maker = lit (1 / 200)" "mc_size_usdc far_maker = Amount 100000000"
  by (simp_all add: maker_cfg_def machine_config_def osm_config.make_def far_market_def new_market_def num_simps)

lemma filling_quote:
  fixes s :: "unit osm"
  assumes "bid_order_id s = []" and "ask_order_id s = []" and "p_market (ss s) = lit (1 / 2)"
  shows "\<exists>s'. quote filling_venue far_maker (lit (1 / 2)) s = (Inr True, s')
    \<and> bid_order_id s' \<noteq> [] \<and> quoted_mid s' = lit (1 / 2) \<and> quote_time s' = 0"
proof -
  obtain b a where p: "fsub (lit (1 / 2)) (lit (1 / 200)) = Fin b" "1 / 4 \<le> b" "b \<le> 1 / 2"
    "fadd (lit (1 / 2)) (lit (1 / 200)) = Fin a" "a \<le> 3 / 4" by (rule quote_prices)
  have l: "\<not> fle (Fin b) (lit (1 / 100))" "\<not> fle (lit (99 / 100)) (Fin a)"
  proof -
    have "fle (lit (1 / 100)) (fl (1 / 8))" "fle (fl (7 / 8)) (lit (99 / 100))" by (simp_all add: lit_def fl_mono)
    moreover have "fl (1 / 8) = Fin (1 / 8)" "fl (7 / 8) = Fin (7 / 8)"
      using fl_eqI [of "- 3" "1 / 8" 4503599627370496] fl_eqI [of "- 1" "7 / 8" 7881299347898368] by (simp_all add: pow2_def)
    ultimately show "\<not> fle (Fin b) (lit (1 / 100))" "\<not> fle (lit (99 / 100)) (Fin a)"
      using p by (cases "lit (1 / 100)"; cases "lit (99 / 100)"; simp)+
  qed
  have c: "cancel_all filling_venue s = (Inr (), s)"
    using assms by (simp add: cancel_all_def cancel_bid_def cancel_ask_def andthen_def bind_def gets_def skip_def ret_def)
  have "maker_amounts far_maker 0 (Fin b) = (100000000, shares_at (Amount 100000000) (Fin b))"
    using p(2) by (simp add: maker_amounts_def far_maker_fields poly_units_def)
  from filling_submit [OF far_maker_fields(1) this] bid_shares [OF p(2,3)]
  obtain s1 where 1: "submit_side filling_venue far_maker 0 (Fin b) s = (Inr (Some ''p1''), s1)" by auto
  have tok: "parse_token_id (mc_token_id far_maker) = Inr (u64_to_uint256 7)" by (simp add: far_maker_fields token_7)
  obtain r s2 where 2: "submit_side filling_venue far_maker 1 (Fin a) (s1\<lparr>bid_order_id := ''p1''\<rparr>) = (Inr r, s2)"
    using returnsE [OF returns_submit_side [OF calm_filling tok]] by blast
  have "bid_order_id s2 = ''p1''" "p_market (ss s2) = lit (1 / 2)"
    using submit_side_changes [OF 1] submit_side_changes [OF 2] assms(3) by (simp_all add: maker_changes_def)
  moreover have "steady_now filling_venue t = (Inr 0, t)" for t :: "unit osm"
    by (simp add: steady_now_def observe_def filling_venue_def still_venue_def)
  ultimately show ?thesis
    by (simp add: quote_def far_maker_fields p l c 1 2 Let_def andthen_def bind_def gets_def modify_def id_of_def ret_def)
qed

text \<open>A turn far from the deadlines is its handler.\<close>

lemma far_turn:
  assumes "\<not> stop_flag s" and "\<not> flatten_flag s" and "dispatch filling_venue (machine_config far_market) s = (Inr (), s')"
  shows "run_iteration filling_venue (machine_config far_market) s = (Inr True, s')"
proof -
  have "evaluate filling_venue (machine_config far_market) s = (Inr (), s')"
    using assms(3) by (simp add: evaluate_def bind_def filling_time far_flags)
  moreover have "\<not> flt (Fin 300) (lit (- 60))"
    using fl_of_int [of "- 60"] by (simp add: lit_def)
  ultimately show ?thesis using assms(1,2)
    by (simp add: run_iteration_def andthen_def bind_def gets_def filling_time ret_def skip_def)
qed

lemma fresh_quotes:
  assumes "quiet sh" and "sint (open_position_count sh) < MAX_OPEN_POSITIONS"
  obtains s' where "run_iteration filling_venue (machine_config far_market) ((fresh_osm () 0 sh')\<lparr>world := (), next_nonce := 0, ss := sh\<rparr>)
     = (Inr True, s')" "quoting s'" "ss s' = sh"
proof -
  let ?s = "(fresh_osm () 0 sh')\<lparr>world := (), next_nonce := 0, ss := sh\<rparr>"
  have f: "bid_order_id ?s = []" "ask_order_id ?s = []" "p_market (ss ?s) = lit (1 / 2)" "p_true sh = lit (1 / 2)"
    "st ?s = IDLE" "\<not> is_open (pos ?s)" "\<not> entries_stopped ?s" "\<not> quotes_cancelled ?s" "\<not> stop_flag ?s" "\<not> flatten_flag ?s"
    "regime (ss ?s) = SIDEWAYS"
    using assms(1) by (simp_all add: fresh_osm_def quiet_def new_position_manager_def)
  obtain t where t: "quote filling_venue far_maker (lit (1 / 2)) ?s = (Inr True, t)"
    "bid_order_id t \<noteq> []" "quoted_mid t = lit (1 / 2)" "quote_time t = 0" using filling_quote [OF f(1-3)] by blast
  have m: "arm_changes ?s t" by (rule arm_runs(4) [OF t(1)])
  have "fabs (edge_of sh) = Fin 0" by (simp add: quiet_edge [OF assms(1)])
  then have "handle_idle filling_venue (machine_config far_market) ?s = (Inr (), t\<lparr>st := MAKER_QUOTED\<rparr>)"
    using assms f quiet_edge [OF assms(1)] t(1)
    by (simp add: handle_idle_def bind_def gets_def ret_def Let_def transition_def modify_def)
  then have "dispatch filling_venue (machine_config far_market) ?s = (Inr (), t\<lparr>st := MAKER_QUOTED\<rparr>)"
    using f by (simp add: dispatch_def)
  moreover have "quoting (t\<lparr>st := MAKER_QUOTED\<rparr>)" "ss (t\<lparr>st := MAKER_QUOTED\<rparr>) = sh"
    using arm_changesD [OF m] t f by (simp_all add: quoting_def)
  ultimately show thesis using that far_turn [OF f(9,10)] by blast
qed

lemma quote_fills:
  assumes "quoting s" and "quiet (ss s)"
  obtains s' where "run_iteration filling_venue (machine_config far_market) s = (Inr True, s')" "is_open (pos s')" "quiet (ss s')"
proof -
  have f: "st s = MAKER_QUOTED" "\<not> quotes_cancelled s" "\<not> stop_flag s" "\<not> flatten_flag s" "bid_order_id s \<noteq> []"
    "quoted_mid s = lit (1 / 2)" "quote_time s = 0" "p_market (ss s) = lit (1 / 2)"
    using assms by (simp_all add: quoting_def quiet_def)
  obtain e t where m: "manage filling_venue far_maker empty_entry s = (Inr (FILLED_BID, e), t)"
  proof -
    have "\<exists>e t. check_fills filling_venue far_maker empty_entry s = (Inr (FILLED_BID, e), t)"
      using f(5) by (simp add: check_fills_def check_fill_def filling_venue_def still_venue_def bind_def gets_def
          clob_status_def call_noexcept_def ret_def andthen_def modify_def cancel_all_def cancel_bid_def
          cancel_ask_def clob_cancel_def call_def skip_def)
    moreover have "steady_now filling_venue s = (Inr 0, s)"
      by (simp add: steady_now_def observe_def filling_venue_def still_venue_def)
    ultimately show thesis
      using that no_move f by (auto simp: manage_def bind_def gets_def MAX_AGE_MS_val lit_half)
  qed
  let ?t = "(t\<lparr>pos := pm_open e (pos t), ss := (ss t)\<lparr>total_exposure_usdc := fadd (total_exposure_usdc (ss t)) (entry_cost e),
      open_position_count := open_position_count (ss t) + 1\<rparr>\<rparr>)\<lparr>st := POSITION_OPEN\<rparr>"
  have "handle_maker_quoted filling_venue (machine_config far_market) s = (Inr (), ?t)"
    using f m quiet_edge [OF assms(2)]
    by (simp add: handle_maker_quoted_def bind_def gets_def ret_def andthen_def modify_def transition_def open_position_def)
  then have "dispatch filling_venue (machine_config far_market) s = (Inr (), ?t)" using f by (simp add: dispatch_def)
  moreover have "is_open (pos ?t)" "quiet (ss ?t)"
    using assms(2) arm_changesD(1) [OF arm_runs(5) [OF m]] by (simp_all add: pm_open_def quiet_def)
  ultimately show thesis using that far_turn [OF f(3,4)] by blast
qed

lemma late_quoting:
  "quoting s' \<Longrightarrow> \<not> stop_flag c \<Longrightarrow> \<not> flatten_flag c \<Longrightarrow> \<not> quotes_cancelled c \<Longrightarrow> quoting (late_signals s c s')"
  by (simp add: quoting_def late_signals_def)

text \<open>Any number of machines can be quoting while nothing is open yet, and every quote can then fill.\<close>

lemma all_quoting:
  "\<exists>f. fleet_reachable filling_venue f \<and> fl_shared f = seeded_state \<and> length (fl_members f) = n
     \<and> (\<forall>x \<in> set (fl_members f). snd x = None \<and> m_config (fst x) = machine_config far_market \<and> quoting (m_osm (fst x)))"
proof (induction n)
  case 0
  have "fleet_reachable filling_venue no_fleet" by (rule start)
  then show ?case by (intro exI [of _ no_fleet]) (simp add: no_fleet_def)
next
  case (Suc n)
  then obtain f where f: "fleet_reachable filling_venue f" "fl_shared f = seeded_state" "length (fl_members f) = n"
    "\<forall>x \<in> set (fl_members f). snd x = None \<and> m_config (fst x) = machine_config far_market \<and> quoting (m_osm (fst x))" by blast
  let ?m = "\<lparr>m_config = machine_config far_market, m_osm = fresh_osm () 0 (fl_shared f)\<rparr>"
  let ?f = "f\<lparr>fl_members := fl_members f @ [(?m, None)]\<rparr>"
  have r: "fleet_reachable filling_venue ?f" by (rule step [OF f(1) launch])
  have "quiet seeded_state" "sint (open_position_count seeded_state) < MAX_OPEN_POSITIONS"
    by (simp_all add: quiet_def seeded_state_def initial_shared_def MAX_OPEN_POSITIONS_def)
  then obtain s' where s': "run_iteration filling_venue (machine_config far_market)
      ((fresh_osm () 0 seeded_state)\<lparr>world := (), next_nonce := 0, ss := seeded_state\<rparr>) = (Inr True, s')"
    "quoting s'" "ss s' = seeded_state" by (rule fresh_quotes)
  have i: "n < length (fl_members ?f)" "fl_members ?f ! n = (?m, None)" using f(3) by (simp_all add: nth_append)
  have no: "\<not> is_open (pos (fresh_osm () 0 seeded_state))" "\<not> is_open (pos s')"
    using s'(2) by (simp_all add: fresh_osm_def new_position_manager_def quoting_def)
  have run: "run_iteration filling_venue (m_config ?m) ((m_osm ?m)\<lparr>world := (), next_nonce := 0, ss := fl_shared ?f\<rparr>) = (Inr True, s')"
    using s'(1) by (simp add: f(2))
  have c: "commit ((m_osm ?m)\<lparr>world := (), next_nonce := 0, ss := fl_shared ?f\<rparr>) s' (fl_shared ?f) = seeded_state"
    using no s'(3) by (simp add: commit_def f(2))
  let ?q = "late_signals ((m_osm ?m)\<lparr>world := (), next_nonce := 0, ss := fl_shared ?f\<rparr>) (m_osm ?m) s'"
  have "quoting ?q" by (rule late_quoting [OF s'(2)]) (simp_all add: fresh_osm_def)
  with reach_turn [OF r i run] show ?case unfolding c
    using f by (intro exI conjI) (assumption, auto simp: list_update_append)
qed


theorem every_position_is_counted_witness:
  "\<exists>f. fleet_reachable filling_venue f \<and> open_position_count (fl_shared f) = word_of_nat (held f)
     \<and> fl_members f = [(\<lparr>m_config = machine_config far_market, m_osm = fresh_osm () 0 seeded_state\<rparr>, None)]"
proof -
  note r = step [OF start fleet_step.launch [of filling_venue no_fleet far_market "()" 0]]
  from r every_position_is_counted [OF r] show ?thesis
    by (intro exI conjI) (assumption, simp, simp add: no_fleet_def)
qed

theorem stopped_machine_is_frozen_witness:
  "\<exists>f' m' ph. (fleet_step filling_venue)\<^sup>*\<^sup>*
       \<lparr>fl_shared = seeded_state, fl_members = [(\<lparr>m_config = sample_market, m_osm = stop holding_osm\<rparr>, None)]\<rparr> f'
     \<and> fl_members f' ! 0 = (m', ph) \<and> flatten_flag (m_osm m') \<and> is_open (pos (m_osm m'))"
proof -
  let ?m = "\<lparr>m_config = sample_market, m_osm = stop holding_osm\<rparr>"
  let ?f = "\<lparr>fl_shared = seeded_state, fl_members = [(?m, None)]\<rparr> :: unit fleet"
  let ?g = "?f\<lparr>fl_members := (fl_members ?f)[0 := (on_machine emergency_flatten ?m, None)]\<rparr>"
  have "fleet_step filling_venue ?f ?g" by (rule signal) (simp_all add: signals_def)
  then have r: "(fleet_step filling_venue)\<^sup>*\<^sup>* ?f ?g" ..
  have o: "is_open (pos (stop holding_osm))" by (simp add: stop_def holding_osm_def pm_open_def)
  obtain m' ph where "fl_members ?g ! 0 = (m', ph)" "pos (m_osm m') = pos (stop holding_osm)"
    using stopped_machine_is_frozen [OF r, of 0 ?m] by (auto simp: stop_def)
  moreover from this have "flatten_flag (m_osm m')" by (auto simp: on_machine_def emergency_flatten_def)
  ultimately show ?thesis using r o by metis
qed

end
