(* ===== verification/Feed_Session.thy ===== *)
theory Feed_Session
  imports Feed_Safety
begin

text \<open>
  The coroutines of \<open>FeedManager::run\<close> in \<open>src/data/feed_manager.cpp\<close> over the socket calls: connecting a
  WebSocket, subscribing, reading until an exception or the stop, waiting, connecting again. The calls of
  Boost.Asio, Beast and OpenSSL are the fields of a record over the world; a call that throws gives \<open>Inl\<close>.
  \<open>'e\<close> is the type of resolved endpoints. What \<open>Feed_Manager\<close> calls the list of messages of a connection is
  here what the reads give.
\<close>

record ('e, 'w) wss =
  ws_resolve :: "string \<Rightarrow> string \<Rightarrow> 'w \<Rightarrow> (exn + 'e) \<times> 'w"
  ws_connect :: "'e \<Rightarrow> 'w \<Rightarrow> (exn + unit) \<times> 'w"
  ws_set_sni :: "string \<Rightarrow> 'w \<Rightarrow> bool \<times> 'w"
  ws_tls :: "'w \<Rightarrow> (exn + unit) \<times> 'w"
  ws_handshake :: "string \<Rightarrow> string \<Rightarrow> 'w \<Rightarrow> (exn + unit) \<times> 'w"
  ws_write :: "string \<Rightarrow> 'w \<Rightarrow> (exn + unit) \<times> 'w"
  ws_read :: "'w \<Rightarrow> (exn + string) \<times> 'w"
  ws_wait_ms :: "nat \<Rightarrow> 'w \<Rightarrow> 'w"

definition socket :: "('w \<Rightarrow> (exn + 'a) \<times> 'w) \<Rightarrow> ('w feed, 'a) prog" where
  "socket f = (\<lambda>s. case f (fd_world s) of (r, w) \<Rightarrow> (r, s\<lparr>fd_world := w\<rparr>))"

definition connect_wss :: "('e, 'w) wss \<Rightarrow> string \<Rightarrow> string \<Rightarrow> string \<Rightarrow> ('w feed, unit) prog" where
  "connect_wss W host port path =
     bind (socket (ws_resolve W host port)) (\<lambda>endpoints.
     andthen (socket (ws_connect W endpoints))
     (bind (socket (\<lambda>w. case ws_set_sni W (takeWhile (\<lambda>c. c \<noteq> CHR 0x00) host) w of (ok, w1) \<Rightarrow> (Inr ok, w1))) (\<lambda>ok.
      if \<not> ok then throw (Runtime_Error ''SSL_set_tlsext_host_name failed'')
      else andthen (socket (ws_tls W)) (socket (ws_handshake W host path)))))"

record stream =
  s_source :: source
  s_host :: string
  s_port :: string
  s_path :: string
  s_subscribe :: "string option"

definition binance_path :: string where
  "binance_path = ''/stream?streams=btcusdc@depth20@100ms/btcusdc@aggTrade/btcusdc@markPrice@1s''"

definition binance_stream :: "string \<Rightarrow> string \<Rightarrow> stream" where
  "binance_stream host port = \<lparr>s_source = BINANCE, s_host = host, s_port = port, s_path = binance_path, s_subscribe = None\<rparr>"

definition dq :: string where
  "dq = [CHR 0x22]"

definition cb_subscribe :: string where
  "cb_subscribe = ''{'' @ dq @ ''type'' @ dq @ '':'' @ dq @ ''subscribe'' @ dq @ '','' @ dq @ ''product_ids'' @ dq @ '':[''
     @ dq @ ''BTC-USD'' @ dq @ ''],'' @ dq @ ''channel'' @ dq @ '':'' @ dq @ ''ticker'' @ dq @ ''}''"

definition coinbase_stream :: "string \<Rightarrow> string \<Rightarrow> stream" where
  "coinbase_stream host port =
     \<lparr>s_source = COINBASE, s_host = host, s_port = port, s_path = ''/'', s_subscribe = Some cb_subscribe\<rparr>"

text \<open>The subscription of the Polymarket stream is built once, from the ids that \<open>run\<close> was given.\<close>

definition poly_sub :: "'j json_lib \<Rightarrow> string list \<Rightarrow> string" where
  "poly_sub J ids =
     j_dump J (j_object J [(''type'', j_text J ''market''), (''assets_ids'', j_array J (map (j_text J) ids))])"

definition polymarket_stream :: "'j json_lib \<Rightarrow> string list \<Rightarrow> string \<Rightarrow> string \<Rightarrow> stream" where
  "polymarket_stream J ids host port =
     \<lparr>s_source = POLYMARKET, s_host = host, s_port = port, s_path = ''/ws/market'', s_subscribe = Some (poly_sub J ids)\<rparr>"

subsection \<open>A session\<close>

text \<open>
  The read loop, with the number of messages it is followed for. It ends by an exception or when the
  feed is stopped; \<open>False\<close> is a loop that is still reading.
\<close>

fun read_messages :: "'j json_lib \<Rightarrow> 'w clock \<Rightarrow> ('e, 'w) wss \<Rightarrow> source \<Rightarrow> nat \<Rightarrow> ('w feed, bool) prog" where
  "read_messages J C W src 0 = ret False"
| "read_messages J C W src (Suc n) =
     bind (gets fd_running) (\<lambda>run. if \<not> run then ret True else
     bind (socket (ws_read W)) (\<lambda>txt.
     bind (now_us C) (\<lambda>local_us.
     andthen (dispatch_msg J C src txt local_us) (read_messages J C W src n))))"

text \<open>The \<open>try\<close> block up to the reset of the attempt counter.\<close>

definition open_stream :: "('e, 'w) wss \<Rightarrow> stream \<Rightarrow> ('w feed, unit) prog" where
  "open_stream W x =
     andthen (connect_wss W (s_host x) (s_port x) (s_path x))
       (case s_subscribe x of None \<Rightarrow> skip | Some sub \<Rightarrow> socket (ws_write W sub))"

datatype round_end = Waits nat nat | Still_Reading | Process_Ends exn

definition wait_for :: "('e, 'w) wss \<Rightarrow> nat \<Rightarrow> 'w feed \<Rightarrow> round_end \<times> 'w feed" where
  "wait_for W attempt s =
     (Waits (next_delay attempt) (attempt + 1), s\<lparr>fd_world := ws_wait_ms W (next_delay attempt) (fd_world s)\<rparr>)"

text \<open>
  One round of a coroutine: an exception before the reset waits by the attempt counter, one after it, or
  the stop, by a counter of 0. A throw in a \<open>noexcept\<close> function ends the process.
\<close>

definition stream_round ::
  "'j json_lib \<Rightarrow> 'w clock \<Rightarrow> ('e, 'w) wss \<Rightarrow> stream \<Rightarrow> nat \<Rightarrow> nat \<Rightarrow> 'w feed \<Rightarrow> round_end \<times> 'w feed" where
  "stream_round J C W x n attempt s =
     (case open_stream W x s of
        (Inl _, s1) \<Rightarrow> wait_for W attempt s1
      | (Inr _, s1) \<Rightarrow> (case read_messages J C W (s_source x) n s1 of
            (Inl (Terminated m), s2) \<Rightarrow> (Process_Ends (Terminated m), s2)
          | (Inl _, s2) \<Rightarrow> wait_for W 0 s2
          | (Inr True, s2) \<Rightarrow> wait_for W 0 s2
          | (Inr False, s2) \<Rightarrow> (Still_Reading, s2)))"

text \<open>The coroutine, followed for a number of rounds of so many messages; the result is the delays waited.\<close>

fun stream_loop ::
  "'j json_lib \<Rightarrow> 'w clock \<Rightarrow> ('e, 'w) wss \<Rightarrow> stream \<Rightarrow> nat \<Rightarrow> nat \<Rightarrow> nat \<Rightarrow> 'w feed \<Rightarrow> nat list \<times> 'w feed" where
  "stream_loop J C W x n 0 attempt s = ([], s)"
| "stream_loop J C W x n (Suc k) attempt s =
     (if \<not> fd_running s then ([], s)
      else case stream_round J C W x n attempt s of
        (Waits d a, s1) \<Rightarrow> (case stream_loop J C W x n k a s1 of (ds, s2) \<Rightarrow> (d # ds, s2))
      | (_, s1) \<Rightarrow> ([], s1))"

definition fd_start :: "'w feed \<Rightarrow> 'w feed" where
  "fd_start s = s\<lparr>fd_running := True\<rparr>"

subsection \<open>What a coroutine may change\<close>

lemma lane_socket [lane_rules]: "follows (feed_trace src) (socket f)"
  by (auto simp: follows_def socket_def feed_trace_def clock_offset_us_def split: prod.splits)

lemma lane_throw [lane_rules]: "follows (feed_trace src) (throw e)"
  by (simp add: follows_def throw_def lane.R_refl)

lemma lane_open_stream: "follows (feed_trace src) (open_stream W x)"
  unfolding open_stream_def connect_wss_def by (intro lane_rules)

lemma lane_read_messages: "follows (feed_trace src) (read_messages J C W src n)"
proof (induction n)
  case (Suc n)
  then show ?case unfolding read_messages.simps by (intro lane_rules lane_dispatch)
qed (auto intro: lane_rules)

lemma lane_wait: "wait_for W a s = (e, s') \<Longrightarrow> feed_trace src s s'"
  by (auto simp: wait_for_def feed_trace_def clock_offset_us_def)

lemma lane_round:
  assumes "stream_round J C W x n a s = (e, s')"
  shows "feed_trace (s_source x) s s'"
proof -
  obtain r s1 where o: "open_stream W x s = (r, s1)" by fastforce
  obtain q s2 where m: "read_messages J C W (s_source x) n s1 = (q, s2)" by fastforce
  have 1: "feed_trace (s_source x) s s1" by (rule followsD [OF lane_open_stream o])
  have 2: "feed_trace (s_source x) s1 s2" by (rule followsD [OF lane_read_messages m])
  consider b where "wait_for W b s1 = (e, s')" | b where "wait_for W b s2 = (e, s')" | "s' = s2"
    using assms by (auto simp: stream_round_def o m split: sum.splits exn.splits bool.splits)
  then show ?thesis
    by cases (use feed_trace_trans [OF 1] feed_trace_trans [OF 2] lane_wait 2 in blast)+
qed

lemma lane_stream_loop: "stream_loop J C W x n k a s = (ds, s') \<Longrightarrow> feed_trace (s_source x) s s'"
proof (induction k arbitrary: a s ds s')
  case (Suc k)
  obtain e s1 where r: "stream_round J C W x n a s = (e, s1)" by fastforce
  note 1 = lane_round [OF r]
  show ?case
  proof (cases e)
    case (Waits d b)
    obtain es s2 where l: "stream_loop J C W x n k b s1 = (es, s2)" by fastforce
    have "s' = s \<or> s' = s2" using Suc.prems by (auto simp: r Waits l split: if_splits)
    then show ?thesis using feed_trace_trans [OF 1 Suc.IH [OF l]] lane.R_refl by blast
  qed (use Suc.prems 1 lane.R_refl in \<open>auto simp: r split: if_splits\<close>)
qed (simp add: lane.R_refl)

text \<open>
  C40. Isolation of the feeds, over the socket calls. However the resolver, the connections, the
  handshakes, the writes and the reads of one coroutine end, and whatever messages they deliver, over any
  number of reconnects: the ring only grows at its end, by ticks of the coroutine's own source, the
  fault level, last arrival, depth streak and clock offset of the other sources are untouched, and the
  feed is not stopped by it.
\<close>

theorem stream_keeps_its_lane:
  assumes "ring_inv 4096 (fd_ring s)" and "stream_loop J C W x n k attempt s = (delays, s')"
  shows "ring_inv 4096 (fd_ring s')
    \<and> (\<exists>ts. contents 4096 (fd_ring s') = contents 4096 (fd_ring s) @ ts \<and> list_all (\<lambda>t. tick_source t = s_source x) ts)
    \<and> (other = s_source x \<or> fault_of s' other = fault_of s other \<and> last_received s' other = last_received s other
         \<and> low_streak s' other = low_streak s other \<and> clock_offset_us other s' = clock_offset_us other s)
    \<and> fd_running s' = fd_running s"
  using lane_stream_loop [OF assms(2)] assms(1) by (auto simp: feed_trace_def list_all_iff)

text \<open>A socket library that connects every second time and delivers one message.\<close>

definition flaky_wss :: "(unit, i64) wss" where
  "flaky_wss = \<lparr>ws_resolve = (\<lambda>_ _ w. (if odd (unat w) then Inl (Runtime_Error ''resolve'') else Inr (), w + 1)),
     ws_connect = (\<lambda>_. Pair (Inr ())), ws_set_sni = (\<lambda>_. Pair True), ws_tls = Pair (Inr ()),
     ws_handshake = (\<lambda>_ _. Pair (Inr ())), ws_write = (\<lambda>_. Pair (Inr ())),
     ws_read = (\<lambda>w. (if even (unat w) then Inl (Runtime_Error ''closed'') else Inr ''t'', w)), ws_wait_ms = (\<lambda>_ w. w)\<rparr>"

theorem stream_keeps_its_lane_witness:
  "\<exists>delays s'. stream_loop feed_json counting_clock flaky_wss (coinbase_stream ''h'' ''443'') 5 4 0 running_feed = (delays, s')
     \<and> ring_inv 4096 (fd_ring s') \<and> fault_of s' BINANCE = NOMINAL \<and> fd_running s'"
proof -
  obtain delays s' where r: "stream_loop feed_json counting_clock flaky_wss (coinbase_stream ''h'' ''443'') 5 4 0 running_feed = (delays, s')"
    by fastforce
  have i: "ring_inv 4096 (fd_ring running_feed)" by (simp add: running_feed_def new_feed_def ring_inv_def new_ring_def)
  from stream_keeps_its_lane [OF i r, of BINANCE] r show ?thesis
    by (auto simp: running_feed_def new_feed_def coinbase_stream_def)
qed

subsection \<open>Waiting between rounds\<close>

text \<open>The delay of every round is between 100 ms and 25.6 s, and 100 ms after a session was established.\<close>

lemma round_delay:
  assumes "stream_round J C W x n a s = (Waits d a', s')"
  shows "d \<in> {100..25600} \<and> (a' = a + 1 \<and> d = next_delay a \<or> a' = 1 \<and> d = 100)"
  using assms next_delay_bounds [of a]
  by (auto simp: stream_round_def wait_for_def next_delay_def split: prod.splits sum.splits exn.splits bool.splits)

end
